(* ===== verification/Go_Strings.thy ===== *)
theory Go_Strings
  imports Prelude
begin

section \<open>What the program uses of Go's strings, strconv and encoding/binary\<close>

text \<open>
  Strings are UTF-8 byte lists, as in Go.  \<open>TrimSpace\<close> trims the code points for which
  \<open>unicode.IsSpace\<close> holds, so the model lists their UTF-8 encodings.
\<close>

definition space_encodings :: "string list" where
  "space_encodings =
     [[CHR 0x20], [CHR 0x09], [CHR 0x0A], [CHR 0x0B], [CHR 0x0C], [CHR 0x0D],
      [CHR 0xC2, CHR 0x85], [CHR 0xC2, CHR 0xA0], [CHR 0xE1, CHR 0x9A, CHR 0x80],
      [CHR 0xE2, CHR 0x80, CHR 0x80], [CHR 0xE2, CHR 0x80, CHR 0x81],
      [CHR 0xE2, CHR 0x80, CHR 0x82], [CHR 0xE2, CHR 0x80, CHR 0x83],
      [CHR 0xE2, CHR 0x80, CHR 0x84], [CHR 0xE2, CHR 0x80, CHR 0x85],
      [CHR 0xE2, CHR 0x80, CHR 0x86], [CHR 0xE2, CHR 0x80, CHR 0x87],
      [CHR 0xE2, CHR 0x80, CHR 0x88], [CHR 0xE2, CHR 0x80, CHR 0x89],
      [CHR 0xE2, CHR 0x80, CHR 0x8A], [CHR 0xE2, CHR 0x80, CHR 0xA8],
      [CHR 0xE2, CHR 0x80, CHR 0xA9], [CHR 0xE2, CHR 0x80, CHR 0xAF],
      [CHR 0xE2, CHR 0x81, CHR 0x9F], [CHR 0xE3, CHR 0x80, CHR 0x80]]"

text \<open>\<open>strings.HasPrefix\<close>; the suffix test of the right trim is the same on reversed strings.\<close>

fun has_prefix :: "string \<Rightarrow> string \<Rightarrow> bool" where
  "has_prefix s [] = True"
| "has_prefix [] (p # ps) = False"
| "has_prefix (x # xs) (p # ps) = (x = p \<and> has_prefix xs ps)"

text \<open>\<open>strings.Contains\<close>.\<close>

fun contains :: "string \<Rightarrow> string \<Rightarrow> bool" where
  "contains [] sub = (sub = [])"
| "contains (x # xs) sub = (has_prefix (x # xs) sub \<or> contains xs sub)"

text \<open>Drop leading members of a set of non-empty tokens, as often as one matches.\<close>

function strip_tokens :: "string list \<Rightarrow> string \<Rightarrow> string" where
  "strip_tokens toks s =
     (case find (\<lambda>t. t \<noteq> [] \<and> has_prefix s t) toks of
        None \<Rightarrow> s
      | Some t \<Rightarrow> strip_tokens toks (drop (length t) s))"
  by pat_completeness auto
termination
proof (relation "measure (\<lambda>(toks, s). length s)", goal_cases)
  case 1
  show ?case by simp
next
  case (2 toks s t)
  then have "t \<noteq> []" and "has_prefix s t"
    by (auto simp: find_Some_iff)
  moreover from this have "s \<noteq> []"
    by (cases t; cases s) auto
  ultimately show ?case by simp
qed

declare strip_tokens.simps [simp del]

definition TrimLeftSpace :: "string \<Rightarrow> string" where
  "TrimLeftSpace s = strip_tokens space_encodings s"

definition TrimRightSpace :: "string \<Rightarrow> string" where
  "TrimRightSpace s = rev (strip_tokens (map rev space_encodings) (rev s))"

definition TrimSpace :: "string \<Rightarrow> string" where
  "TrimSpace s = TrimRightSpace (TrimLeftSpace s)"

lemma has_prefix_iff: "has_prefix s p \<longleftrightarrow> prefix p s"
  by (induction s p rule: has_prefix.induct) auto

lemma strip_tokens_suffix: "suffix (strip_tokens toks s) s"
proof (induction toks s rule: strip_tokens.induct)
  case (1 toks s)
  show ?case
  proof (cases "find (\<lambda>t. t \<noteq> [] \<and> has_prefix s t) toks")
    case None
    then show ?thesis by (subst strip_tokens.simps) simp
  next
    case (Some t)
    with "1.IH" [OF Some]
    have "suffix (strip_tokens toks (drop (length t) s)) (drop (length t) s)" by simp
    then have "suffix (strip_tokens toks (drop (length t) s)) s"
      by (rule suffix_order.trans) (rule suffix_drop)
    with Some show ?thesis by (subst strip_tokens.simps) simp
  qed
qed

lemma strip_tokens_stable:
  "find (\<lambda>t. t \<noteq> [] \<and> has_prefix (strip_tokens toks s) t) toks = None"
proof (induction toks s rule: strip_tokens.induct)
  case (1 toks s)
  then show ?case
    by (cases "find (\<lambda>t. t \<noteq> [] \<and> has_prefix s t) toks")
      (simp_all add: strip_tokens.simps [of toks s])
qed

lemma strip_tokens_fixed:
  "find (\<lambda>t. t \<noteq> [] \<and> has_prefix s t) toks = None \<Longrightarrow> strip_tokens toks s = s"
  by (subst strip_tokens.simps) simp

text \<open>
  Trimming is idempotent.  Trimming on the right keeps a prefix of the string, and a string
  that starts with no space has no prefix that does.
\<close>

lemma TrimRightSpace_prefix: "prefix (TrimRightSpace s) s"
  using strip_tokens_suffix [of "map rev space_encodings" "rev s"]
  by (simp add: TrimRightSpace_def suffix_to_prefix)

lemma TrimSpace_no_leading:
  "find (\<lambda>t. t \<noteq> [] \<and> has_prefix (TrimSpace s) t) space_encodings = None"
proof -
  let ?l = "TrimLeftSpace s"
  have l: "find (\<lambda>t. t \<noteq> [] \<and> has_prefix ?l t) space_encodings = None"
    unfolding TrimLeftSpace_def by (rule strip_tokens_stable)
  have "prefix (TrimSpace s) ?l"
    by (simp add: TrimSpace_def TrimRightSpace_prefix)
  with l show ?thesis
    by (auto simp: find_None_iff has_prefix_iff dest: prefix_order.trans)
qed

lemma TrimSpace_idem [simp]: "TrimSpace (TrimSpace s) = TrimSpace s"
proof -
  have "TrimLeftSpace (TrimSpace s) = TrimSpace s"
    unfolding TrimLeftSpace_def
    by (rule strip_tokens_fixed) (rule TrimSpace_no_leading)
  moreover have "TrimRightSpace (TrimSpace s) = TrimSpace s"
    using strip_tokens_stable [of "map rev space_encodings" "rev (TrimLeftSpace s)"]
    by (simp add: TrimSpace_def TrimRightSpace_def strip_tokens_fixed)
  ultimately show ?thesis by (simp add: TrimSpace_def)
qed

subsection \<open>Big-endian 32-bit headers\<close>

text \<open>\<open>binary.BigEndian.PutUint32\<close> and \<open>binary.BigEndian.Uint32\<close>.\<close>

definition PutUint32 :: "u32 \<Rightarrow> bytes" where
  "PutUint32 v = map (\<lambda>k. char_of (unat (drop_bit k v) mod 256)) [24, 16, 8, 0]"

definition Uint32 :: "bytes \<Rightarrow> u32" where
  "Uint32 bs = foldl (\<lambda>acc b. push_bit 8 acc + of_nat (of_char b)) 0 bs"

lemma length_PutUint32 [simp]: "length (PutUint32 v) = 4"
  by (simp add: PutUint32_def)

lemma base256_digits:
  assumes "(n::nat) < 2 ^ 32"
  shows "((n div 2 ^ 24 mod 256 * 256 + n div 2 ^ 16 mod 256) * 256 + n div 2 ^ 8 mod 256) * 256
    + n mod 256 = n"
proof -
  have "n div 2 ^ 24 mod 256 = n div 2 ^ 24" using assms by simp
  moreover have "n div 2 ^ 24 * 256 + n div 2 ^ 16 mod 256 = n div 2 ^ 16"
    using div_mult_mod_eq [of "n div 2 ^ 16" 256] by (simp flip: div_mult2_eq)
  moreover have "n div 2 ^ 16 * 256 + n div 2 ^ 8 mod 256 = n div 2 ^ 8"
    using div_mult_mod_eq [of "n div 2 ^ 8" 256] by (simp flip: div_mult2_eq)
  moreover have "n div 2 ^ 8 * 256 + n mod 256 = n"
    using div_mult_mod_eq [of n 256] by simp
  ultimately show ?thesis by simp
qed

lemma Uint32_PutUint32 [simp]: "Uint32 (PutUint32 v) = v"
proof -
  let ?n = "unat v"
  have n: "?n < 2 ^ 32" using unsigned_less [of v] by simp
  have d: "unat (drop_bit k v) = ?n div 2 ^ k" for k
    by (metis unat_drop_bit_eq drop_bit_eq_div)
  have "(of_nat (((?n div 2 ^ 24 mod 256 * 256 + ?n div 2 ^ 16 mod 256) * 256
      + ?n div 2 ^ 8 mod 256) * 256 + ?n mod 256) :: u32) = v"
    by (simp only: base256_digits [OF n] of_nat_unat ucast_id)
  then show ?thesis
    by (simp add: Uint32_def PutUint32_def d push_bit_eq_mult ac_simps
        del: unat_drop_bit_eq)
qed

lemma PutUint32_Uint32:
  assumes "length b = 4" shows "PutUint32 (Uint32 b) = b"
proof -
  from assms obtain x y z u where b: "b = [x, y, z, u]"
    by (auto simp: numeral_eq_Suc length_Suc_conv)
  define n where "n = ((of_char x * 256 + of_char y) * 256 + of_char z) * 256 + (of_char u :: nat)"
  have lt: "of_char c \<le> (255::nat)" for c :: char using nat_of_char_less_256 [of c] by linarith
  note lts = lt [of x] lt [of y] lt [of z] lt [of u]
  have n: "n < 2 ^ 32" using lts unfolding n_def by simp
  have v: "Uint32 b = of_nat n"
    by (simp add: b Uint32_def n_def push_bit_eq_mult algebra_simps)
  have u: "unat (Uint32 b) = n"
    using n unfolding v by (simp add: unsigned_of_nat take_bit_nat_eq_self_iff)
  have d: "unat (drop_bit k (Uint32 b)) = n div 2 ^ k" for k
    using u by (metis unat_drop_bit_eq drop_bit_eq_div)
  have "n div 2 ^ 24 mod 256 = of_char x" "n div 2 ^ 16 mod 256 = of_char y"
    "n div 2 ^ 8 mod 256 = of_char z" "n mod 256 = of_char u"
  proof -
    have q: "(m * 256 + of_char c) div 256 = m" "(m * 256 + of_char c) mod 256 = of_char c"
      for m :: nat and c using lt [of c] by simp_all
    have "n div 256 = (of_char x * 256 + of_char y) * 256 + of_char z" unfolding n_def by (rule q)
    moreover from this have "n div 256 div 256 = of_char x * 256 + of_char y" by (simp only: q)
    moreover from this have "n div 256 div 256 div 256 = of_char x" by (simp only: q)
    moreover have "n div 2 ^ 24 = n div 256 div 256 div 256" "n div 2 ^ 16 = n div 256 div 256"
      "n div 2 ^ 8 = n div 256" by (simp_all flip: div_mult2_eq)
    ultimately show "n div 2 ^ 24 mod 256 = of_char x" "n div 2 ^ 16 mod 256 = of_char y"
      "n div 2 ^ 8 mod 256 = of_char z" by (simp_all only: q of_char_mod_256)
    show "n mod 256 = of_char u" unfolding n_def by (rule q)
  qed
  then have "map (\<lambda>k. char_of (n div 2 ^ k mod 256)) [24, 16, 8, 0] = [x, y, z, u]"
    by (simp only: list.map power_0 div_by_1 char_of_char)
  moreover have "PutUint32 (Uint32 b) = map (\<lambda>k. char_of (n div 2 ^ k mod 256)) [24, 16, 8, 0]"
    unfolding PutUint32_def d ..
  ultimately show ?thesis by (simp only: b)
qed

end
