(* ===== verification/Go_Path.thy ===== *)
theory Go_Path
  imports Go_Strings
begin

section \<open>Go's path/filepath on Unix\<close>

text \<open>
  \<open>filepath.Clean\<close>, \<open>Join\<close>, \<open>Rel\<close>, \<open>Dir\<close>, \<open>Base\<close>, \<open>IsAbs\<close> and \<open>Abs\<close> as the program uses
  them on Unix, where \<open>ToSlash\<close> and \<open>FromSlash\<close> are the identity and there is no volume
  name.  \<open>Clean\<close> works on the components between separators: it drops empty ones and
  \<open>"."\<close>, and \<open>".."\<close> removes the component before it, stays at the root of a rooted path,
  and is kept at the start of a relative one.
\<close>

abbreviation sep :: char where "sep \<equiv> CHR ''/''"

definition IsAbs :: "string \<Rightarrow> bool" where
  "IsAbs p = has_prefix p [sep]"

definition FromSlash :: "string \<Rightarrow> string" where "FromSlash p = p"
definition ToSlash :: "string \<Rightarrow> string" where "ToSlash p = p"

text \<open>The component stack of \<open>Clean\<close>, innermost first.\<close>

fun clean_step :: "bool \<Rightarrow> string list \<Rightarrow> string \<Rightarrow> string list" where
  "clean_step rooted st c =
     (if c = [] \<or> c = ''.'' then st
      else if c = ''..'' then
        (case st of
           [] \<Rightarrow> if rooted then [] else [''..'']
         | t # ts \<Rightarrow> if t = ''..'' then ''..'' # st else ts)
      else c # st)"

definition clean_comps :: "bool \<Rightarrow> string list \<Rightarrow> string list" where
  "clean_comps rooted cs = rev (foldl (clean_step rooted) [] cs)"

definition render :: "bool \<Rightarrow> string list \<Rightarrow> string" where
  "render rooted cs =
     (if rooted then sep # join_with sep cs
      else if cs = [] then ''.'' else join_with sep cs)"

definition Clean :: "string \<Rightarrow> string" where
  "Clean p =
     (if p = [] then ''.''
      else render (IsAbs p) (clean_comps (IsAbs p) (split_on sep p)))"

fun Join :: "string list \<Rightarrow> string" where
  "Join [] = []"
| "Join (e # es) = (if e \<noteq> [] then Clean (join_with sep (e # es)) else Join es)"

text \<open>\<open>Dir\<close> cleans everything up to and including the last separator; \<open>Base\<close> is the last
  component once trailing separators are gone.\<close>

definition Dir :: "string \<Rightarrow> string" where
  "Dir p = Clean (rev (dropWhile (\<lambda>c. c \<noteq> sep) (rev p)))"

definition Base :: "string \<Rightarrow> string" where
  "Base p =
     (if p = [] then ''.''
      else let q = rev (dropWhile (\<lambda>c. c = sep) (rev p))
           in if q = [] then [sep] else last (split_on sep q))"

definition Abs :: "'e + string \<Rightarrow> string \<Rightarrow> 'e + string" where
  "Abs wd p =
     (if IsAbs p then Inr (Clean p)
      else case wd of Inl e \<Rightarrow> Inl e | Inr d \<Rightarrow> Inr (Join [d, p]))"

text \<open>
  \<open>Rel\<close> strips the common components of the two cleaned paths and climbs out of what is
  left of the base.
\<close>

fun strip_common :: "string list \<Rightarrow> string list \<Rightarrow> string list \<times> string list" where
  "strip_common (b # bs) (t # ts) =
     (if b = t then strip_common bs ts else (b # bs, t # ts))"
| "strip_common bs ts = (bs, ts)"

definition path_comps :: "string \<Rightarrow> string list" where
  "path_comps p = filter (\<lambda>c. c \<noteq> []) (split_on sep p)"

definition Rel :: "string \<Rightarrow> string \<Rightarrow> string + string" where
  "Rel basepath targpath =
     (let base = Clean basepath; targ = Clean targpath in
      if targ = base then Inr ''.''
      else let base = (if base = ''.'' then [] else base) in
        if IsAbs base \<noteq> IsAbs targ
        then Inl (''Rel: can't make '' @ targpath @ '' relative to '' @ basepath)
        else case strip_common (path_comps base) (path_comps targ) of (bs, ts) \<Rightarrow>
          if bs \<noteq> [] \<and> hd bs = ''..''
          then Inl (''Rel: can't make '' @ targpath @ '' relative to '' @ basepath)
          else Inr (join_with sep (map (\<lambda>_. ''..'') bs @ ts)))"

subsection \<open>Normal component lists\<close>

text \<open>
  A plain component is a name a directory entry can have.  A normal component list is what
  \<open>Clean\<close> leaves: plain components, after a run of \<open>".."\<close> where the path is relative.
\<close>

definition plain_comp :: "string \<Rightarrow> bool" where
  "plain_comp c \<longleftrightarrow> c \<noteq> [] \<and> c \<noteq> ''.'' \<and> c \<noteq> ''..'' \<and> sep \<notin> set c"

definition plain_comps :: "string list \<Rightarrow> bool" where
  "plain_comps cs = list_all plain_comp cs"

fun normal_comps :: "bool \<Rightarrow> string list \<Rightarrow> bool" where
  "normal_comps rooted [] = True"
| "normal_comps rooted (c # cs) =
     (if plain_comp c then plain_comps cs else \<not> rooted \<and> c = ''..'' \<and> normal_comps rooted cs)"

lemma not_plain_dots [simp]: "\<not> plain_comp ''..''" "\<not> plain_comp ''.''" "\<not> plain_comp []"
  by (simp_all add: plain_comp_def)

lemma plain_compD: "plain_comp c \<Longrightarrow> c \<noteq> [] \<and> c \<noteq> ''.'' \<and> c \<noteq> ''..'' \<and> sep \<notin> set c"
  by (simp add: plain_comp_def)

lemma plain_comps_Nil [simp]: "plain_comps []"
  by (simp add: plain_comps_def)

lemma plain_comps_Cons [simp]: "plain_comps (c # cs) \<longleftrightarrow> plain_comp c \<and> plain_comps cs"
  by (simp add: plain_comps_def)

lemma plain_comps_append [simp]: "plain_comps (xs @ ys) \<longleftrightarrow> plain_comps xs \<and> plain_comps ys"
  by (simp add: plain_comps_def)

lemma plain_comps_rev [simp]: "plain_comps (rev xs) \<longleftrightarrow> plain_comps xs"
  by (simp add: plain_comps_def)

lemma plain_imp_normal: "plain_comps cs \<Longrightarrow> normal_comps rooted cs"
  by (cases cs) auto

lemma normal_rooted [simp]: "normal_comps True cs \<longleftrightarrow> plain_comps cs"
  by (cases cs) auto

lemma normal_relative:
  "normal_comps False cs \<longleftrightarrow> (\<exists>n ds. cs = replicate n ''..'' @ ds \<and> plain_comps ds)"
proof (induction cs)
  case Nil
  show ?case by (auto intro: exI [of _ 0])
next
  case (Cons c cs)
  show ?case
  proof
    assume *: "normal_comps False (c # cs)"
    show "\<exists>n ds. c # cs = replicate n ''..'' @ ds \<and> plain_comps ds"
    proof (cases "plain_comp c")
      case True
      with * show ?thesis by (intro exI [of _ 0] exI [of _ "c # cs"]) simp
    next
      case False
      with * Cons.IH obtain n ds
        where "c = ''..''" "cs = replicate n ''..'' @ ds" "plain_comps ds" by auto
      then show ?thesis by (intro exI [of _ "Suc n"] exI [of _ ds]) simp
    qed
  next
    assume "\<exists>n ds. c # cs = replicate n ''..'' @ ds \<and> plain_comps ds"
    then obtain n ds where *: "c # cs = replicate n ''..'' @ ds" "plain_comps ds" by blast
    show "normal_comps False (c # cs)"
    proof (cases n)
      case 0
      with * show ?thesis by (auto simp: plain_imp_normal)
    next
      case (Suc m)
      with * Cons.IH show ?thesis by (auto simp: plain_comp_def)
    qed
  qed
qed

lemma normal_head_safe:
  "normal_comps False cs \<Longrightarrow> (cs = [] \<or> hd cs \<noteq> ''..'') \<longleftrightarrow> plain_comps cs"
  by (cases cs) (auto simp: plain_comp_def split: if_splits)

subsection \<open>What Clean computes\<close>

lemma normal_snoc_plain:
  "normal_comps rooted cs \<Longrightarrow> plain_comp c \<Longrightarrow> normal_comps rooted (cs @ [c])"
  by (induction cs) auto

lemma normal_butlast:
  "normal_comps rooted (cs @ [c]) \<Longrightarrow> normal_comps rooted cs"
  by (induction cs) (auto split: if_splits)

lemma plain_comps_no_dotdot: "plain_comps cs \<Longrightarrow> ''..'' \<notin> set cs"
  by (induction cs) auto

lemma normal_snoc_dotdot:
  "normal_comps False cs \<Longrightarrow> cs = [] \<or> last cs = ''..'' \<Longrightarrow> normal_comps False (cs @ [''..''])"
proof (induction cs)
  case Nil
  show ?case by simp
next
  case (Cons c cs)
  show ?case
  proof (cases "plain_comp c")
    case True
    with Cons.prems(1) have "plain_comps (c # cs)" by simp
    then have "''..'' \<notin> set (c # cs)" by (rule plain_comps_no_dotdot)
    moreover have "last (c # cs) \<in> set (c # cs)" by (rule last_in_set) simp
    moreover from Cons.prems(2) have "last (c # cs) = ''..''" by blast
    ultimately show ?thesis by (simp only:)
  next
    case False
    with Cons show ?thesis by (cases "cs = []") (simp_all split: if_splits)
  qed
qed

lemma normal_dotdot_inside:
  "normal_comps rooted (xs @ ''..'' # ys) \<Longrightarrow> \<not> rooted \<and> (\<forall>x \<in> set xs. x = ''..'')"
proof (induction xs)
  case Nil
  then show ?case by simp
next
  case (Cons x xs)
  then have "\<not> rooted" "x = ''..''" "normal_comps rooted (xs @ ''..'' # ys)"
    by (auto split: if_splits)
  with Cons.IH show ?case by simp
qed

lemma normal_no_skip:
  "normal_comps rooted cs \<Longrightarrow> c \<in> set cs \<Longrightarrow> c \<noteq> [] \<and> c \<noteq> ''.'' \<and> sep \<notin> set c"
  by (induction cs) (auto simp: plain_comp_def plain_comps_def list_all_iff split: if_splits)

lemma clean_step_normal:
  assumes "sep \<notin> set c" "normal_comps rooted (rev st)"
  shows "normal_comps rooted (rev (clean_step rooted st c))"
proof (cases "c = ''..''")
  case True
  show ?thesis
  proof (cases st)
    case Nil
    with True show ?thesis by (simp add: plain_comp_def)
  next
    case (Cons t ts)
    with assms True show ?thesis
      using normal_snoc_dotdot [of "rev st"] normal_dotdot_inside [of rooted "rev ts" "[]"]
      by (auto dest: normal_butlast)
  qed
next
  case False
  with assms show ?thesis by (auto simp: plain_comp_def normal_snoc_plain)
qed

lemma foldl_clean_normal:
  "\<forall>c \<in> set cs. sep \<notin> set c \<Longrightarrow> normal_comps rooted (rev st) \<Longrightarrow>
   normal_comps rooted (rev (foldl (clean_step rooted) st cs))"
  by (induction cs arbitrary: st) (auto simp: clean_step_normal simp del: clean_step.simps)

lemma clean_comps_normal:
  "\<forall>c \<in> set cs. sep \<notin> set c \<Longrightarrow> normal_comps rooted (clean_comps rooted cs)"
  unfolding clean_comps_def by (rule foldl_clean_normal) auto

lemma clean_comps_plain:
  "\<forall>c \<in> set cs. sep \<notin> set c \<Longrightarrow> plain_comps (clean_comps True cs)"
  using clean_comps_normal [of cs True] by (simp only: normal_rooted)

lemma clean_split_normal [simp]: "normal_comps rooted (clean_comps rooted (split_on sep p))"
  by (rule clean_comps_normal) (auto dest: split_on_no_sep)

lemma foldl_clean_id:
  "normal_comps rooted (rev st @ cs) \<Longrightarrow> foldl (clean_step rooted) st cs = rev cs @ st"
proof (induction cs arbitrary: st)
  case Nil
  then show ?case by simp
next
  case (Cons c cs)
  have c: "c \<noteq> [] \<and> c \<noteq> ''.''" using normal_no_skip [OF Cons.prems, of c] by simp
  have "clean_step rooted st c = c # st"
  proof (cases "c = ''..''")
    case True
    with Cons.prems normal_dotdot_inside [of rooted "rev st" cs] show ?thesis
      by (cases st) auto
  next
    case False
    with c show ?thesis by simp
  qed
  with Cons.IH [of "c # st"] Cons.prems show ?case by simp
qed

lemma clean_comps_id: "normal_comps rooted cs \<Longrightarrow> clean_comps rooted cs = cs"
  using foldl_clean_id [of rooted "[]" cs] by (simp add: clean_comps_def)

lemma foldl_clean_skip_empty:
  "foldl (clean_step rooted) st (filter (\<lambda>c. c \<noteq> []) cs) = foldl (clean_step rooted) st cs"
  by (induction cs arbitrary: st) auto

lemma clean_comps_append:
  "plain_comps cs \<Longrightarrow> clean_comps True (xs @ cs) = clean_comps True xs @ cs"
proof -
  assume cs: "plain_comps cs"
  have "foldl (clean_step True) st cs = rev cs @ st" for st
    using cs by (induction cs arbitrary: st) (auto simp: plain_comp_def)
  then show ?thesis by (simp add: clean_comps_def)
qed

lemma no_sep_join_hd:
  "normal_comps False cs \<Longrightarrow> cs \<noteq> [] \<Longrightarrow> \<exists>x xs. join_with sep cs = x # xs \<and> x \<noteq> sep"
proof -
  assume n: "normal_comps False cs" and "cs \<noteq> []"
  then obtain c ds where cs: "cs = c # ds" by (cases cs) auto
  then obtain x c' where "c = x # c'" "x \<noteq> sep"
    using normal_no_skip [OF n, of c] by (cases c) auto
  with cs show ?thesis by (cases ds) auto
qed

lemma IsAbs_render [simp]:
  "normal_comps rooted cs \<Longrightarrow> IsAbs (render rooted cs) = rooted"
proof (cases rooted)
  case True
  then show ?thesis by (simp add: IsAbs_def render_def)
next
  case False
  assume "normal_comps rooted cs"
  with False no_sep_join_hd [of cs] show ?thesis
    by (auto simp: IsAbs_def render_def)
qed

lemma split_render:
  assumes "normal_comps rooted cs"
  shows "clean_comps rooted (split_on sep (render rooted cs)) = cs"
proof (cases "cs = []")
  case True
  then show ?thesis by (simp add: render_def clean_comps_def)
next
  case False
  have "split_on sep (join_with sep cs) = cs"
    using False normal_no_skip [OF assms] by (intro split_join) auto
  with False clean_comps_id [OF assms] show ?thesis
    by (cases rooted) (simp_all add: render_def clean_comps_def)
qed

lemma render_not_Nil [simp]:
  "normal_comps rooted cs \<Longrightarrow> render rooted cs \<noteq> []"
  using no_sep_join_hd [of cs] by (auto simp: render_def)

lemma Clean_render [simp]: "normal_comps rooted cs \<Longrightarrow> Clean (render rooted cs) = render rooted cs"
  by (simp add: Clean_def split_render)

lemma render_inject:
  assumes "normal_comps rooted cs" "normal_comps rooted ds" "render rooted cs = render rooted ds"
  shows "cs = ds"
  using assms split_render by metis

text \<open>\<open>Clean\<close> always renders a normal component list, and is idempotent.\<close>

lemma Clean_normal:
  obtains cs where "normal_comps (IsAbs p) cs" "Clean p = render (IsAbs p) cs"
proof (cases "p = []")
  case True
  then show ?thesis by (intro that [of "[]"]) (auto simp: Clean_def render_def IsAbs_def)
next
  case False
  then show ?thesis
    by (intro that [of "clean_comps (IsAbs p) (split_on sep p)"]) (auto simp: Clean_def)
qed

lemma Clean_idem [simp]: "Clean (Clean p) = Clean p"
  by (rule Clean_normal [of p]) simp

lemma IsAbs_Clean [simp]: "IsAbs (Clean p) = IsAbs p"
  by (rule Clean_normal [of p]) simp

declare Join.simps [simp del]

subsection \<open>Absolute paths as component lists\<close>

definition abs_comps :: "string \<Rightarrow> string list" where
  "abs_comps p = clean_comps True (split_on sep p)"

lemma abs_comps_plain [simp]: "plain_comps (abs_comps p)"
  unfolding abs_comps_def by (rule clean_comps_plain) (rule split_on_all_no_sep)

lemma IsAbs_not_Nil: "IsAbs p \<Longrightarrow> p \<noteq> []"
  by (auto simp: IsAbs_def)

lemma Clean_abs: "IsAbs p \<Longrightarrow> Clean p = render True (abs_comps p)"
  by (simp add: Clean_def abs_comps_def IsAbs_not_Nil)

lemma abs_comps_render [simp, path_simps]: "plain_comps cs \<Longrightarrow> abs_comps (render True cs) = cs"
  by (simp add: abs_comps_def split_render)

lemma abs_comps_Clean [simp]: "IsAbs p \<Longrightarrow> abs_comps (Clean p) = abs_comps p"
  by (simp add: Clean_abs)

lemma IsAbs_append [simp]: "IsAbs d \<Longrightarrow> IsAbs (d @ xs)"
  by (auto simp: IsAbs_def has_prefix_iff)

lemma Join_abs:
  assumes "IsAbs d"
  shows "Join [d, p] = render True (clean_comps True (split_on sep d @ split_on sep p))"
  using assms by (simp add: Join.simps Clean_abs IsAbs_not_Nil abs_comps_def split_on_append)

lemma clean_comps_append_left:
  assumes "\<forall>c \<in> set xs. sep \<notin> set c"
  shows "clean_comps True (xs @ ys) = clean_comps True (clean_comps True xs @ ys)"
proof -
  let ?f = "foldl (clean_step True)"
  have "normal_comps True (rev (?f [] xs))"
    using assms by (intro foldl_clean_normal) auto
  then have "?f [] (rev (?f [] xs)) = ?f [] xs"
    using foldl_clean_id [of True "[]" "rev (?f [] xs)"] by simp
  then show ?thesis by (simp add: clean_comps_def)
qed

lemma length_render_append:
  "length (render True xs) \<le> length (render True (xs @ ys))"
proof (cases "xs = [] \<or> ys = []")
  case True
  then show ?thesis by (auto simp: render_def)
next
  case False
  then show ?thesis by (simp add: render_def join_with_append)
qed

lemma Join_abs_comps:
  "IsAbs d \<Longrightarrow> Join [d, p] = render True (clean_comps True (abs_comps d @ split_on sep p))"
  using clean_comps_append_left [OF split_on_all_no_sep, of d "split_on sep p"]
  by (simp only: Join_abs abs_comps_def)

lemma split_render_plain:
  "plain_comps cs \<Longrightarrow> cs \<noteq> [] \<Longrightarrow> split_on sep (render False cs) = cs"
  by (auto simp: render_def plain_comps_def list_all_iff plain_comp_def intro!: split_join)

lemma Join_render [path_simps]:
  assumes "plain_comps bs" "plain_comps cs"
  shows "Join [render True bs, render False cs] = render True (bs @ cs)"
proof (cases "cs = []")
  case True
  have "clean_comps True (bs @ [''.'']) = bs"
    using clean_comps_id [of True bs] assms by (simp add: clean_comps_def)
  with True assms show ?thesis
    by (simp add: Join_abs_comps render_def [of False])
next
  case False
  with assms show ?thesis
    by (simp add: Join_abs_comps split_render_plain clean_comps_id)
qed

lemma Join_name [path_simps]:
  "plain_comps bs \<Longrightarrow> plain_comp c \<Longrightarrow> Join [render True bs, c] = render True (bs @ [c])"
  using Join_render [of bs "[c]"] by (simp add: render_def [of False])

lemma IsAbs_Join [simp]: "IsAbs d \<Longrightarrow> IsAbs (Join [d, p])"
proof -
  assume "IsAbs d"
  moreover have "\<forall>c \<in> set (split_on sep d @ split_on sep p). sep \<notin> set c"
    by (auto dest: split_on_no_sep)
  ultimately show ?thesis
    by (simp only: Join_abs IsAbs_render clean_comps_normal)
qed

text \<open>\<open>Rel\<close> between absolute paths.\<close>

lemma strip_common_spec:
  "strip_common bs ts = (bs', ts') \<Longrightarrow>
   \<exists>ps. bs = ps @ bs' \<and> ts = ps @ ts' \<and> (bs' = [] \<or> ts' = [] \<or> hd bs' \<noteq> hd ts')"
  by (induction bs ts rule: strip_common.induct) (auto split: if_splits)

lemma strip_common_prefix [simp]: "strip_common bs (bs @ ts) = ([], ts)"
  by (induction bs) auto

lemma path_comps_render [simp, path_simps]: "plain_comps cs \<Longrightarrow> path_comps (render True cs) = cs"
proof (cases "cs = []")
  case True
  then show ?thesis by (simp add: path_comps_def render_def)
next
  case False
  assume cs: "plain_comps cs"
  then have "split_on sep (join_with sep cs) = cs"
    using split_render_plain [OF cs False] False by (simp add: render_def)
  moreover have "filter (\<lambda>c. c \<noteq> []) cs = cs"
    using cs by (simp add: plain_comps_def list_all_iff filter_id_conv plain_comp_def)
  ultimately show ?thesis by (simp add: path_comps_def render_def)
qed

lemma render_abs_not_dot [simp]: "render True cs \<noteq> ''.''"
  by (simp add: render_def)

lemma Rel_abs:
  assumes "IsAbs p" "IsAbs q"
  shows "Rel p q =
    (if abs_comps p = abs_comps q then Inr ''.''
     else case strip_common (abs_comps p) (abs_comps q) of
       (bs, ts) \<Rightarrow> Inr (join_with sep (map (\<lambda>_. ''..'') bs @ ts)))"
proof -
  have eq: "Clean q = Clean p \<longleftrightarrow> abs_comps p = abs_comps q"
    using assms render_inject [of True "abs_comps p" "abs_comps q"] by (auto simp: Clean_abs)
  obtain bs ts where st: "strip_common (abs_comps p) (abs_comps q) = (bs, ts)"
    by (cases "strip_common (abs_comps p) (abs_comps q)")
  then obtain ps where ps: "abs_comps p = ps @ bs"
    using strip_common_spec by blast
  with abs_comps_plain [of p] have "plain_comps (ps @ bs)" by (simp only:)
  then have "\<not> (bs \<noteq> [] \<and> hd bs = ''..'')"
    by (cases bs) (auto dest: plain_compD)
  then have "(bs \<noteq> [] \<and> hd bs = ''..'') = False" by blast
  with st eq assms show ?thesis
    by (simp only: Rel_def Let_def Clean_abs split: prod.split)
      auto
qed

lemma Rel_under:
  assumes "IsAbs p" "IsAbs q" "abs_comps q = abs_comps p @ cs"
  shows "Rel p q = Inr (render False cs)"
  using assms by (auto simp: Rel_abs render_def)

lemma Rel_render [path_simps]:
  "plain_comps bs \<Longrightarrow> plain_comps cs \<Longrightarrow>
   Rel (render True bs) (render True (bs @ cs)) = Inr (render False cs)"
  by (rule Rel_under) simp_all

text \<open>\<open>Dir\<close> of a clean relative path drops the last component.\<close>

lemma Clean_relative:
  "p \<noteq> [] \<Longrightarrow> \<not> IsAbs p \<Longrightarrow> Clean p = render False (clean_comps False (split_on sep p))"
  by (simp add: Clean_def)

lemma dropWhile_rev_last:
  "sep \<notin> set c \<Longrightarrow>
   rev (dropWhile (\<lambda>x. x \<noteq> sep) (rev (xs @ sep # c))) = xs @ [sep]"
  by (subst rev_append) (simp add: dropWhile_append)

lemma Dir_render [path_simps]:
  assumes "plain_comps cs"
  shows "Dir (render False cs) = render False (butlast cs)"
proof (cases cs rule: rev_cases)
  case Nil
  then show ?thesis by (simp add: Dir_def render_def Clean_def)
next
  case (snoc ds c)
  with assms have c: "plain_comp c" "sep \<notin> set c" by (simp_all add: plain_comp_def)
  show ?thesis
  proof (cases "ds = []")
    case True
    with snoc c have "rev (dropWhile (\<lambda>x. x \<noteq> sep) (rev (render False cs))) = []"
      by (auto simp: render_def dropWhile_eq_Nil_conv)
    with True snoc show ?thesis by (simp add: Dir_def Clean_def render_def)
  next
    case False
    with snoc assms have ds: "plain_comps ds" by simp
    have "render False cs = join_with sep ds @ sep # c"
      using snoc False by (simp add: render_def join_with_append)
    then have "Dir (render False cs) = Clean (join_with sep ds @ [sep])"
      by (simp only: Dir_def dropWhile_rev_last [OF c(2)])
    also have "\<dots> = render False ds"
    proof -
      have js: "join_with sep ds = render False ds" using False by (simp add: render_def)
      have "\<not> IsAbs (render False ds @ [sep])"
        using IsAbs_render [of False ds] render_not_Nil [of False ds] ds
        by (cases "render False ds") (auto simp: IsAbs_def plain_imp_normal)
      moreover have "split_on sep (render False ds @ [sep]) = ds @ [[]]"
        using split_on_append [of sep "render False ds" "[]"] split_render_plain [OF ds False] by simp
      moreover have "clean_comps False (ds @ [[]]) = ds"
        using clean_comps_id [of False ds] ds by (simp add: clean_comps_def plain_imp_normal)
      ultimately show ?thesis by (simp add: js Clean_relative)
    qed
    finally show ?thesis using snoc by simp
  qed
qed

lemma Dir_render_abs [path_simps]:
  assumes "plain_comps ds" "plain_comp c"
  shows "Dir (render True (ds @ [c])) = render True ds"
proof -
  have c: "sep \<notin> set c" using assms(2) by (simp add: plain_comp_def)
  have "render True (ds @ [c]) = (if ds = [] then [] else render True ds) @ sep # c"
    by (simp add: render_def join_with_append)
  then have "Dir (render True (ds @ [c])) = Clean ((if ds = [] then [] else render True ds) @ [sep])"
    by (simp only: Dir_def dropWhile_rev_last [OF c])
  also have "\<dots> = render True ds"
  proof (cases "ds = []")
    case True
    then show ?thesis by (simp add: Clean_def IsAbs_def render_def clean_comps_def has_prefix_iff)
  next
    case False
    have "split_on sep (render True ds @ [sep]) = split_on sep (render True ds) @ [[]]"
      using split_on_append [of sep "render True ds" "[]"] by simp
    then have "abs_comps (render True ds @ [sep]) = abs_comps (render True ds)"
      by (simp add: abs_comps_def clean_comps_def)
    with False assms show ?thesis
      using Clean_abs [of "render True ds @ [sep]"] by (simp add: plain_imp_normal)
  qed
  finally show ?thesis .
qed

end
