(* ===== verification/Go_Error.thy ===== *)
theory Go_Error
  imports Prelude
begin

section \<open>Go error values\<close>

text \<open>
  The errors the program builds and inspects.  An error is a tree: an \<open>*fs.PathError\<close>, a
  \<open>*net.OpError\<close> (with the network and address part of its text), a
  \<open>fmt.Errorf\<close> with \<open>%w\<close> and an \<open>errors.Join\<close> wrap the errors below them, and
  \<open>protocol.CodedError\<close> wraps an optional one.  \<open>errors.Is\<close> and \<open>errors.As\<close> walk the tree in
  pre-order; \<open>os.IsNotExist\<close> looks through a single \<open>PathError\<close> only.  The texts of
  third-party sentinels are carried by the value, since their package is not part of the
  repository.
\<close>

datatype errno =
    ENOENT | ENOTDIR | EEXIST | ENOTEMPTY | EPERM | EACCES | EOPNOTSUPP | EXDEV | EINVAL
  | ELOOP | ENAMETOOLONG | EISDIR | EIO | ENOSPC | EROFS | EBADF | EPIPE | EMFILE
  | OtherErrno nat

datatype sentinel =
    FsErrNotExist | FsErrExist | FsErrPermission | IoEOF | IoErrUnexpectedEOF | NetErrClosed
  | CtxCanceled | CtxDeadlineExceeded
  | ErrReflinkUnsupported string
  | ErrReflinkFailed string

datatype go_error =
    Errno errno
  | Sentinel sentinel
  | ErrorString string
  | PathError string string go_error
  | OpError string string "go_error option"
  | CodedError (coded_code: string) (coded_message: string) (coded_err: "go_error option")
  | WrapErr string "go_error list"
  | JoinErr "go_error list"

subsection \<open>Error texts\<close>

fun errno_msg :: "errno \<Rightarrow> string" where
  "errno_msg ENOENT = ''no such file or directory''"
| "errno_msg ENOTDIR = ''not a directory''"
| "errno_msg EEXIST = ''file exists''"
| "errno_msg ENOTEMPTY = ''directory not empty''"
| "errno_msg EPERM = ''operation not permitted''"
| "errno_msg EACCES = ''permission denied''"
| "errno_msg EOPNOTSUPP = ''operation not supported''"
| "errno_msg EXDEV = ''invalid cross-device link''"
| "errno_msg EINVAL = ''invalid argument''"
| "errno_msg ELOOP = ''too many levels of symbolic links''"
| "errno_msg ENAMETOOLONG = ''file name too long''"
| "errno_msg EISDIR = ''is a directory''"
| "errno_msg EIO = ''input/output error''"
| "errno_msg ENOSPC = ''no space left on device''"
| "errno_msg EROFS = ''read-only file system''"
| "errno_msg EBADF = ''bad file descriptor''"
| "errno_msg EPIPE = ''broken pipe''"
| "errno_msg EMFILE = ''too many open files''"
| "errno_msg (OtherErrno n) = ''errno '' @ show_nat n"

fun sentinel_msg :: "sentinel \<Rightarrow> string" where
  "sentinel_msg FsErrNotExist = ''file does not exist''"
| "sentinel_msg FsErrExist = ''file already exists''"
| "sentinel_msg FsErrPermission = ''permission denied''"
| "sentinel_msg IoEOF = ''EOF''"
| "sentinel_msg IoErrUnexpectedEOF = ''unexpected EOF''"
| "sentinel_msg NetErrClosed = ''use of closed network connection''"
| "sentinel_msg CtxCanceled = ''context canceled''"
| "sentinel_msg CtxDeadlineExceeded = ''context deadline exceeded''"
| "sentinel_msg (ErrReflinkUnsupported s) = s"
| "sentinel_msg (ErrReflinkFailed s) = s"

fun error_msg :: "go_error \<Rightarrow> string" where
  "error_msg (Errno n) = errno_msg n"
| "error_msg (Sentinel s) = sentinel_msg s"
| "error_msg (ErrorString s) = s"
| "error_msg (PathError oper path e) = oper @ '' '' @ path @ '': '' @ error_msg e"
| "error_msg (OpError oper addr e) =
     oper @ addr @ (case e of None \<Rightarrow> [] | Some e' \<Rightarrow> '': '' @ error_msg e')"
| "error_msg (CodedError c m e) = m"
| "error_msg (WrapErr m es) = m"
| "error_msg (JoinErr es) = join_with CHR 0x0A (map error_msg es)"

subsection \<open>errors.Is, errors.As and os.IsNotExist\<close>

fun errors_is :: "(go_error \<Rightarrow> bool) \<Rightarrow> go_error \<Rightarrow> bool" where
  "errors_is P (PathError oper path e) = (P (PathError oper path e) \<or> errors_is P e)"
| "errors_is P (OpError oper addr e) =
     (P (OpError oper addr e) \<or> (case e of None \<Rightarrow> False | Some e' \<Rightarrow> errors_is P e'))"
| "errors_is P (CodedError c m e) =
     (P (CodedError c m e) \<or> (case e of None \<Rightarrow> False | Some e' \<Rightarrow> errors_is P e'))"
| "errors_is P (WrapErr m es) = (P (WrapErr m es) \<or> list_ex (errors_is P) es)"
| "errors_is P (JoinErr es) = (P (JoinErr es) \<or> list_ex (errors_is P) es)"
| "errors_is P e = P e"

text \<open>
  The targets the program asks for.  \<open>syscall.Errno\<close> has an \<open>Is\<close> method that matches the
  portable \<open>fs.Err...\<close> sentinels.
\<close>

fun is_not_exist_target :: "go_error \<Rightarrow> bool" where
  "is_not_exist_target (Sentinel FsErrNotExist) = True"
| "is_not_exist_target (Errno ENOENT) = True"
| "is_not_exist_target _ = False"

fun is_exist_target :: "go_error \<Rightarrow> bool" where
  "is_exist_target (Sentinel FsErrExist) = True"
| "is_exist_target (Errno EEXIST) = True"
| "is_exist_target (Errno ENOTEMPTY) = True"
| "is_exist_target _ = False"

fun is_permission_target :: "go_error \<Rightarrow> bool" where
  "is_permission_target (Sentinel FsErrPermission) = True"
| "is_permission_target (Errno EPERM) = True"
| "is_permission_target (Errno EACCES) = True"
| "is_permission_target _ = False"

fun is_reflink_unsupported :: "go_error \<Rightarrow> bool" where
  "is_reflink_unsupported (Sentinel (ErrReflinkUnsupported _)) = True"
| "is_reflink_unsupported _ = False"

fun is_reflink_failed :: "go_error \<Rightarrow> bool" where
  "is_reflink_failed (Sentinel (ErrReflinkFailed _)) = True"
| "is_reflink_failed _ = False"

definition errors_is_errno :: "errno \<Rightarrow> go_error \<Rightarrow> bool" where
  "errors_is_errno n = errors_is (\<lambda>e. e = Errno n)"

fun as_coded :: "go_error \<Rightarrow> (string \<times> string) option" where
  "as_coded (CodedError c m e) = Some (c, m)"
| "as_coded (PathError oper path e) = as_coded e"
| "as_coded (OpError oper addr e) = (case e of None \<Rightarrow> None | Some e' \<Rightarrow> as_coded e')"
| "as_coded (WrapErr m es) =
     foldr (\<lambda>e acc. case as_coded e of Some c \<Rightarrow> Some c | None \<Rightarrow> acc) es None"
| "as_coded (JoinErr es) =
     foldr (\<lambda>e acc. case as_coded e of Some c \<Rightarrow> Some c | None \<Rightarrow> acc) es None"
| "as_coded _ = None"

text \<open>\<open>errors.As\<close> with a \<open>*net.OpError\<close> target.\<close>

fun as_op_error :: "go_error \<Rightarrow> (string \<times> go_error option) option" where
  "as_op_error (OpError oper addr e) = Some (oper, e)"
| "as_op_error (PathError oper path e) = as_op_error e"
| "as_op_error (CodedError c m e) = (case e of None \<Rightarrow> None | Some e' \<Rightarrow> as_op_error e')"
| "as_op_error (WrapErr m es) =
     foldr (\<lambda>e acc. case as_op_error e of Some c \<Rightarrow> Some c | None \<Rightarrow> acc) es None"
| "as_op_error (JoinErr es) =
     foldr (\<lambda>e acc. case as_op_error e of Some c \<Rightarrow> Some c | None \<Rightarrow> acc) es None"
| "as_op_error _ = None"

definition underlyingError :: "go_error \<Rightarrow> go_error" where
  "underlyingError e = (case e of PathError _ _ e' \<Rightarrow> e' | _ \<Rightarrow> e)"

definition os_IsNotExist :: "go_error \<Rightarrow> bool" where
  "os_IsNotExist e = is_not_exist_target (underlyingError e)"

lemma errors_is_PathError_Errno [err_simps]:
  "errors_is_errno n (PathError oper path (Errno m)) \<longleftrightarrow> m = n"
  by (simp add: errors_is_errno_def)

lemma errors_is_Errno [err_simps]: "errors_is_errno n (Errno m) \<longleftrightarrow> m = n"
  by (simp add: errors_is_errno_def)

lemma errors_is_self: "P e \<Longrightarrow> errors_is P e"
  by (cases e) auto

lemma errors_is_mono:
  "errors_is P e \<Longrightarrow> (\<And>x. P x \<Longrightarrow> Q x) \<Longrightarrow> errors_is Q e"
  by (induction P e rule: errors_is.induct) (auto simp: list_ex_iff split: option.splits)

lemma os_IsNotExist_errors_is:
  "os_IsNotExist e \<Longrightarrow> errors_is is_not_exist_target e"
  by (cases e) (auto simp: os_IsNotExist_def underlyingError_def intro: errors_is_self)

end
