(* ===== verification/File_System.thy ===== *)
theory File_System
  imports Go_Path Go_Error
begin

section \<open>The host file system and the os calls the program makes\<close>

text \<open>
  The state a request acts on.  A node has a type, mode bits in Go's \<open>fs.FileMode\<close> layout,
  data (a file's bytes, a symbolic link's target) and a link count; the nodes are kept by the
  component list of their place in the tree.  A path is resolved as the kernel does it:
  component by component from the root, following symbolic links (at most 40 of them), with
  \<open>PATH_MAX\<close> on the path's length.  Every call first asks the fault table, an arbitrary
  function from the call and its path to an error number, so that a theorem quantifying over
  the state covers permission failures and I/O errors at any call.  One request runs at a
  time: changes by other processes between two calls are not modelled.
\<close>

type_synonym FileMode = u32
type_synonym key = "string list"

definition ModeDir :: FileMode where "ModeDir = 0x80000000"
definition ModeSymlink :: FileMode where "ModeSymlink = 0x08000000"
definition ModeIrregular :: FileMode where "ModeIrregular = 0x00080000"
definition ModeSetuid :: FileMode where "ModeSetuid = 0x00800000"
definition ModeSetgid :: FileMode where "ModeSetgid = 0x00400000"
definition ModeSticky :: FileMode where "ModeSticky = 0x00100000"
definition ModePerm :: FileMode where "ModePerm = 0x1FF"
definition ModeType :: FileMode where "ModeType = 0x8F280000"
definition ModeBits :: FileMode where "ModeBits = 0x00D001FF"

lemmas mode_defs = ModeDir_def ModeSymlink_def ModeIrregular_def ModeSetuid_def ModeSetgid_def
  ModeSticky_def ModePerm_def ModeType_def ModeBits_def

datatype ntype = TReg | TDir | TSymlink | TOther

record node =
  ntype :: ntype
  nperm :: FileMode
  ndata :: bytes
  nlink :: nat

datatype syscall =
    SysLstat string | SysStat string | SysMkdir string | SysChmod string | SysOpen string
  | SysCreate string | SysFchmod string | SysClose string | SysRemove string
  | SysReadDir string | SysWrite string | SysRename string string | SysAccess string
  | SysTruncate string

record fsys =
  nodes :: "(key \<times> node) list"
  cwd :: "go_error + string"
  umask :: FileMode
  fault :: "syscall \<Rightarrow> errno option"

definition PATH_MAX :: nat where "PATH_MAX = 4096"
definition MAXSYMLINKS :: nat where "MAXSYMLINKS = 40"

unbundle bit_operations_syntax

fun type_bits :: "ntype \<Rightarrow> FileMode" where
  "type_bits TReg = 0"
| "type_bits TDir = ModeDir"
| "type_bits TSymlink = ModeSymlink"
| "type_bits TOther = ModeIrregular"

text \<open>\<open>FileInfo.Mode()\<close> and the predicates on it.\<close>

definition Mode :: "node \<Rightarrow> FileMode" where
  "Mode n = type_bits (ntype n) OR (nperm n AND ModeBits)"

definition IsDir :: "node \<Rightarrow> bool" where
  "IsDir n \<longleftrightarrow> Mode n AND ModeDir \<noteq> 0"

definition IsRegular :: "FileMode \<Rightarrow> bool" where
  "IsRegular m \<longleftrightarrow> m AND ModeType = 0"

definition Perm :: "FileMode \<Rightarrow> FileMode" where
  "Perm m = m AND ModePerm"

definition node_at :: "fsys \<Rightarrow> key \<Rightarrow> node option" where
  "node_at w k = map_of (nodes w) k"

definition put_node :: "fsys \<Rightarrow> key \<Rightarrow> node \<Rightarrow> fsys" where
  "put_node w k n = w\<lparr>nodes := AList.update k n (nodes w)\<rparr>"

definition del_node :: "fsys \<Rightarrow> key \<Rightarrow> fsys" where
  "del_node w k = w\<lparr>nodes := AList.delete k (nodes w)\<rparr>"

definition dir_at :: "fsys \<Rightarrow> key \<Rightarrow> bool" where
  "dir_at w k \<longleftrightarrow> (case node_at w k of None \<Rightarrow> False | Some n \<Rightarrow> ntype n = TDir)"

definition child_names :: "fsys \<Rightarrow> key \<Rightarrow> string list" where
  "child_names w k =
     sort (remdups (map last (filter (\<lambda>q. q \<noteq> [] \<and> butlast q = k) (map fst (nodes w)))))"

subsection \<open>Path resolution\<close>

text \<open>
  \<open>namei w b cur cs follow\<close>: walk the components \<open>cs\<close> from the directory \<open>cur\<close> with \<open>b\<close>
  symbolic links left.  The last component may be missing, and is followed when it is a link
  only if \<open>follow\<close> is set.  The result carries the links left.
\<close>

function namei :: "fsys \<Rightarrow> nat \<Rightarrow> key \<Rightarrow> string list \<Rightarrow> bool \<Rightarrow> errno + (key \<times> nat)" where
  "namei w b cur [] follow = Inr (cur, b)"
| "namei w b cur (c # cs) follow =
     (case node_at w cur of
        None \<Rightarrow> Inl ENOENT
      | Some d \<Rightarrow>
          if ntype d \<noteq> TDir then Inl ENOTDIR
          else if c = [] \<or> c = ''.'' then namei w b cur cs follow
          else if c = ''..'' then namei w b (butlast cur) cs follow
          else (case node_at w (cur @ [c]) of
                  None \<Rightarrow> if cs = [] then Inr (cur @ [c], b) else Inl ENOENT
                | Some n \<Rightarrow>
                    if ntype n = TSymlink \<and> (cs \<noteq> [] \<or> follow) then
                      (if b = 0 then Inl ELOOP
                       else namei w (b - 1) (if IsAbs (ndata n) then [] else cur)
                              (path_comps (ndata n) @ cs) follow)
                    else namei w b (cur @ [c]) cs follow))"
  by pat_completeness auto
termination
  by (relation "measures [\<lambda>(w, b, cur, cs, f). b, \<lambda>(w, b, cur, cs, f). length cs]") auto

definition resolve :: "fsys \<Rightarrow> string \<Rightarrow> bool \<Rightarrow> errno + key" where
  "resolve w p follow =
     (if p = [] then Inl ENOENT
      else if PATH_MAX \<le> length p then Inl ENAMETOOLONG
      else
        let start = (if IsAbs p then Inr [] else
              (case cwd w of Inl e \<Rightarrow> Inl ENOENT | Inr d \<Rightarrow> Inr (path_comps d)))
        in case start of
             Inl e \<Rightarrow> Inl e
           | Inr pre \<Rightarrow>
               (case namei w MAXSYMLINKS [] (pre @ path_comps p) follow of
                  Inl e \<Rightarrow> Inl e
                | Inr (k, b) \<Rightarrow> Inr k))"

subsection \<open>The calls\<close>

definition path_error :: "string \<Rightarrow> string \<Rightarrow> errno \<Rightarrow> go_error" where
  "path_error oper p e = PathError oper p (Errno e)"

definition find_node :: "fsys \<Rightarrow> string \<Rightarrow> bool \<Rightarrow> errno + (key \<times> node)" where
  "find_node w p follow =
     (case resolve w p follow of
        Inl e \<Rightarrow> Inl e
      | Inr k \<Rightarrow> (case node_at w k of None \<Rightarrow> Inl ENOENT | Some n \<Rightarrow> Inr (k, n)))"

definition guarded :: "fsys \<Rightarrow> syscall \<Rightarrow> errno + 'a \<Rightarrow> errno + 'a" where
  "guarded w call r = (case fault w call of Some e \<Rightarrow> Inl e | None \<Rightarrow> r)"

definition os_Lstat :: "fsys \<Rightarrow> string \<Rightarrow> go_error + node" where
  "os_Lstat w p =
     (case guarded w (SysLstat p) (find_node w p False) of
        Inl e \<Rightarrow> Inl (path_error ''lstat'' p e)
      | Inr (k, n) \<Rightarrow> Inr n)"

definition os_Stat :: "fsys \<Rightarrow> string \<Rightarrow> go_error + node" where
  "os_Stat w p =
     (case guarded w (SysStat p) (find_node w p True) of
        Inl e \<Rightarrow> Inl (path_error ''stat'' p e)
      | Inr (k, n) \<Rightarrow> Inr n)"

text \<open>A new node takes the mode less the umask; a directory inherits its parent's setgid bit.\<close>

definition new_file :: "fsys \<Rightarrow> FileMode \<Rightarrow> node" where
  "new_file w mode = \<lparr>ntype = TReg, nperm = mode AND ModePerm AND NOT (umask w),
     ndata = [], nlink = 1\<rparr>"

definition new_dir :: "fsys \<Rightarrow> key \<Rightarrow> FileMode \<Rightarrow> node" where
  "new_dir w k mode = \<lparr>ntype = TDir,
     nperm = (mode AND ModePerm AND NOT (umask w)) OR
       (case node_at w (butlast k) of None \<Rightarrow> 0 | Some d \<Rightarrow> nperm d AND ModeSetgid),
     ndata = [], nlink = 2\<rparr>"

text \<open>Where an exclusive creation would put its node: the place must be free.\<close>

definition free_place :: "fsys \<Rightarrow> string \<Rightarrow> errno + key" where
  "free_place w p =
     (case resolve w p False of
        Inl e \<Rightarrow> Inl e
      | Inr k \<Rightarrow> if node_at w k \<noteq> None then Inl EEXIST else Inr k)"

definition os_Mkdir :: "fsys \<Rightarrow> string \<Rightarrow> FileMode \<Rightarrow> fsys \<times> go_error option" where
  "os_Mkdir w p mode =
     (case guarded w (SysMkdir p) (free_place w p) of
        Inl e \<Rightarrow> (w, Some (path_error ''mkdir'' p e))
      | Inr k \<Rightarrow> (put_node w k (new_dir w k mode), None))"

definition os_Chmod :: "fsys \<Rightarrow> string \<Rightarrow> FileMode \<Rightarrow> fsys \<times> go_error option" where
  "os_Chmod w p mode =
     (case guarded w (SysChmod p) (find_node w p True) of
        Inl e \<Rightarrow> (w, Some (path_error ''chmod'' p e))
      | Inr (k, n) \<Rightarrow> (put_node w k (n\<lparr>nperm := mode AND ModeBits\<rparr>), None))"

text \<open>An open file is the place of its node.\<close>

definition os_Open :: "fsys \<Rightarrow> string \<Rightarrow> go_error + key" where
  "os_Open w p =
     (case guarded w (SysOpen p) (find_node w p True) of
        Inl e \<Rightarrow> Inl (path_error ''open'' p e)
      | Inr (k, n) \<Rightarrow> Inr k)"

text \<open>\<open>os.OpenFile\<close> with \<open>O_CREATE|O_EXCL|O_WRONLY\<close>.\<close>

definition os_CreateExcl :: "fsys \<Rightarrow> string \<Rightarrow> FileMode \<Rightarrow> fsys \<times> (go_error + key)" where
  "os_CreateExcl w p mode =
     (case guarded w (SysCreate p) (free_place w p) of
        Inl e \<Rightarrow> (w, Inl (path_error ''open'' p e))
      | Inr k \<Rightarrow> (put_node w k (new_file w mode), Inr k))"

definition file_Chmod :: "fsys \<Rightarrow> string \<Rightarrow> key \<Rightarrow> FileMode \<Rightarrow> fsys \<times> go_error option" where
  "file_Chmod w p k mode =
     (case (case fault w (SysFchmod p) of
              Some e \<Rightarrow> Inl e
            | None \<Rightarrow> (case node_at w k of None \<Rightarrow> Inl EBADF | Some n \<Rightarrow> Inr n)) of
        Inl e \<Rightarrow> (w, Some (path_error ''chmod'' p e))
      | Inr n \<Rightarrow> (put_node w k (n\<lparr>nperm := mode AND ModeBits\<rparr>), None))"

definition file_Close :: "fsys \<Rightarrow> string \<Rightarrow> go_error option" where
  "file_Close w p = map_option (path_error ''close'' p) (fault w (SysClose p))"

definition os_Remove :: "fsys \<Rightarrow> string \<Rightarrow> fsys \<times> go_error option" where
  "os_Remove w p =
     (case guarded w (SysRemove p) (find_node w p False) of
        Inl e \<Rightarrow> (w, Some (path_error ''remove'' p e))
      | Inr (k, n) \<Rightarrow>
          if ntype n = TDir \<and> child_names w k \<noteq> []
          then (w, Some (path_error ''remove'' p ENOTEMPTY))
          else (del_node w k, None))"

definition os_ReadDir :: "fsys \<Rightarrow> string \<Rightarrow> go_error + (string \<times> node) list" where
  "os_ReadDir w p =
     (case guarded w (SysReadDir p) (find_node w p True) of
        Inl e \<Rightarrow> Inl (path_error ''open'' p e)
      | Inr (k, n) \<Rightarrow>
          if ntype n \<noteq> TDir then Inl (path_error ''readdirent'' p ENOTDIR)
          else Inr (map (\<lambda>c. (c, the (node_at w (k @ [c])))) (child_names w k)))"

subsection \<open>Reading modes\<close>

lemma Mode_and:
  "Mode n AND m = (type_bits (ntype n) AND m) OR (nperm n AND (ModeBits AND m))"
  by (simp add: Mode_def bit.conj_disj_distrib2 and.assoc)

lemma ModeBits_and:
  "ModeBits AND ModeDir = 0" "ModeBits AND ModeSymlink = 0" "ModeBits AND ModeType = 0"
  "ModeBits AND ModePerm = ModePerm" "ModeBits AND ModeBits = ModeBits"
  by (simp_all add: mode_defs)

lemma type_bits_and:
  "type_bits t AND ModePerm = 0" "type_bits t AND ModeBits = 0"
  "type_bits t AND ModeDir = (if t = TDir then ModeDir else 0)"
  "type_bits t AND ModeSymlink = (if t = TSymlink then ModeSymlink else 0)"
  "type_bits t AND ModeType = type_bits t"
  by (cases t; simp add: mode_defs)+

lemma Mode_symlink [simp]: "Mode n AND ModeSymlink \<noteq> 0 \<longleftrightarrow> ntype n = TSymlink"
  by (simp add: Mode_and ModeBits_and type_bits_and) (simp add: mode_defs)

lemma Mode_dir [simp]: "IsDir n \<longleftrightarrow> ntype n = TDir"
  by (simp add: IsDir_def Mode_and ModeBits_and type_bits_and) (simp add: mode_defs)

lemma Mode_regular [simp]: "IsRegular (Mode n) \<longleftrightarrow> ntype n = TReg"
  by (cases "ntype n")
    (simp_all add: IsRegular_def Mode_and ModeBits_and type_bits_and, simp_all add: mode_defs)

lemma Mode_perm [simp]: "Perm (Mode n) = nperm n AND ModePerm"
  by (simp add: Perm_def Mode_and ModeBits_and type_bits_and)

lemma Mode_bits [simp]: "Mode n AND ModeBits = nperm n AND ModeBits"
  by (simp add: Mode_and ModeBits_and type_bits_and)

lemma Perm_Perm [simp]: "Perm (Perm m) = Perm m"
  by (simp add: Perm_def and.assoc)

lemma Perm_ModePerm [simp]: "Perm (m AND ModePerm) = m AND ModePerm"
  by (simp add: Perm_def and.assoc)

subsection \<open>Lookups after updates\<close>

lemma node_at_put [fs_simps]:
  "node_at (put_node w k n) q = (if q = k then Some n else node_at w q)"
  by (simp add: node_at_def put_node_def AList.update_conv' fun_upd_def)

lemma node_at_del [fs_simps]:
  "node_at (del_node w k) q = (if q = k then None else node_at w q)"
  by (simp add: node_at_def del_node_def delete_conv' fun_upd_def)

lemma env_put [fs_simps]:
  "cwd (put_node w k n) = cwd w" "umask (put_node w k n) = umask w"
  "fault (put_node w k n) = fault w"
  by (simp_all add: put_node_def)

lemma env_del [fs_simps]:
  "cwd (del_node w k) = cwd w" "umask (del_node w k) = umask w" "fault (del_node w k) = fault w"
  by (simp_all add: del_node_def)

lemma child_names_set [simp]: "set (child_names w k) = {c. node_at w (k @ [c]) \<noteq> None}"
proof -
  have "c \<in> set (child_names w k) \<longleftrightarrow> k @ [c] \<in> fst ` set (nodes w)" for c
    by (force simp: child_names_def intro: rev_image_eqI
        dest!: append_butlast_last_id [symmetric])
  then show ?thesis by (auto simp: node_at_def map_of_eq_None_iff)
qed

lemma child_names_distinct [simp]: "distinct (child_names w k)"
  by (simp add: child_names_def)

lemma child_names_sorted: "sorted (child_names w k)"
  by (simp add: child_names_def)

subsection \<open>Resolution of a longer path\<close>

text \<open>The four outcomes of one component that names a directory entry.\<close>

lemma namei_dots:
  "dir_at w cur \<Longrightarrow> c = [] \<or> c = ''.'' \<Longrightarrow> namei w b cur (c # cs) f = namei w b cur cs f"
  "dir_at w cur \<Longrightarrow> namei w b cur (''..'' # cs) f = namei w b (butlast cur) cs f"
  by (auto simp: dir_at_def split: option.splits)

lemma namei_not_dir:
  "\<not> dir_at w cur \<Longrightarrow>
   namei w b cur (c # cs) f = Inl (if node_at w cur = None then ENOENT else ENOTDIR)"
  by (auto simp: dir_at_def split: option.splits)

lemma namei_missing:
  "dir_at w cur \<Longrightarrow> c \<notin> {[], ''.'', ''..''} \<Longrightarrow> node_at w (cur @ [c]) = None \<Longrightarrow>
   namei w b cur (c # cs) f = (if cs = [] then Inr (cur @ [c], b) else Inl ENOENT)"
  by (auto simp: dir_at_def dest: plain_compD split: option.splits)

lemma namei_link:
  "dir_at w cur \<Longrightarrow> c \<notin> {[], ''.'', ''..''} \<Longrightarrow> node_at w (cur @ [c]) = Some n \<Longrightarrow>
   ntype n = TSymlink \<Longrightarrow> cs \<noteq> [] \<or> f \<Longrightarrow>
   namei w b cur (c # cs) f =
     (if b = 0 then Inl ELOOP
      else namei w (b - 1) (if IsAbs (ndata n) then [] else cur) (path_comps (ndata n) @ cs) f)"
  by (auto simp: dir_at_def split: option.splits)

lemma namei_enter:
  "dir_at w cur \<Longrightarrow> c \<notin> {[], ''.'', ''..''} \<Longrightarrow> node_at w (cur @ [c]) = Some n \<Longrightarrow>
   ntype n \<noteq> TSymlink \<or> cs = [] \<and> \<not> f \<Longrightarrow>
   namei w b cur (c # cs) f = namei w b (cur @ [c]) cs f"
  by (auto simp: dir_at_def split: option.splits)

declare namei.simps(2) [simp del]

text \<open>An induction rule that follows those outcomes.\<close>

lemma namei_cases_induct [consumes 0, case_names nil nodir dots up missing link enter]:
  fixes w :: fsys and P :: "nat \<Rightarrow> key \<Rightarrow> string list \<Rightarrow> bool \<Rightarrow> bool"
  assumes nil: "\<And>b cur f. P b cur [] f"
    and nodir: "\<And>b cur c cs f. \<not> dir_at w cur \<Longrightarrow> P b cur (c # cs) f"
    and dots: "\<And>b cur c cs f. dir_at w cur \<Longrightarrow> c = [] \<or> c = ''.'' \<Longrightarrow> P b cur cs f \<Longrightarrow>
      P b cur (c # cs) f"
    and up: "\<And>b cur cs f. dir_at w cur \<Longrightarrow> P b (butlast cur) cs f \<Longrightarrow> P b cur (''..'' # cs) f"
    and missing: "\<And>b cur c cs f. dir_at w cur \<Longrightarrow> c \<notin> {[], ''.'', ''..''} \<Longrightarrow>
      node_at w (cur @ [c]) = None \<Longrightarrow> P b cur (c # cs) f"
    and link: "\<And>b cur c cs f n. dir_at w cur \<Longrightarrow> c \<notin> {[], ''.'', ''..''} \<Longrightarrow>
      node_at w (cur @ [c]) = Some n \<Longrightarrow> ntype n = TSymlink \<Longrightarrow> cs \<noteq> [] \<or> f \<Longrightarrow>
      (b \<noteq> 0 \<Longrightarrow> P (b - 1) (if IsAbs (ndata n) then [] else cur) (path_comps (ndata n) @ cs) f) \<Longrightarrow>
      P b cur (c # cs) f"
    and enter: "\<And>b cur c cs f n. dir_at w cur \<Longrightarrow> c \<notin> {[], ''.'', ''..''} \<Longrightarrow>
      node_at w (cur @ [c]) = Some n \<Longrightarrow> ntype n \<noteq> TSymlink \<or> cs = [] \<and> \<not> f \<Longrightarrow>
      P b (cur @ [c]) cs f \<Longrightarrow> P b cur (c # cs) f"
  shows "P b cur cs f"
proof -
  have "w' = w \<Longrightarrow> P b cur cs f" for w'
  proof (induction w' b cur cs f rule: namei.induct)
    case (1 w' b cur f)
    show ?case by (rule nil)
  next
    case (2 w' b cur c cs f)
    note IH = "2.IH" [unfolded "2.prems"]
    show ?case
    proof (cases "dir_at w cur")
      case False
      then show ?thesis by (rule nodir)
    next
      case True
      then obtain d where d: "node_at w cur = Some d" "\<not> ntype d \<noteq> TDir"
        by (auto simp: dir_at_def split: option.splits)
      consider "c = [] \<or> c = ''.''" | "c = ''..''" | (name) "c \<notin> {[], ''.'', ''..''}" by blast
      then show ?thesis
      proof cases
        case 1
        with True IH(1) [OF d] show ?thesis by (intro dots) auto
      next
        case 2
        have "P b (butlast cur) cs f" using 2 by (intro IH(2) [OF d]) auto
        with True 2 show ?thesis by (simp add: up)
      next
        case name
        then have c: "\<not> (c = [] \<or> c = ''.'')" "c \<noteq> ''..''" by auto
        show ?thesis
        proof (cases "node_at w (cur @ [c])")
          case None
          with True name show ?thesis by (rule missing)
        next
          case (Some n)
          show ?thesis
          proof (cases "ntype n = TSymlink \<and> (cs \<noteq> [] \<or> f)")
            case l: True
            show ?thesis
              using l True name Some IH(3) [OF d c Some l] by (intro link [of cur c n]) auto
          next
            case l: False
            show ?thesis
              using l True name Some IH(4) [OF d c Some l] by (intro enter [of cur c n]) auto
          qed
        qed
      qed
    qed
  qed
  then show ?thesis by simp
qed

lemma namei_append:
  "ys \<noteq> [] \<Longrightarrow> namei w b cur (xs @ ys) f =
     (case namei w b cur xs True of
        Inl e \<Rightarrow> Inl e
      | Inr (k, b') \<Rightarrow> namei w b' k ys f)"
proof (induction b cur xs "True" rule: namei_cases_induct [where w = w])
  case (missing b cur c cs)
  have "\<not> dir_at w (cur @ [c])" using missing by (simp add: dir_at_def)
  with missing show ?case
    by (cases ys) (auto simp: namei_missing namei_not_dir)
next
  case (link b cur c cs n)
  then show ?case by (auto simp: namei_link)
next
  case (enter b cur c cs n)
  then show ?case by (auto simp: namei_enter)
qed (auto simp: namei_not_dir namei_dots)

subsection \<open>Growing file systems\<close>

text \<open>
  \<open>fs_ext w w'\<close>: the directories and symbolic links of \<open>w\<close> are still there in \<open>w'\<close>, with
  the same targets.  Paths that lead to a directory keep leading to it.
\<close>

definition fs_ext :: "fsys \<Rightarrow> fsys \<Rightarrow> bool" where
  "fs_ext w w' \<longleftrightarrow>
     (\<forall>q n. node_at w q = Some n \<and> (ntype n = TDir \<or> ntype n = TSymlink) \<longrightarrow>
        (\<exists>n'. node_at w' q = Some n' \<and> ntype n' = ntype n \<and> ndata n' = ndata n))"

definition same_env :: "fsys \<Rightarrow> fsys \<Rightarrow> bool" where
  "same_env w w' \<longleftrightarrow> cwd w' = cwd w \<and> umask w' = umask w \<and> fault w' = fault w"

lemma fs_ext_refl [simp]: "fs_ext w w"
  by (simp add: fs_ext_def)

lemma fs_ext_trans [trans]: "fs_ext w w' \<Longrightarrow> fs_ext w' w'' \<Longrightarrow> fs_ext w w''"
  unfolding fs_ext_def by metis

lemma same_env_refl [simp]: "same_env w w"
  by (simp add: same_env_def)

lemma same_env_trans [trans]: "same_env w w' \<Longrightarrow> same_env w' w'' \<Longrightarrow> same_env w w''"
  by (simp add: same_env_def)

lemma same_env_put [simp]: "same_env w (put_node w k n)" "same_env w (del_node w k)"
  by (simp_all add: same_env_def fs_simps)

lemma fs_ext_put:
  "(\<And>m. node_at w k = Some m \<Longrightarrow> ntype n = ntype m \<and> ndata n = ndata m \<or>
      ntype m \<notin> {TDir, TSymlink}) \<Longrightarrow> fs_ext w (put_node w k n)"
  by (auto simp: fs_ext_def fs_simps)

lemma fs_ext_dir: "fs_ext w w' \<Longrightarrow> dir_at w k \<Longrightarrow> dir_at w' k"
  unfolding fs_ext_def dir_at_def by (auto split: option.splits) force

lemma namei_ext:
  "fs_ext w w' \<Longrightarrow> namei w b cur cs f = Inr (k, b') \<Longrightarrow> dir_at w k \<Longrightarrow>
   namei w' b cur cs f = Inr (k, b')"
proof (induction b cur cs f rule: namei_cases_induct [where w = w])
  case (nil b cur f)
  then show ?case by simp
next
  case (nodir b cur c cs f)
  then show ?case by (simp add: namei_not_dir)
next
  case (dots b cur c cs f)
  then show ?case by (simp add: namei_dots fs_ext_dir)
next
  case (up b cur cs f)
  then show ?case by (simp add: namei_dots fs_ext_dir)
next
  case (missing b cur c cs f)
  then have "k = cur @ [c]" by (auto simp: namei_missing split: if_splits)
  with missing show ?case by (simp add: dir_at_def)
next
  case (link b cur c cs f n)
  from link(3,4) \<open>fs_ext w w'\<close> obtain n'
    where "node_at w' (cur @ [c]) = Some n'" "ntype n' = TSymlink" "ndata n' = ndata n"
    by (force simp: fs_ext_def)
  with link show ?case by (auto simp: namei_link fs_ext_dir split: if_splits)
next
  case (enter b cur c cs f n)
  have next_ok: "namei w b (cur @ [c]) cs f = Inr (k, b')"
    using enter by (simp add: namei_enter)
  have d: "dir_at w (cur @ [c])"
  proof (rule ccontr)
    assume nd: "\<not> dir_at w (cur @ [c])"
    with next_ok enter.prems(3) show False
      by (cases cs) (auto simp: namei_not_dir)
  qed
  with fs_ext_dir [OF enter.prems(1)] have "dir_at w' (cur @ [c])" by blast
  then obtain n' where "node_at w' (cur @ [c]) = Some n'" "ntype n' \<noteq> TSymlink"
    by (auto simp: dir_at_def split: option.splits)
  with enter next_ok show ?case by (simp add: namei_enter fs_ext_dir)
qed

subsection \<open>Paths that denote a place\<close>

text \<open>
  \<open>leads w p k\<close>: the clean absolute path \<open>p\<close>, its last link followed, is the place \<open>k\<close>.
  \<open>at w p k\<close>: it is the place \<open>k\<close> whether or not the last link is followed.
\<close>

definition leads :: "fsys \<Rightarrow> string \<Rightarrow> key \<Rightarrow> bool" where
  "leads w p k \<longleftrightarrow> (\<exists>cs b. plain_comps cs \<and> p = render True cs \<and> length p < PATH_MAX \<and>
     namei w MAXSYMLINKS [] cs True = Inr (k, b))"

definition at :: "fsys \<Rightarrow> string \<Rightarrow> key \<Rightarrow> bool" where
  "at w p k \<longleftrightarrow> (\<exists>cs b. plain_comps cs \<and> p = render True cs \<and> length p < PATH_MAX \<and>
     (\<forall>f. namei w MAXSYMLINKS [] cs f = Inr (k, b)))"

lemma at_leads: "at w p k \<Longrightarrow> leads w p k"
  by (auto simp: at_def leads_def)

lemma resolve_render:
  "plain_comps cs \<Longrightarrow> resolve w (render True cs) f =
     (if PATH_MAX \<le> length (render True cs) then Inl ENAMETOOLONG
      else case namei w MAXSYMLINKS [] cs f of Inl e \<Rightarrow> Inl e | Inr (k, b) \<Rightarrow> Inr k)"
  by (simp add: resolve_def)

lemma at_resolve: "at w p k \<Longrightarrow> resolve w p f = Inr k"
  by (auto simp: at_def resolve_render)

lemma leads_resolve: "leads w p k \<Longrightarrow> resolve w p True = Inr k"
  by (auto simp: leads_def resolve_render)

lemma at_check:
  assumes "plain_comps cs" "length (render True cs) < PATH_MAX"
    and "namei w MAXSYMLINKS [] cs True = Inr (k, b)" "namei w MAXSYMLINKS [] cs False = Inr (k, b)"
  shows "at w (render True cs) k"
  unfolding at_def
proof (intro exI conjI allI)
  fix f show "namei w MAXSYMLINKS [] cs f = Inr (k, b)" using assms(3,4) by (cases f) simp_all
qed (use assms in simp_all)

lemma at_ext: "at w p k \<Longrightarrow> dir_at w k \<Longrightarrow> fs_ext w w' \<Longrightarrow> at w' p k"
  unfolding at_def by (blast intro: namei_ext)

lemma leads_ext: "leads w p k \<Longrightarrow> dir_at w k \<Longrightarrow> fs_ext w w' \<Longrightarrow> leads w' p k"
  unfolding leads_def by (blast intro: namei_ext)

lemma namei_leaf:
  "plain_comp c \<Longrightarrow> namei w b k [c] f = Inr (k', b') \<Longrightarrow> f = False \<or>
     (\<forall>n. node_at w (k @ [c]) = Some n \<longrightarrow> ntype n \<noteq> TSymlink) \<Longrightarrow>
   k' = k @ [c] \<and> b' = b \<and> dir_at w k"
proof -
  assume a: "plain_comp c" "namei w b k [c] f = Inr (k', b')"
    "f = False \<or> (\<forall>n. node_at w (k @ [c]) = Some n \<longrightarrow> ntype n \<noteq> TSymlink)"
  then have d: "dir_at w k" by (rule_tac ccontr) (simp add: namei_not_dir)
  have c: "c \<notin> {[], ''.'', ''..''}" using a(1) by (auto dest: plain_compD)
  show ?thesis
  proof (cases "node_at w (k @ [c])")
    case None
    with a d c show ?thesis by (simp add: namei_missing)
  next
    case (Some n)
    with a d c show ?thesis by (auto simp: namei_enter)
  qed
qed

lemma namei_leaf_intro:
  "plain_comp c \<Longrightarrow> dir_at w k \<Longrightarrow>
   f = False \<or> (\<forall>n. node_at w (k @ [c]) = Some n \<longrightarrow> ntype n \<noteq> TSymlink) \<Longrightarrow>
   namei w b k [c] f = Inr (k @ [c], b)"
proof -
  assume a: "plain_comp c" "dir_at w k"
    "f = False \<or> (\<forall>n. node_at w (k @ [c]) = Some n \<longrightarrow> ntype n \<noteq> TSymlink)"
  have c: "c \<notin> {[], ''.'', ''..''}" using a(1) by (auto dest: plain_compD)
  show ?thesis
    by (cases "node_at w (k @ [c])") (use a c in \<open>auto simp: namei_missing namei_enter\<close>)
qed

lemma at_child:
  assumes "leads w p k" "plain_comp c" "dir_at w k" "length (Join [p, c]) < PATH_MAX"
    and "\<And>n. node_at w (k @ [c]) = Some n \<Longrightarrow> ntype n \<noteq> TSymlink"
  shows "at w (Join [p, c]) (k @ [c])"
proof -
  from assms(1) obtain cs b where p: "plain_comps cs" "p = render True cs"
    and n: "namei w MAXSYMLINKS [] cs True = Inr (k, b)" by (auto simp: leads_def)
  have "namei w MAXSYMLINKS [] (cs @ [c]) f = Inr (k @ [c], b)" for f
    using n assms by (simp add: namei_append namei_leaf_intro)
  moreover have "Join [p, c] = render True (cs @ [c])"
    using p assms(2) by (simp add: Join_name)
  moreover have "plain_comps (cs @ [c])" using p(1) assms(2) by simp
  ultimately show ?thesis
    unfolding at_def using assms(4) by (intro exI [of _ "cs @ [c]"] exI [of _ b]) simp
qed

lemma resolve_child:
  assumes "leads w p k" "plain_comp c" "resolve w (Join [p, c]) False = Inr k'"
  shows "k' = k @ [c]" "dir_at w k" "length (Join [p, c]) < PATH_MAX"
proof -
  from assms(1) obtain cs b where p: "plain_comps cs" "p = render True cs"
    and n: "namei w MAXSYMLINKS [] cs True = Inr (k, b)" by (auto simp: leads_def)
  have j: "Join [p, c] = render True (cs @ [c])" "plain_comps (cs @ [c])"
    using p assms(2) by (simp_all add: Join_name)
  from assms(3) obtain b' where "length (Join [p, c]) < PATH_MAX" "namei w b k [c] False = Inr (k', b')"
    unfolding j(1) resolve_render [OF j(2)]
    by (auto simp: namei_append n split: if_splits sum.splits)
  with namei_leaf [OF assms(2) this(2)]
  show "k' = k @ [c]" "dir_at w k" "length (Join [p, c]) < PATH_MAX" by simp_all
qed

lemma find_child:
  assumes "leads w p k" "plain_comp c" "dir_at w k"
  shows "find_node w (Join [p, c]) False =
    (if PATH_MAX \<le> length (Join [p, c]) then Inl ENAMETOOLONG
     else case node_at w (k @ [c]) of None \<Rightarrow> Inl ENOENT | Some n \<Rightarrow> Inr (k @ [c], n))"
proof -
  from assms(1) obtain cs b where p: "plain_comps cs" "p = render True cs"
    and n: "namei w MAXSYMLINKS [] cs True = Inr (k, b)" by (auto simp: leads_def)
  have j: "Join [p, c] = render True (cs @ [c])" "plain_comps (cs @ [c])"
    using p assms(2) by (simp_all add: Join_name)
  have "namei w MAXSYMLINKS [] (cs @ [c]) False = Inr (k @ [c], b)"
    using n assms by (simp add: namei_append namei_leaf_intro)
  then show ?thesis
    unfolding find_node_def j(1) resolve_render [OF j(2)] by (auto split: option.splits)
qed

subsection \<open>Well-formed states\<close>

text \<open>
  The root is a directory, every other node sits in a directory under a plain name, the fault
  table never makes \<open>lstat\<close> report a missing file (absence is read off the state), and
  \<open>os.Getwd\<close> returns an absolute path if it returns one.
\<close>

definition wf_fs :: "fsys \<Rightarrow> bool" where
  "wf_fs w \<longleftrightarrow> dir_at w [] \<and>
     (\<forall>k c. node_at w (k @ [c]) \<noteq> None \<longrightarrow> plain_comp c \<and> dir_at w k) \<and>
     (\<forall>p. fault w (SysLstat p) \<noteq> Some ENOENT) \<and>
     (case cwd w of Inl e \<Rightarrow> True | Inr d \<Rightarrow> IsAbs d)"

lemma dir_at_node: "dir_at w k \<Longrightarrow> node_at w k \<noteq> None"
  by (auto simp: dir_at_def split: option.splits)

lemma wf_fs_prefix:
  "wf_fs w \<Longrightarrow> node_at w (k @ xs) \<noteq> None \<Longrightarrow> xs \<noteq> [] \<Longrightarrow> dir_at w k"
proof (induction xs rule: rev_induct)
  case Nil
  then show ?case by simp
next
  case (snoc x xs)
  then have "dir_at w (k @ xs)" by (auto simp: wf_fs_def simp flip: append_assoc)
  with snoc show ?case by (cases "xs = []") (auto dest: dir_at_node)
qed

lemma wf_fs_none:
  "wf_fs w \<Longrightarrow> node_at w k = None \<Longrightarrow> node_at w (k @ xs) = None"
  using wf_fs_prefix [of w k xs] dir_at_node [of w k] by (cases "xs = []") fastforce+

lemma wf_fs_child: "wf_fs w \<Longrightarrow> node_at w (k @ [c]) = Some n \<Longrightarrow> plain_comp c \<and> dir_at w k"
  by (auto simp: wf_fs_def)

lemma wf_fs_plain: "wf_fs w \<Longrightarrow> node_at w (k @ [c]) = Some n \<Longrightarrow> plain_comp c"
  by (simp add: wf_fs_child)

lemma wf_fs_plain_below: "wf_fs w \<Longrightarrow> node_at w (k @ y) \<noteq> None \<Longrightarrow> plain_comps y"
proof (induction y rule: rev_induct)
  case (snoc c y)
  then have "plain_comp c \<and> dir_at w (k @ y)"
    using wf_fs_child [of w "k @ y" c] by auto
  with snoc show ?case by (auto dest: dir_at_node)
qed simp

lemma dir_at_put [fs_simps]:
  "dir_at (put_node w k n) q = (if q = k then ntype n = TDir else dir_at w q)"
  by (simp add: dir_at_def fs_simps)

lemma wf_fs_root: "wf_fs w \<Longrightarrow> dir_at w []"
  by (simp add: wf_fs_def)

lemma wf_fs_put:
  assumes "wf_fs w"
    and "\<And>q c. k = q @ [c] \<Longrightarrow> plain_comp c \<and> dir_at w q"
    and "ntype n = TDir \<or> \<not> dir_at w k"
  shows "wf_fs (put_node w k n)"
proof -
  have "plain_comp c \<and> dir_at (put_node w k n) q"
    if "node_at (put_node w k n) (q @ [c]) \<noteq> None" for q c
  proof -
    have *: "plain_comp c \<and> dir_at w q"
    proof (cases "q @ [c] = k")
      case True
      then show ?thesis using assms(2) [of q c] by simp
    next
      case False
      with that assms(1) show ?thesis by (auto simp: fs_simps dest: wf_fs_child)
    qed
    with assms(3) show ?thesis by (auto simp: fs_simps)
  qed
  moreover have "dir_at (put_node w k n) []"
    using assms by (auto simp: fs_simps dest: wf_fs_root)
  moreover have "fault (put_node w k n) (SysLstat p) \<noteq> Some ENOENT" for p
    using assms(1) by (simp add: wf_fs_def fs_simps)
  moreover have "case cwd (put_node w k n) of Inl e \<Rightarrow> True | Inr d \<Rightarrow> IsAbs d"
    using assms(1) by (simp add: wf_fs_def fs_simps)
  ultimately show ?thesis unfolding wf_fs_def [of "put_node w k n"] by blast
qed

lemma wf_fs_put_new:
  "wf_fs w \<Longrightarrow> dir_at w k \<Longrightarrow> plain_comp c \<Longrightarrow> node_at w (k @ [c]) = None \<Longrightarrow>
   wf_fs (put_node w (k @ [c]) n)"
  by (rule wf_fs_put) (auto dest: dir_at_node)

lemma wf_fs_put_old:
  "wf_fs w \<Longrightarrow> node_at w k = Some m \<Longrightarrow> ntype n = ntype m \<Longrightarrow> wf_fs (put_node w k n)"
  by (rule wf_fs_put) (auto simp: dir_at_def dest: wf_fs_child)

subsection \<open>What the calls do at a known place\<close>

lemma Lstat_Inr:
  "os_Lstat w p = Inr n \<Longrightarrow> \<exists>k. resolve w p False = Inr k \<and> node_at w k = Some n"
  by (auto simp: os_Lstat_def guarded_def find_node_def split: sum.splits option.splits prod.splits)

lemma Lstat_at: "os_Lstat w p = Inr n \<Longrightarrow> at w p k \<Longrightarrow> node_at w k = Some n"
  by (drule Lstat_Inr) (auto simp: at_resolve)

lemma Lstat_child:
  assumes "os_Lstat w (Join [p, c]) = Inr n" "leads w p k" "plain_comp c"
  shows "node_at w (k @ [c]) = Some n" "dir_at w k" "length (Join [p, c]) < PATH_MAX"
    "ntype n \<noteq> TSymlink \<Longrightarrow> at w (Join [p, c]) (k @ [c])"
proof -
  from Lstat_Inr [OF assms(1)] obtain k'
    where k': "resolve w (Join [p, c]) False = Inr k'" "node_at w k' = Some n" by blast
  note r = resolve_child [OF assms(2,3) k'(1)]
  with k'(2) show n: "node_at w (k @ [c]) = Some n" and "dir_at w k"
    and "length (Join [p, c]) < PATH_MAX" by simp_all
  with assms show "ntype n \<noteq> TSymlink \<Longrightarrow> at w (Join [p, c]) (k @ [c])"
    by (intro at_child) auto
qed

lemma namei_nofollow_nonlink:
  "namei w b cur cs False = Inr (k, b') \<Longrightarrow>
   (\<And>n. node_at w k = Some n \<Longrightarrow> ntype n \<noteq> TSymlink) \<Longrightarrow> namei w b cur cs f = Inr (k, b')"
proof (induction b cur cs "False" rule: namei_cases_induct [where w = w])
  case (enter b cur c cs n)
  show ?case
  proof (cases "ntype n = TSymlink")
    case True
    with enter have "cs = []" by simp
    with enter True show ?thesis by (auto simp: namei_enter)
  next
    case False
    with enter show ?thesis by (simp add: namei_enter)
  qed
qed (auto simp: namei_not_dir namei_dots namei_missing namei_link split: if_splits)

lemma Lstat_render:
  assumes "os_Lstat w (render True cs) = Inr n" "plain_comps cs" "ntype n \<noteq> TSymlink"
  shows "\<exists>k. at w (render True cs) k \<and> node_at w k = Some n"
proof -
  from Lstat_Inr [OF assms(1)] obtain k
    where k: "resolve w (render True cs) False = Inr k" "node_at w k = Some n" by blast
  then obtain b where "length (render True cs) < PATH_MAX"
      "namei w MAXSYMLINKS [] cs False = Inr (k, b)"
    unfolding resolve_render [OF assms(2)] by (auto split: if_splits sum.splits)
  moreover from this have "\<forall>f. namei w MAXSYMLINKS [] cs f = Inr (k, b)"
    using k assms(3) by (auto intro: namei_nofollow_nonlink)
  ultimately show ?thesis using k assms(2) unfolding at_def by blast
qed

lemma Lstat_prefix_leads:
  assumes "os_Lstat w (render True (ps @ cs)) = Inr n" "plain_comps (ps @ cs)" "cs \<noteq> []"
  shows "\<exists>k. leads w (render True ps) k"
proof -
  from Lstat_Inr [OF assms(1)] obtain k
    where "resolve w (render True (ps @ cs)) False = Inr k" by blast
  then obtain k' b where "length (render True (ps @ cs)) < PATH_MAX"
      "namei w MAXSYMLINKS [] ps True = Inr (k', b)"
    unfolding resolve_render [OF assms(2)]
    by (auto simp: namei_append [OF assms(3)] split: if_splits sum.splits prod.splits)
  moreover have "plain_comps ps" using assms(2) by simp
  ultimately show ?thesis
    using length_render_append [of ps cs] unfolding leads_def
    by (intro exI [of _ k'] exI [of _ ps] exI [of _ b]) auto
qed

text \<open>A missing file is reported only where there is none.\<close>

lemma Lstat_missing:
  "wf_fs w \<Longrightarrow> os_Lstat w p = Inl e \<Longrightarrow> os_IsNotExist e \<Longrightarrow> find_node w p False = Inl ENOENT"
  by (auto simp: os_Lstat_def guarded_def wf_fs_def os_IsNotExist_def underlyingError_def
      path_error_def split: option.splits sum.splits prod.splits elim: is_not_exist_target.elims)

lemma Lstat_missing_at:
  "wf_fs w \<Longrightarrow> os_Lstat w p = Inl e \<Longrightarrow> os_IsNotExist e \<Longrightarrow> at w p k \<Longrightarrow> node_at w k = None"
  by (drule (2) Lstat_missing) (auto simp: find_node_def at_resolve split: option.splits)

lemma Mkdir_None:
  assumes "os_Mkdir w p m = (w', None)" "at w p k"
  shows "node_at w k = None" "w' = put_node w k (new_dir w k m)"
  using assms by (auto simp: os_Mkdir_def guarded_def free_place_def at_resolve
      split: option.splits sum.splits if_splits)

lemma Mkdir_Some: "os_Mkdir w p m = (w', Some e) \<Longrightarrow> w' = w"
  by (auto simp: os_Mkdir_def split: sum.splits)

lemma Mkdir_child:
  assumes "os_Mkdir w (Join [p, c]) m = (w', None)" "leads w p k" "plain_comp c"
  shows "node_at w (k @ [c]) = None" "dir_at w k" "at w (Join [p, c]) (k @ [c])"
    "w' = put_node w (k @ [c]) (new_dir w (k @ [c]) m)"
proof -
  from assms(1) obtain k' where k': "resolve w (Join [p, c]) False = Inr k'" "node_at w k' = None"
      "w' = put_node w k' (new_dir w k' m)"
    by (auto simp: os_Mkdir_def guarded_def free_place_def
        split: option.splits sum.splits if_splits)
  note r = resolve_child [OF assms(2,3) k'(1)]
  with k' show n: "node_at w (k @ [c]) = None" and d: "dir_at w k"
    and "w' = put_node w (k @ [c]) (new_dir w (k @ [c]) m)" by simp_all
  with r assms show "at w (Join [p, c]) (k @ [c])" by (intro at_child) auto
qed

lemma Chmod_at:
  "os_Chmod w p m = (w', None) \<Longrightarrow> at w p k \<Longrightarrow>
   \<exists>n. node_at w k = Some n \<and> w' = put_node w k (n\<lparr>nperm := m AND ModeBits\<rparr>)"
  by (auto simp: os_Chmod_def guarded_def find_node_def at_resolve
      split: option.splits sum.splits)

lemma Chmod_Some: "os_Chmod w p m = (w', Some e) \<Longrightarrow> w' = w"
  by (auto simp: os_Chmod_def split: sum.splits prod.splits)

lemma Open_at: "os_Open w p = Inr s \<Longrightarrow> at w p k \<Longrightarrow> s = k \<and> node_at w k \<noteq> None"
  by (auto simp: os_Open_def guarded_def find_node_def at_resolve
      split: option.splits sum.splits)

lemma CreateExcl_at:
  "os_CreateExcl w p m = (w', Inr d) \<Longrightarrow> at w p k \<Longrightarrow>
   d = k \<and> node_at w k = None \<and> w' = put_node w k (new_file w m)"
  by (auto simp: os_CreateExcl_def guarded_def free_place_def at_resolve
      split: option.splits sum.splits if_splits)

lemma CreateExcl_Inl: "os_CreateExcl w p m = (w', Inl e) \<Longrightarrow> w' = w"
  by (auto simp: os_CreateExcl_def split: sum.splits)

lemma ReadDir_at:
  "os_ReadDir w p = Inr es \<Longrightarrow> at w p k \<Longrightarrow>
   dir_at w k \<and> es = map (\<lambda>c. (c, the (node_at w (k @ [c])))) (child_names w k)"
  by (auto simp: os_ReadDir_def guarded_def find_node_def at_resolve dir_at_def
      split: option.splits sum.splits if_splits)

subsection \<open>Places that are still free\<close>

lemma at_leaf_split:
  assumes "at w p k" "\<not> dir_at w k" "wf_fs w"
  shows "\<exists>p' q c. leads w p' q \<and> plain_comp c \<and> p = Join [p', c] \<and> k = q @ [c] \<and> dir_at w q
    \<and> length p < PATH_MAX"
proof -
  from assms(1) obtain cs b where cs: "plain_comps cs" "p = render True cs" "length p < PATH_MAX"
    and n: "\<And>f. namei w MAXSYMLINKS [] cs f = Inr (k, b)" by (auto simp: at_def)
  show ?thesis
  proof (cases cs rule: rev_cases)
    case Nil
    with n [of True] have "k = []" by simp
    with assms(2,3) show ?thesis by (auto dest: wf_fs_root)
  next
    case (snoc xs c)
    with cs have pl: "plain_comps xs" "plain_comp c" by simp_all
    obtain q b' where q: "namei w MAXSYMLINKS [] xs True = Inr (q, b')"
        "namei w b' q [c] False = Inr (k, b)"
      using n [of False] snoc by (auto simp: namei_append split: sum.splits)
    from namei_leaf [OF pl(2) q(2)] have k: "k = q @ [c]" "dir_at w q" by simp_all
    have j: "p = Join [render True xs, c]"
      using cs snoc pl by (simp add: Join_name)
    have "leads w (render True xs) q"
      unfolding leads_def
      using pl q(1) cs snoc length_render_append [of xs "[c]"]
      by (intro exI [of _ xs] exI [of _ b']) auto
    with k pl j cs(3) show ?thesis by blast
  qed
qed

lemma at_leaf_ext:
  assumes "at w p k" "\<not> dir_at w k" "wf_fs w" "fs_ext w w'"
    and "\<And>n. node_at w' k = Some n \<Longrightarrow> ntype n \<noteq> TSymlink"
  shows "at w' p k"
proof -
  obtain p' q c where *: "leads w p' q" "plain_comp c" "p = Join [p', c]" "k = q @ [c]"
      "dir_at w q" "length p < PATH_MAX"
    using at_leaf_split [OF assms(1-3)] by blast
  have "leads w' p' q" "dir_at w' q"
    using * assms(4) leads_ext fs_ext_dir by blast+
  with * assms(5) show ?thesis by (auto intro: at_child)
qed

lemma free_not_dir: "node_at w k = None \<Longrightarrow> \<not> dir_at w k"
  by (simp add: dir_at_def)

lemmas at_free_split = at_leaf_split [OF _ free_not_dir]
lemmas at_free_ext = at_leaf_ext [OF _ free_not_dir]

text \<open>A state that differs only at a place that was free is well-formed and an extension.\<close>

lemma node_at_ext_wf:
  assumes "wf_fs w" "same_env w w'" "\<And>q. node_at w' q = node_at w q"
  shows "wf_fs w'"
  using assms by (simp add: wf_fs_def dir_at_def same_env_def)

lemma one_change:
  assumes "wf_fs w" "same_env w w'" "at w p k" "node_at w k = None"
    and "\<And>q. q \<noteq> k \<Longrightarrow> node_at w' q = node_at w q"
  shows "wf_fs w'" "fs_ext w w'"
proof -
  obtain q c where *: "plain_comp c" "k = q @ [c]" "dir_at w q"
    using at_free_split [OF assms(3,4,1)] by blast
  show "wf_fs w'"
  proof (cases "node_at w' k")
    case None
    with assms show ?thesis by (intro node_at_ext_wf [OF assms(1,2)]) metis
  next
    case (Some n)
    have "wf_fs (put_node w k n)"
      using wf_fs_put_new [OF assms(1) *(3,1)] assms(4) *(2) by simp
    moreover have "same_env (put_node w k n) w'" using assms(2) by (simp add: same_env_def fs_simps)
    ultimately show ?thesis
      by (rule node_at_ext_wf) (use Some assms(5) in \<open>auto simp: fs_simps\<close>)
  qed
  show "fs_ext w w'"
    unfolding fs_ext_def using assms(4,5) by (metis option.distinct(1))
qed

subsection \<open>Calls that succeed\<close>

definition no_faults :: "fsys \<Rightarrow> bool" where
  "no_faults w \<longleftrightarrow> (\<forall>c. fault w c = None)"

lemma no_faults_env: "no_faults w \<Longrightarrow> same_env w w' \<Longrightarrow> no_faults w'"
  by (simp add: no_faults_def same_env_def)

lemma guarded_ok [simp]: "no_faults w \<Longrightarrow> guarded w c r = r"
  by (simp add: guarded_def no_faults_def)

lemma Lstat_ok: "no_faults w \<Longrightarrow> at w p k \<Longrightarrow> node_at w k = Some n \<Longrightarrow> os_Lstat w p = Inr n"
  by (simp add: os_Lstat_def find_node_def at_resolve)

lemma Mkdir_ok: "no_faults w \<Longrightarrow> at w p k \<Longrightarrow> node_at w k = None \<Longrightarrow> \<exists>w'. os_Mkdir w p m = (w', None)"
  by (simp add: os_Mkdir_def free_place_def at_resolve)

lemma Chmod_ok: "no_faults w \<Longrightarrow> at w p k \<Longrightarrow> node_at w k \<noteq> None \<Longrightarrow> \<exists>w'. os_Chmod w p m = (w', None)"
  by (auto simp: os_Chmod_def find_node_def at_resolve)

lemma ReadDir_ok: "no_faults w \<Longrightarrow> at w p k \<Longrightarrow> dir_at w k \<Longrightarrow> \<exists>es. os_ReadDir w p = Inr es"
  by (auto simp: os_ReadDir_def find_node_def at_resolve dir_at_def split: option.splits)

end
