(* ===== verification/Protocol.thy ===== *)
theory Protocol
  imports Go_Error
begin

section \<open>The request and response protocol (internal/protocol)\<close>

text \<open>
  \<open>protocol.go\<close>: the request and response records, the validation of a request, and the
  mapping from Go errors to the coded errors that cross the wire.  The Go type \<open>int\<close> of the
  version is unbounded here: it is only compared.  \<open>Response.Error\<close> is a pointer, so an
  option.
\<close>

definition Version1 :: int where "Version1 = 1"
definition Version2 :: int where "Version2 = 2"
definition OpReflink :: string where "OpReflink = ''reflink''"

definition CodeENOENT :: string where "CodeENOENT = ''ENOENT''"
definition CodeEEXIST :: string where "CodeEEXIST = ''EEXIST''"
definition CodeEOPNOTSUPP :: string where "CodeEOPNOTSUPP = ''EOPNOTSUPP''"
definition CodeEINVAL :: string where "CodeEINVAL = ''EINVAL''"
definition CodeEPERM :: string where "CodeEPERM = ''EPERM''"
definition defaultErrMsg :: string where "defaultErrMsg = ''request failed''"

lemmas code_defs = CodeENOENT_def CodeEEXIST_def CodeEOPNOTSUPP_def CodeEINVAL_def CodeEPERM_def
lemmas version_defs = Version1_def Version2_def

record Request =
  Version :: int
  Op :: string
  Recursive :: bool
  Src :: string
  Dst :: string
  Token :: string

record ErrorDetail =
  Code :: string
  Message :: string

record Response =
  OK :: bool
  Error :: "ErrorDetail option"

definition NewError :: "string \<Rightarrow> string \<Rightarrow> go_error" where
  "NewError code message = CodedError code message None"

definition WrapError :: "string \<Rightarrow> string \<Rightarrow> go_error \<Rightarrow> go_error" where
  "WrapError code message err = CodedError code message (Some err)"

definition Request_Validate :: "Request \<Rightarrow> go_error option" where
  "Request_Validate r =
     (if Version r \<noteq> Version1 \<and> Version r \<noteq> Version2 then
        Some (NewError CodeEINVAL (''unsupported protocol version: '' @ show_int (Version r)))
      else if Op r \<noteq> OpReflink then
        Some (NewError CodeEINVAL (''unsupported operation: '' @ Op r))
      else if Version r = Version1 \<and> Token r \<noteq> [] then
        Some (NewError CodeEINVAL ''authentication token requires protocol version 2'')
      else if Version r = Version2 \<and> Token r = [] then
        Some (NewError CodeEINVAL ''authentication token is required'')
      else if Src r = [] then Some (NewError CodeEINVAL ''source path is required'')
      else if Dst r = [] then Some (NewError CodeEINVAL ''destination path is required'')
      else if Src r = Dst r then
        Some (NewError CodeEINVAL ''source and destination must differ'')
      else None)"

definition SuccessResponse :: Response where
  "SuccessResponse = \<lparr>OK = True, Error = None\<rparr>"

definition FailureResponse :: "string \<Rightarrow> string \<Rightarrow> Response" where
  "FailureResponse code message =
     \<lparr>OK = False, Error = Some \<lparr>Code = code, Message = message\<rparr>\<rparr>"

text \<open>\<open>AsCoded\<close> returns the code and message of the first coded error in the tree.\<close>

definition AsCoded :: "go_error \<Rightarrow> (string \<times> string) option" where
  "AsCoded err = as_coded err"

definition CodeFromError :: "go_error option \<Rightarrow> string" where
  "CodeFromError err =
     (case err of
        None \<Rightarrow> []
      | Some e \<Rightarrow>
          if errors_is is_not_exist_target e \<or> errors_is_errno ENOENT e
             \<or> errors_is_errno ENOTDIR e then CodeENOENT
          else if errors_is is_exist_target e \<or> errors_is_errno EEXIST e then CodeEEXIST
          else if errors_is is_permission_target e \<or> errors_is_errno EPERM e
             \<or> errors_is_errno EACCES e then CodeEPERM
          else if errors_is is_reflink_unsupported e \<or> errors_is is_reflink_failed e
             \<or> errors_is_errno EOPNOTSUPP e \<or> errors_is_errno EXDEV e then CodeEOPNOTSUPP
          else CodeEINVAL)"

definition MessageFromError :: "go_error option \<Rightarrow> string" where
  "MessageFromError err =
     (case (case err of None \<Rightarrow> None | Some e \<Rightarrow> AsCoded e) of
        Some (code, message) \<Rightarrow> message
      | None \<Rightarrow>
          let code = CodeFromError err in
          if code = CodeENOENT then ''source not found''
          else if code = CodeEEXIST then ''destination already exists''
          else if code = CodeEOPNOTSUPP
            then ''reflink is not supported for this source and destination''
          else if code = CodeEPERM then ''permission denied''
          else if code = CodeEINVAL
            then (case err of Some e \<Rightarrow> error_msg e | None \<Rightarrow> defaultErrMsg)
          else defaultErrMsg)"

definition ResponseFromError :: "go_error option \<Rightarrow> Response" where
  "ResponseFromError err =
     (case err of
        None \<Rightarrow> SuccessResponse
      | Some e \<Rightarrow>
          (case AsCoded e of
             Some (code, message) \<Rightarrow> FailureResponse code message
           | None \<Rightarrow> FailureResponse (CodeFromError err) (MessageFromError err)))"

subsection \<open>Facts about the mapping\<close>

definition protocol_codes :: "string list" where
  "protocol_codes = [CodeENOENT, CodeEEXIST, CodeEOPNOTSUPP, CodeEINVAL, CodeEPERM]"

lemma codes_distinct: "distinct protocol_codes"
  by (simp add: protocol_codes_def code_defs)

lemma NewError_simps [simp, err_simps]:
  "AsCoded (NewError c m) = Some (c, m)"
  "AsCoded (WrapError c m e) = Some (c, m)"
  "error_msg (NewError c m) = m"
  "error_msg (WrapError c m e) = m"
  by (simp_all add: AsCoded_def NewError_def WrapError_def)

lemma CodeFromError_range: "CodeFromError (Some e) \<in> set protocol_codes"
  by (simp add: CodeFromError_def protocol_codes_def)

lemma ResponseFromError_OK [simp]: "OK (ResponseFromError err) \<longleftrightarrow> err = None"
  by (auto simp: ResponseFromError_def SuccessResponse_def FailureResponse_def split: option.splits)

lemma Request_Validate_None:
  "Request_Validate r = None \<longleftrightarrow>
     Op r = OpReflink \<and>
     (Version r = Version1 \<and> Token r = [] \<or> Version r = Version2 \<and> Token r \<noteq> []) \<and>
     Src r \<noteq> [] \<and> Dst r \<noteq> [] \<and> Src r \<noteq> Dst r"
  by (auto simp: Request_Validate_def version_defs)

lemma Request_Validate_EINVAL:
  "Request_Validate r = Some e \<Longrightarrow> \<exists>m. e = NewError CodeEINVAL m"
  by (auto simp: Request_Validate_def split: if_splits)

subsection \<open>Properties\<close>

text \<open>A request validates exactly when it names the reflink operation, carries a token
  exactly under version 2, and has two different non-empty paths.\<close>

theorem Request_Validate_accepts:
  "Request_Validate r = None \<longleftrightarrow>
     Op r = OpReflink \<and> Version r \<in> {Version1, Version2} \<and>
     (Version r = Version2 \<longleftrightarrow> Token r \<noteq> []) \<and>
     Src r \<noteq> [] \<and> Dst r \<noteq> [] \<and> Src r \<noteq> Dst r"
  by (auto simp: Request_Validate_None version_defs)

text \<open>C24: How a failed system call is reported: its errno, under any path error, becomes one of
  the five protocol codes, and a missing file or parent is \<open>ENOENT\<close>, an existing destination
  \<open>EEXIST\<close>, a refused access \<open>EPERM\<close>, a file system without reflinks \<open>EOPNOTSUPP\<close>.\<close>

theorem ResponseFromError_errno:
  "ResponseFromError (Some (PathError oper path (Errno n))) =
     (if n \<in> {ENOENT, ENOTDIR} then FailureResponse CodeENOENT ''source not found''
      else if n \<in> {EEXIST, ENOTEMPTY} then FailureResponse CodeEEXIST ''destination already exists''
      else if n \<in> {EPERM, EACCES} then FailureResponse CodeEPERM ''permission denied''
      else if n \<in> {EOPNOTSUPP, EXDEV} then FailureResponse CodeEOPNOTSUPP
        ''reflink is not supported for this source and destination''
      else FailureResponse CodeEINVAL (oper @ '' '' @ path @ '': '' @ errno_msg n))"
  by (cases n) (simp_all add: ResponseFromError_def AsCoded_def CodeFromError_def MessageFromError_def
      err_simps code_defs)

text \<open>A response says OK exactly when there was no error; otherwise it carries the code and
  message of the coded error when there is one, and else one of the five protocol codes.\<close>

theorem ResponseFromError_faithful:
  "OK (ResponseFromError err) = (err = None) \<and>
   (case err of
      None \<Rightarrow> Error (ResponseFromError err) = None
    | Some e \<Rightarrow>
        (case AsCoded e of
           Some (c, m) \<Rightarrow> Error (ResponseFromError err) = Some \<lparr>Code = c, Message = m\<rparr>
         | None \<Rightarrow> (\<exists>m. Error (ResponseFromError err) = Some \<lparr>Code = CodeFromError err, Message = m\<rparr>)
             \<and> CodeFromError err \<in> {CodeENOENT, CodeEEXIST, CodeEOPNOTSUPP, CodeEINVAL, CodeEPERM}))"
  by (auto simp: ResponseFromError_def SuccessResponse_def FailureResponse_def CodeFromError_def
      split: option.splits)

end
