(* ===== verification/Json.thy ===== *)
theory Json
  imports Protocol Go_Strings
begin

section \<open>What the program uses of encoding/json\<close>

text \<open>
  Requests and responses cross the wire as JSON (\<open>framing.go\<close>).  The model follows Go's
  package: \<open>json.Marshal\<close> escapes control characters, quotes, backslashes and the HTML
  characters, and writes every byte that is not part of a valid UTF-8 sequence as the escape of
  U+FFFD; \<open>json.Decoder\<close> accepts any JSON text, replaces invalid bytes by U+FFFD, matches
  field names without regard to case, lets a later field win over an earlier one, ignores
  \<open>null\<close>, and with \<open>DisallowUnknownFields\<close> refuses unknown names.  The texts of its errors
  are not modelled.
\<close>

definition ord :: "char \<Rightarrow> nat" where "ord c = of_char c"

definition quote :: char where "quote = CHR 0x22"
definition backslash :: char where "backslash = CHR 0x5C"

subsection \<open>UTF-8\<close>

text \<open>The length of the valid sequence a byte list starts with (\<open>utf8.DecodeRune\<close>), or 0.\<close>

definition in_range :: "nat \<Rightarrow> nat \<Rightarrow> char \<Rightarrow> bool" where
  "in_range lo hi c \<longleftrightarrow> lo \<le> ord c \<and> ord c \<le> hi"

definition second3 :: "char \<Rightarrow> char \<Rightarrow> bool" where
  "second3 a b \<longleftrightarrow>
     in_range (if ord a = 0xE0 then 0xA0 else 0x80) (if ord a = 0xED then 0x9F else 0xBF) b"

definition second4 :: "char \<Rightarrow> char \<Rightarrow> bool" where
  "second4 a b \<longleftrightarrow>
     in_range (if ord a = 0xF0 then 0x90 else 0x80) (if ord a = 0xF4 then 0x8F else 0xBF) b"

fun utf8_size :: "bytes \<Rightarrow> nat" where
  "utf8_size [] = 0"
| "utf8_size (a # s) =
     (if ord a < 0x80 then 1
      else if in_range 0xC2 0xDF a then
        (case s of b # _ \<Rightarrow> if in_range 0x80 0xBF b then 2 else 0 | [] \<Rightarrow> 0)
      else if in_range 0xE0 0xEF a then
        (case s of
           b # c # _ \<Rightarrow>
             if second3 a b \<and> in_range 0x80 0xBF c then 3 else 0
         | _ \<Rightarrow> 0)
      else if in_range 0xF0 0xF4 a then
        (case s of
           b # c # d # _ \<Rightarrow>
             if second4 a b \<and> in_range 0x80 0xBF c \<and> in_range 0x80 0xBF d then 4 else 0
         | _ \<Rightarrow> 0)
      else 0)"

lemma utf8_size_le: "utf8_size s \<le> length s"
  by (cases s) (auto split: list.splits)

function valid_utf8 :: "bytes \<Rightarrow> bool" where
  "valid_utf8 s =
     (if s = [] then True else if utf8_size s = 0 then False
      else valid_utf8 (drop (utf8_size s) s))"
  by pat_completeness auto
termination by (relation "measure length") auto

declare valid_utf8.simps [simp del]

definition replacement :: bytes where "replacement = [CHR 0xEF, CHR 0xBF, CHR 0xBD]"

text \<open>\<open>utf8.AppendRune\<close>.\<close>

definition encode_rune :: "nat \<Rightarrow> bytes" where
  "encode_rune r =
     (if r < 0x80 then [char_of r]
      else if r < 0x800 then [char_of (0xC0 + r div 64), char_of (0x80 + r mod 64)]
      else if 0xD800 \<le> r \<and> r < 0xE000 \<or> 0x10FFFF < r then replacement
      else if r < 0x10000 then
        [char_of (0xE0 + r div 4096), char_of (0x80 + r div 64 mod 64), char_of (0x80 + r mod 64)]
      else [char_of (0xF0 + r div 262144), char_of (0x80 + r div 4096 mod 64),
            char_of (0x80 + r div 64 mod 64), char_of (0x80 + r mod 64)])"

subsection \<open>Writing strings\<close>

definition hex_digit :: "nat \<Rightarrow> char" where
  "hex_digit n = (if n < 10 then char_of (48 + n) else char_of (87 + n))"

definition escape_byte :: "char \<Rightarrow> bytes" where
  "escape_byte c =
     (if c = quote \<or> c = backslash then [backslash, c]
      else if ord c = 8 then [backslash, CHR ''b'']
      else if ord c = 12 then [backslash, CHR ''f'']
      else if ord c = 10 then [backslash, CHR ''n'']
      else if ord c = 13 then [backslash, CHR ''r'']
      else if ord c = 9 then [backslash, CHR ''t'']
      else if ord c < 32 \<or> c = CHR ''<'' \<or> c = CHR ''>'' \<or> c = CHR ''&''
        then backslash # ''u00'' @ [hex_digit (ord c div 16), hex_digit (ord c mod 16)]
      else [c])"

text \<open>One step of \<open>appendString\<close>: the output for the head of the string, and the rest.\<close>

definition escape_step :: "bytes \<Rightarrow> bytes \<times> bytes" where
  "escape_step s =
     (let k = utf8_size s in
      if ord (hd s) < 0x80 then (escape_byte (hd s), tl s)
      else if k = 0 then (backslash # ''ufffd'', tl s)
      else if take k s = [CHR 0xE2, CHR 0x80, CHR 0xA8] then (backslash # ''u2028'', drop k s)
      else if take k s = [CHR 0xE2, CHR 0x80, CHR 0xA9] then (backslash # ''u2029'', drop k s)
      else (take k s, drop k s))"

function escape :: "bytes \<Rightarrow> bytes" where
  "escape s =
     (if s = [] then []
      else case escape_step s of (out, rest) \<Rightarrow> out @ escape rest)"
  by pat_completeness auto
termination
  by (relation "measure length")
    (auto simp: escape_step_def Let_def neq_Nil_conv split: if_splits)

declare escape.simps [simp del]

definition write_string :: "bytes \<Rightarrow> bytes" where
  "write_string s = quote # escape s @ [quote]"

subsection \<open>Reading strings\<close>

definition unhex :: "char \<Rightarrow> nat option" where
  "unhex c =
     (let n = ord c in
      if 48 \<le> n \<and> n \<le> 57 then Some (n - 48)
      else if 97 \<le> n \<and> n \<le> 102 then Some (n - 87)
      else if 65 \<le> n \<and> n \<le> 70 then Some (n - 55)
      else None)"

text \<open>\<open>getu4\<close>, after the \<open>\u\<close>.\<close>

fun getu4 :: "bytes \<Rightarrow> nat option" where
  "getu4 (a # b # c # d # _) =
     (case (unhex a, unhex b, unhex c, unhex d) of
        (Some x, Some y, Some z, Some w) \<Rightarrow> Some (((x * 16 + y) * 16 + z) * 16 + w)
      | _ \<Rightarrow> None)"
| "getu4 _ = None"

text \<open>The low half of a surrogate pair, when the input goes on with one.\<close>

fun low_half :: "bytes \<Rightarrow> nat option" where
  "low_half (b # u # s) =
     (if b = backslash \<and> u = CHR ''u'' then
        (case getu4 s of
           Some r \<Rightarrow> if 0xDC00 \<le> r \<and> r < 0xE000 then Some r else None
         | None \<Rightarrow> None)
      else None)"
| "low_half _ = None"

definition unquote_escape :: "bytes \<Rightarrow> (bytes \<times> bytes) option" where
  "unquote_escape s =
     (case s of
        [] \<Rightarrow> None
      | e # s \<Rightarrow>
          if e = quote \<or> e = backslash \<or> e = CHR ''/'' then Some ([e], s)
          else if e = CHR ''b'' then Some ([char_of (8::nat)], s)
          else if e = CHR ''f'' then Some ([char_of (12::nat)], s)
          else if e = CHR ''n'' then Some ([char_of (10::nat)], s)
          else if e = CHR ''r'' then Some ([char_of (13::nat)], s)
          else if e = CHR ''t'' then Some ([char_of (9::nat)], s)
          else if e = CHR ''u'' then
            (case getu4 s of
               None \<Rightarrow> None
             | Some r \<Rightarrow>
                 let s = drop 4 s in
                 if 0xD800 \<le> r \<and> r < 0xE000 then
                   (case (if r < 0xDC00 then low_half s else None) of
                      Some r1 \<Rightarrow>
                        Some (encode_rune (0x10000 + (r - 0xD800) * 1024 + (r1 - 0xDC00)), drop 6 s)
                    | None \<Rightarrow> Some (replacement, s))
                 else Some (encode_rune r, s))
          else None)"

definition unquote_step :: "bytes \<Rightarrow> (bytes \<times> bytes) option" where
  "unquote_step s =
     (let c = hd s; k = utf8_size s in
      if c = backslash then unquote_escape (tl s)
      else if ord c < 32 then None
      else if k = 0 then Some (replacement, tl s)
      else Some (take k s, drop k s))"

text \<open>\<open>unquote s\<close>, after the opening quote: the string and what follows the closing quote.\<close>

function unquote :: "bytes \<Rightarrow> (bytes \<times> bytes) option" where
  "unquote s =
     (if s = [] then None
      else if hd s = quote then Some ([], tl s)
      else case unquote_step s of
             None \<Rightarrow> None
           | Some (out, rest) \<Rightarrow>
               if length rest < length s then
                 (case unquote rest of
                    None \<Rightarrow> None
                  | Some (str, rest) \<Rightarrow> Some (out @ str, rest))
               else None)"
  by pat_completeness auto
termination by (relation "measure length") auto

declare unquote.simps [simp del]

subsection \<open>Reading values\<close>

datatype json =
    JNull | JBool bool | JNum bytes | JStr bytes | JArr "json list" | JObj "(bytes \<times> json) list"

definition is_ws :: "char \<Rightarrow> bool" where
  "is_ws c \<longleftrightarrow> c = CHR '' '' \<or> ord c = 9 \<or> ord c = 10 \<or> ord c = 13"

definition skip_ws :: "bytes \<Rightarrow> bytes" where "skip_ws s = dropWhile is_ws s"

definition is_digit :: "char \<Rightarrow> bool" where "is_digit c \<longleftrightarrow> 48 \<le> ord c \<and> ord c \<le> 57"

definition digits :: "bytes \<Rightarrow> bytes \<times> bytes" where
  "digits s = (takeWhile is_digit s, dropWhile is_digit s)"

text \<open>The parts of a number: each returns the text read and the rest.\<close>

definition scan_sign :: "char list \<Rightarrow> bytes \<Rightarrow> bytes \<times> bytes" where
  "scan_sign signs s = (if s \<noteq> [] \<and> hd s \<in> set signs then ([hd s], tl s) else ([], s))"

definition scan_int :: "bytes \<Rightarrow> (bytes \<times> bytes) option" where
  "scan_int s =
     (if s \<noteq> [] \<and> hd s = CHR ''0'' then Some ([hd s], tl s)
      else let (ds, r) = digits s in if ds = [] then None else Some (ds, r))"

definition scan_frac :: "bytes \<Rightarrow> (bytes \<times> bytes) option" where
  "scan_frac s =
     (if s \<noteq> [] \<and> hd s = CHR ''.'' then
        (let (ds, r) = digits (tl s) in if ds = [] then None else Some (CHR ''.'' # ds, r))
      else Some ([], s))"

definition scan_exp :: "bytes \<Rightarrow> (bytes \<times> bytes) option" where
  "scan_exp s =
     (if s \<noteq> [] \<and> (hd s = CHR ''e'' \<or> hd s = CHR ''E'') then
        (let (sg, r) = scan_sign [CHR ''+'', CHR ''-''] (tl s); (ds, r) = digits r
         in if ds = [] then None else Some (hd s # sg @ ds, r))
      else Some ([], s))"

definition scan_number :: "bytes \<Rightarrow> (bytes \<times> bytes) option" where
  "scan_number s =
     (let (sg, s) = scan_sign [CHR ''-''] s in
      case scan_int s of
        None \<Rightarrow> None
      | Some (i, s) \<Rightarrow>
          (case scan_frac s of
             None \<Rightarrow> None
           | Some (f, s) \<Rightarrow>
               (case scan_exp s of
                  None \<Rightarrow> None
                | Some (e, s) \<Rightarrow> Some (sg @ i @ f @ e, s))))"

fun expect :: "bytes \<Rightarrow> bytes \<Rightarrow> bytes option" where
  "expect [] s = Some s"
| "expect (c # cs) [] = None"
| "expect (c # cs) (x # s) = (if x = c then expect cs s else None)"

text \<open>Every level, item and field takes a unit of fuel, and a byte of the input.\<close>

fun read_value :: "nat \<Rightarrow> bytes \<Rightarrow> (json \<times> bytes) option"
  and read_items :: "nat \<Rightarrow> bytes \<Rightarrow> (json list \<times> bytes) option"
  and read_fields :: "nat \<Rightarrow> bytes \<Rightarrow> ((bytes \<times> json) list \<times> bytes) option" where
  "read_value 0 s = None"
| "read_value (Suc f) s =
     (case skip_ws s of
        [] \<Rightarrow> None
      | c # r \<Rightarrow>
          if c = quote then map_option (\<lambda>(x, r). (JStr x, r)) (unquote r)
          else if c = CHR ''{'' then
            (case skip_ws r of
               x # r' \<Rightarrow>
                 if x = CHR ''}'' then Some (JObj [], r')
                 else map_option (\<lambda>(fs, r). (JObj fs, r)) (read_fields f r)
             | [] \<Rightarrow> None)
          else if c = CHR ''['' then
            (case skip_ws r of
               x # r' \<Rightarrow>
                 if x = CHR '']'' then Some (JArr [], r')
                 else map_option (\<lambda>(vs, r). (JArr vs, r)) (read_items f r)
             | [] \<Rightarrow> None)
          else if c = CHR ''t'' then map_option (\<lambda>r. (JBool True, r)) (expect ''rue'' r)
          else if c = CHR ''f'' then map_option (\<lambda>r. (JBool False, r)) (expect ''alse'' r)
          else if c = CHR ''n'' then map_option (\<lambda>r. (JNull, r)) (expect ''ull'' r)
          else map_option (\<lambda>(x, r). (JNum x, r)) (scan_number (c # r)))"
| "read_items 0 s = None"
| "read_items (Suc f) s =
     (case read_value f s of
        None \<Rightarrow> None
      | Some (v, s) \<Rightarrow>
          (case skip_ws s of
             c # s \<Rightarrow>
               if c = CHR '','' then map_option (\<lambda>(vs, s). (v # vs, s)) (read_items f s)
               else if c = CHR '']'' then Some ([v], s) else None
           | [] \<Rightarrow> None))"
| "read_fields 0 s = None"
| "read_fields (Suc f) s =
     (case skip_ws s of
        q # s \<Rightarrow>
          if q \<noteq> quote then None
          else (case unquote s of
            None \<Rightarrow> None
          | Some (k, s) \<Rightarrow>
            (case skip_ws s of
               c # s \<Rightarrow>
                 if c \<noteq> CHR '':'' then None
                 else (case read_value f s of
                   None \<Rightarrow> None
                 | Some (v, s) \<Rightarrow>
                   (case skip_ws s of
                      c # s \<Rightarrow>
                        if c = CHR '','' then map_option (\<lambda>(fs, s). ((k, v) # fs, s)) (read_fields f s)
                        else if c = CHR ''}'' then Some ([(k, v)], s) else None
                    | [] \<Rightarrow> None))
             | [] \<Rightarrow> None))
      | [] \<Rightarrow> None)"

text \<open>
  The two \<open>Decode\<close> calls of \<open>framing.ReadWithLimit\<close>: one value, and nothing but white space
  after it.
\<close>

definition read_json :: "bytes \<Rightarrow> json option" where
  "read_json s =
     (case read_value (Suc (2 * length s)) s of
        Some (v, r) \<Rightarrow> if skip_ws r = [] then Some v else None
      | None \<Rightarrow> None)"

end
