(* ===== verification/Go_Numbers.thy ===== *)
theory Go_Numbers
  imports Json
begin

section \<open>Quoting and number parsing (strconv and time)\<close>

text \<open>
  \<open>strconv.Quote\<close>, \<open>strconv.ParseUint(s, 10, 32)\<close> and \<open>time.ParseDuration\<close>, which the
  configuration is read with.  A duration is a number of nanoseconds.
\<close>

subsection \<open>Quoting\<close>

definition hex2 :: "nat \<Rightarrow> string" where
  "hex2 n = [hex_digit (n div 16), hex_digit (n mod 16)]"

text \<open>\<open>strconv.Quote\<close>; runes beyond ASCII that are not printable are copied, not escaped.\<close>

definition quote_byte :: "char \<Rightarrow> string" where
  "quote_byte c =
     (if c = quote \<or> c = backslash then [backslash, c]
      else if ord c = 7 then backslash # ''a''
      else if ord c = 8 then backslash # ''b''
      else if ord c = 9 then backslash # ''t''
      else if ord c = 10 then backslash # ''n''
      else if ord c = 11 then backslash # ''v''
      else if ord c = 12 then backslash # ''f''
      else if ord c = 13 then backslash # ''r''
      else if ord c < 32 \<or> ord c = 127 then backslash # ''x'' @ hex2 (ord c)
      else [c])"

function quote_body :: "string \<Rightarrow> string" where
  "quote_body s =
     (if s = [] then []
      else if ord (hd s) < 128 then quote_byte (hd s) @ quote_body (tl s)
      else if utf8_size s = 0 then backslash # ''x'' @ hex2 (ord (hd s)) @ quote_body (tl s)
      else take (utf8_size s) s @ quote_body (drop (utf8_size s) s))"
  by pat_completeness auto
termination by (relation "measure length") auto

declare quote_body.simps [simp del]

definition Quote :: "string \<Rightarrow> string" where
  "Quote s = quote # quote_body s @ [quote]"

text \<open>The quoting of package \<open>time\<close> escapes every byte that is not printable ASCII.\<close>

definition time_quote :: "string \<Rightarrow> string" where
  "time_quote s =
     quote # concat (map (\<lambda>c. if ord c \<ge> 128 \<or> ord c < 32 then backslash # ''x'' @ hex2 (ord c)
       else if c = quote \<or> c = backslash then [backslash, c] else [c]) s) @ [quote]"

subsection \<open>strconv.ParseUint(s, 10, 32)\<close>

definition num_error :: "string \<Rightarrow> string \<Rightarrow> go_error" where
  "num_error s what =
     WrapErr (''strconv.ParseUint: parsing '' @ Quote s @ '': '' @ what) [ErrorString what]"

definition digit_of :: "char \<Rightarrow> int" where "digit_of c = int (ord c) - 48"

fun parse_uint_loop :: "string \<Rightarrow> int \<Rightarrow> string \<Rightarrow> go_error + int" where
  "parse_uint_loop s0 n [] = Inr n"
| "parse_uint_loop s0 n (c # s) =
     (if \<not> is_digit c then Inl (num_error s0 ''invalid syntax'')
      else let n = n * 10 + digit_of c
           in if n > 2 ^ 32 - 1 then Inl (num_error s0 ''value out of range'')
              else parse_uint_loop s0 n s)"

definition ParseUint32 :: "string \<Rightarrow> go_error + int" where
  "ParseUint32 s = (if s = [] then Inl (num_error s ''invalid syntax'') else parse_uint_loop s 0 s)"

subsection \<open>time.ParseDuration\<close>

text \<open>
  A fraction goes through \<open>float64\<close>: \<open>round53 p q\<close> is the closest number with a 53-bit
  mantissa to \<open>p / q\<close>, ties to even, as a pair of numerator and denominator.
\<close>

fun bit_length :: "int \<Rightarrow> nat" where
  "bit_length n = (if n \<le> 0 then 0 else Suc (bit_length (n div 2)))"

declare bit_length.simps [simp del]

definition round_at :: "int \<Rightarrow> int \<Rightarrow> nat \<Rightarrow> nat \<Rightarrow> int \<times> int" where
  "round_at p q sh ct =
     (let n = p * 2 ^ sh div q;
          sticky = (p * 2 ^ sh mod q \<noteq> 0);
          m = n div 2 ^ ct;
          r = n mod 2 ^ ct;
          up = (2 * r > 2 ^ ct \<or> 2 * r = 2 ^ ct \<and> (sticky \<or> odd m))
      in ((if up then m + 1 else m) * 2 ^ ct, 2 ^ sh))"

definition round53 :: "int \<Rightarrow> int \<Rightarrow> int \<times> int" where
  "round53 p q =
     (if p \<le> 0 then (0, 1)
      else let sh = 64 + bit_length q
           in round_at p q sh (bit_length (p * 2 ^ sh div q) - 53))"

definition fraction_ns :: "int \<Rightarrow> int \<Rightarrow> int \<Rightarrow> int" where
  "fraction_ns f scale unit =
     (let (a, b) = round53 f 1; (c, d) = round53 unit scale; (x, y) = round53 (a * c) (b * d)
      in x div y)"

definition unit_ns :: "string \<Rightarrow> int option" where
  "unit_ns u =
     (if u = ''ns'' then Some 1
      else if u = ''us'' \<or> u = [CHR 0xC2, CHR 0xB5, CHR ''s''] \<or> u = [CHR 0xCE, CHR 0xBC, CHR ''s'']
        then Some 1000
      else if u = ''ms'' then Some 1000000
      else if u = ''s'' then Some 1000000000
      else if u = ''m'' then Some 60000000000
      else if u = ''h'' then Some 3600000000000
      else None)"

text \<open>\<open>leadingInt\<close>: \<open>None\<close> on overflow past \<open>1<<63\<close>.\<close>

fun leadingInt :: "int \<Rightarrow> string \<Rightarrow> (int \<times> string) option" where
  "leadingInt x [] = Some (x, [])"
| "leadingInt x (c # s) =
     (if \<not> is_digit c then Some (x, c # s)
      else if x > 2 ^ 63 div 10 then None
      else let x = x * 10 + digit_of c in if x > 2 ^ 63 then None else leadingInt x s)"

text \<open>\<open>leadingFraction\<close>: digits past the precision of 63 bits are skipped.\<close>

fun leadingFraction :: "int \<Rightarrow> int \<Rightarrow> bool \<Rightarrow> string \<Rightarrow> int \<times> int \<times> string" where
  "leadingFraction x scale overflow [] = (x, scale, [])"
| "leadingFraction x scale overflow (c # s) =
     (if \<not> is_digit c then (x, scale, c # s)
      else if overflow then leadingFraction x scale True s
      else if x > (2 ^ 63 - 1) div 10 then leadingFraction x scale True s
      else let y = x * 10 + digit_of c in
        if y > 2 ^ 63 then leadingFraction x scale True s
        else leadingFraction y (scale * 10) False s)"

definition invalid_duration :: "string \<Rightarrow> go_error" where
  "invalid_duration s = ErrorString (''time: invalid duration '' @ time_quote s)"

definition is_unit_char :: "char \<Rightarrow> bool" where
  "is_unit_char c \<longleftrightarrow> c \<noteq> CHR ''.'' \<and> \<not> is_digit c"

text \<open>One number and its unit off the front of \<open>s\<close>: their nanoseconds and the rest.\<close>

definition duration_part :: "string \<Rightarrow> string \<Rightarrow> go_error + (int \<times> string)" where
  "duration_part orig s =
     (if s = [] \<or> \<not> (hd s = CHR ''.'' \<or> is_digit (hd s)) then Inl (invalid_duration orig)
      else case leadingInt 0 s of
        None \<Rightarrow> Inl (invalid_duration orig)
      | Some (v, s1) \<Rightarrow>
          let pre = (length s1 \<noteq> length s);
              dot = (s1 \<noteq> [] \<and> hd s1 = CHR ''.'');
              (f, scale, s2) = (if dot then leadingFraction 0 1 False (tl s1) else (0, 1, s1));
              post = (dot \<and> length s2 \<noteq> length (tl s1));
              u = takeWhile is_unit_char s2;
              s3 = dropWhile is_unit_char s2
          in if \<not> pre \<and> \<not> post then Inl (invalid_duration orig)
             else if u = [] then
               Inl (ErrorString (''time: missing unit in duration '' @ time_quote orig))
             else (case unit_ns u of
               None \<Rightarrow> Inl (ErrorString (''time: unknown unit '' @ time_quote u @ '' in duration ''
                         @ time_quote orig))
             | Some unit \<Rightarrow>
                 if v > 2 ^ 63 div unit then Inl (invalid_duration orig)
                 else let w = v * unit + (if f > 0 then fraction_ns f scale unit else 0)
                      in if w > 2 ^ 63 then Inl (invalid_duration orig) else Inr (w, s3)))"

lemma leadingInt_length: "leadingInt x s = Some (v, r) \<Longrightarrow> length r \<le> length s"
  by (induction s arbitrary: x) (auto simp: Let_def split: if_splits intro: le_SucI)

lemma leadingFraction_length: "leadingFraction x sc ov s = (f, sc', r) \<Longrightarrow> length r \<le> length s"
  by (induction s arbitrary: x sc ov) (auto simp: Let_def split: if_splits intro: le_SucI)

lemma duration_part_shorter:
  assumes "duration_part orig s = Inr (w, rest)"
  shows "length rest < length s"
proof -
  from assms obtain v s1 where 1: "s \<noteq> []" "leadingInt 0 s = Some (v, s1)"
    by (auto simp: duration_part_def split: if_splits option.splits)
  let ?dot = "s1 \<noteq> [] \<and> hd s1 = CHR ''.''"
  obtain f sc s2 where 2: "(if ?dot then leadingFraction 0 1 False (tl s1) else (0, 1, s1)) = (f, sc, s2)"
    by (metis prod_cases3)
  have "length s2 \<le> length s1"
    using 2 leadingFraction_length [of 0 1 False "tl s1" f sc s2] by (auto split: if_splits)
  moreover have "length s1 \<le> length s" using leadingInt_length [OF 1(2)] .
  moreover have "takeWhile is_unit_char s2 \<noteq> []" "rest = dropWhile is_unit_char s2"
    using assms 1 2 by (auto simp: duration_part_def Let_def split: if_splits option.splits)
  moreover have "length (takeWhile is_unit_char s2) + length (dropWhile is_unit_char s2) = length s2"
    by (metis length_append takeWhile_dropWhile_id)
  ultimately show ?thesis by (cases "takeWhile is_unit_char s2") auto
qed

function duration_loop :: "string \<Rightarrow> int \<Rightarrow> string \<Rightarrow> go_error + int" where
  "duration_loop orig d s =
     (if s = [] then Inr d
      else case duration_part orig s of
        Inl err \<Rightarrow> Inl err
      | Inr (w, rest) \<Rightarrow>
          if d + w > 2 ^ 63 then Inl (invalid_duration orig) else duration_loop orig (d + w) rest)"
  by pat_completeness auto
termination
  by (relation "measure (\<lambda>(orig, d, s). length s)") (auto dest: duration_part_shorter)

declare duration_loop.simps [simp del]

definition ParseDuration :: "string \<Rightarrow> go_error + int" where
  "ParseDuration orig =
     (let signed = (orig \<noteq> [] \<and> (hd orig = CHR ''-'' \<or> hd orig = CHR ''+''));
          neg = (orig \<noteq> [] \<and> hd orig = CHR ''-'');
          s = (if signed then tl orig else orig)
      in if s = ''0'' then Inr 0
         else if s = [] then Inl (invalid_duration orig)
         else case duration_loop orig 0 s of
           Inl err \<Rightarrow> Inl err
         | Inr d \<Rightarrow>
             if neg then Inr (- d)
             else if d > 2 ^ 63 - 1 then Inl (invalid_duration orig) else Inr d)"

text \<open>A parsed duration fits the 64 bits of \<open>time.Duration\<close>, a parsed integer 32 bits.\<close>

lemma digit_of_nonneg: "is_digit c \<Longrightarrow> 0 \<le> digit_of c"
  by (simp add: is_digit_def digit_of_def)

lemma leadingInt_nonneg: "leadingInt x s = Some (v, r) \<Longrightarrow> 0 \<le> x \<Longrightarrow> 0 \<le> v"
  by (induction s arbitrary: x) (auto simp: Let_def digit_of_nonneg split: if_splits)

lemma round_at_nonneg:
  assumes "round_at p q sh ct = (a, b)" "0 \<le> p" "0 \<le> q"
  shows "0 \<le> a \<and> 0 < b"
proof -
  have "0 \<le> p * 2 ^ sh div q"
    using assms(2,3) by (cases "q = 0") (simp_all add: pos_imp_zdiv_nonneg_iff)
  then have m: "0 \<le> (p * 2 ^ sh div q) div 2 ^ ct" by (simp add: pos_imp_zdiv_nonneg_iff)
  obtain up where "a = (if up then (p * 2 ^ sh div q) div 2 ^ ct + 1 else (p * 2 ^ sh div q) div 2 ^ ct) * 2 ^ ct"
      and "b = 2 ^ sh"
    using assms(1) unfolding round_at_def Let_def by (metis prod.inject)
  with m show ?thesis by simp
qed

lemma round53_nonneg: "round53 p q = (a, b) \<Longrightarrow> 0 \<le> q \<Longrightarrow> 0 \<le> a \<and> 0 < b"
  using round_at_nonneg [of p q _ _ a b] by (auto simp: round53_def Let_def split: if_splits)

lemma unit_ns_pos: "unit_ns u = Some n \<Longrightarrow> 0 < n"
  by (auto simp: unit_ns_def split: if_splits)

lemma parse_uint_loop_bound: "parse_uint_loop s0 n s = Inr r \<Longrightarrow> 0 \<le> n \<Longrightarrow> n < 2 ^ 32 \<Longrightarrow> 0 \<le> r \<and> r < 2 ^ 32"
  by (induction s arbitrary: n) (auto simp: Let_def digit_of_nonneg split: if_splits)

lemma ParseUint32_bound: "ParseUint32 s = Inr n \<Longrightarrow> 0 \<le> n \<and> n < 2 ^ 32"
  using parse_uint_loop_bound [of s 0 s n] by (auto simp: ParseUint32_def split: if_splits)

lemma leadingFraction_nonneg:
  "leadingFraction x sc ov s = (f, sc', r) \<Longrightarrow> 0 \<le> x \<Longrightarrow> 0 \<le> sc \<Longrightarrow> 0 \<le> f \<and> 0 \<le> sc'"
  by (induction s arbitrary: x sc ov) (auto simp: Let_def digit_of_nonneg split: if_splits)

lemma fraction_ns_nonneg: "0 \<le> scale \<Longrightarrow> 0 \<le> fraction_ns f scale unit"
proof -
  assume sc: "0 \<le> scale"
  obtain a b where 1: "round53 f 1 = (a, b)" by fastforce
  obtain c d where 2: "round53 unit scale = (c, d)" by fastforce
  obtain x y where 3: "round53 (a * c) (b * d) = (x, y)" by fastforce
  have "0 < b" "0 < d" using round53_nonneg [OF 1] round53_nonneg [OF 2 sc] by simp_all
  with round53_nonneg [OF 3] have "0 \<le> x" "0 < y" by simp_all
  then show ?thesis by (simp add: fraction_ns_def 1 2 3 pos_imp_zdiv_nonneg_iff)
qed

lemma duration_part_nonneg: 
  assumes "duration_part orig s = Inr (w, rest)"
  shows "0 \<le> w"
proof -
  from assms obtain v s1 where 1: "s \<noteq> []" "leadingInt 0 s = Some (v, s1)"
    by (auto simp: duration_part_def split: if_splits option.splits)
  let ?dot = "s1 \<noteq> [] \<and> hd s1 = CHR ''.''"
  obtain f sc s2 where 2: "(if ?dot then leadingFraction 0 1 False (tl s1) else (0, 1, s1)) = (f, sc, s2)"
    by (metis prod_cases3)
  have sc: "0 \<le> sc"
    using 2 leadingFraction_nonneg [of 0 1 False "tl s1" f sc s2] by (auto split: if_splits)
  from assms 1 2 obtain n where n: "unit_ns (takeWhile is_unit_char s2) = Some n"
      "w = v * n + (if f > 0 then fraction_ns f sc n else 0)"
    by (auto simp: duration_part_def Let_def split: if_splits option.splits)
  from unit_ns_pos [OF n(1)] leadingInt_nonneg [OF 1(2)] fraction_ns_nonneg [OF sc] n(2)
  show ?thesis by simp
qed

lemma duration_loop_bound:
  "duration_loop orig d s = Inr r \<Longrightarrow> 0 \<le> d \<Longrightarrow> d \<le> 2 ^ 63 \<Longrightarrow> 0 \<le> r \<and> r \<le> 2 ^ 63"
proof (induction orig d s rule: duration_loop.induct)
  case (1 orig d s)
  show ?case
  proof (cases "s = []")
    case True
    with "1.prems" show ?thesis by (simp add: duration_loop.simps)
  next
    case False
    with "1.prems" obtain w rest where p: "duration_part orig s = Inr (w, rest)" "\<not> d + w > 2 ^ 63"
        "duration_loop orig (d + w) rest = Inr r"
      by (auto simp: duration_loop.simps [of orig d s] split: sum.splits if_splits)
    from duration_part_nonneg [OF p(1)] "1.prems"(2) have "0 \<le> d + w" by simp
    with p show ?thesis by (intro "1.IH" [OF False p(1) refl]) simp_all
  qed
qed

lemma ParseDuration_bounds:
  assumes "ParseDuration s = Inr d"
  shows "- (2 ^ 63) \<le> d" "d < 2 ^ 63"
proof -
  define t where "t = (if s \<noteq> [] \<and> (hd s = CHR ''-'' \<or> hd s = CHR ''+'') then tl s else s)"
  have "(if t = ''0'' then Inr 0 else if t = [] then Inl (invalid_duration s)
      else case duration_loop s 0 t of
           Inl err \<Rightarrow> Inl err
         | Inr d \<Rightarrow> if s \<noteq> [] \<and> hd s = CHR ''-'' then Inr (- d)
             else if d > 2 ^ 63 - 1 then Inl (invalid_duration s) else Inr d) = Inr d"
    using assms unfolding ParseDuration_def Let_def t_def .
  then consider "d = 0" | "duration_loop s 0 t = Inr (- d)"
    | "duration_loop s 0 t = Inr d" "d \<le> 2 ^ 63 - 1"
    by (cases "t = ''0''"; cases "t = []"; cases "duration_loop s 0 t") (auto split: if_split_asm)
  then have "- (2 ^ 63) \<le> d \<and> d < 2 ^ 63"
  proof cases
    case 1
    then show ?thesis by simp
  next
    case 2
    from duration_loop_bound [OF 2] show ?thesis by simp
  next
    case 3
    from duration_loop_bound [OF 3(1)] 3(2) show ?thesis by simp
  qed
  then show "- (2 ^ 63) \<le> d" "d < 2 ^ 63" by simp_all
qed

end
