(* ===== verification/Temp_File.thy ===== *)
theory Temp_File
  imports File_System Go_Numbers
begin

section \<open>Temporary files, renaming and nested directories (package os)\<close>

text \<open>
  \<open>os.CreateTemp\<close>, writing to an open file, \<open>os.Rename\<close> of a file and \<open>os.MkdirAll\<close>, which the
  start-up probe of the daemon and the installation of templates use.
\<close>

definition os_IsExist :: "go_error \<Rightarrow> bool" where
  "os_IsExist e = is_exist_target (underlyingError e)"

definition temp_prefix :: "string \<Rightarrow> string \<Rightarrow> string" where
  "temp_prefix dir pre = (if dir \<noteq> [] \<and> last dir = sep then dir @ pre else dir @ sep # pre)"

text \<open>
  A pattern ends in its star; \<open>rnd\<close> is the random number of each attempt.  An open file is its
  name and its place.
\<close>

function createtemp_loop :: "(nat \<Rightarrow> u32) \<Rightarrow> string \<Rightarrow> nat \<Rightarrow> fsys \<Rightarrow> fsys \<times> (go_error + string \<times> key)" where
  "createtemp_loop rnd pre tries w =
     (let name = pre @ show_nat (unat (rnd tries)) in
      case os_CreateExcl w name 0x180 of
        (w1, Inl err) \<Rightarrow>
          if os_IsExist err then
            (if Suc tries < 10000 then createtemp_loop rnd pre (Suc tries) w1
             else (w1, Inl (PathError ''createtemp'' (pre @ ''*'') (Sentinel FsErrExist))))
          else (w1, Inl err)
      | (w1, Inr k) \<Rightarrow> (w1, Inr (name, k)))"
  by pat_completeness auto
termination
  by (relation "measure (\<lambda>(rnd, pre, tries, w). 10000 - tries)") auto

declare createtemp_loop.simps [simp del]

definition os_CreateTemp :: "(nat \<Rightarrow> u32) \<Rightarrow> fsys \<Rightarrow> string \<Rightarrow> string \<Rightarrow> fsys \<times> (go_error + string \<times> key)" where
  "os_CreateTemp rnd w dir pre = createtemp_loop rnd (temp_prefix dir pre) 0 w"

text \<open>A write that fails writes nothing.\<close>

definition file_Write :: "fsys \<Rightarrow> string \<Rightarrow> key \<Rightarrow> bytes \<Rightarrow> fsys \<times> go_error option" where
  "file_Write w p k d =
     (case (case fault w (SysWrite p) of
              Some e \<Rightarrow> Inl e
            | None \<Rightarrow> (case node_at w k of None \<Rightarrow> Inl EBADF | Some n \<Rightarrow> Inr n)) of
        Inl e \<Rightarrow> (w, Some (path_error ''write'' p e))
      | Inr n \<Rightarrow> (put_node w k (n\<lparr>ndata := ndata n @ d\<rparr>), None))"

text \<open>
  \<open>os.Rename\<close> of a file that is not a directory: a directory at the new name is refused with
  \<open>EEXIST\<close> before the call.  A \<open>*os.LinkError\<close> is the error that wraps the errno.
\<close>

definition link_error :: "string \<Rightarrow> string \<Rightarrow> errno \<Rightarrow> go_error" where
  "link_error old new e =
     WrapErr (''rename '' @ old @ '' '' @ new @ '': '' @ errno_msg e) [Errno e]"

definition os_Rename :: "fsys \<Rightarrow> string \<Rightarrow> string \<Rightarrow> fsys \<times> go_error option" where
  "os_Rename w old new =
     (case guarded w (SysRename old new) (find_node w old False) of
        Inl e \<Rightarrow> (w, Some (link_error old new e))
      | Inr (ko, n) \<Rightarrow>
          (case resolve w new False of
             Inl e \<Rightarrow> (w, Some (link_error old new e))
           | Inr kn \<Rightarrow>
               if dir_at w kn then (w, Some (link_error old new EEXIST))
               else (put_node (del_node w ko) kn n, None)))"

text \<open>\<open>os.MkdirAll\<close> goes up to the first directory there is, by cutting the path before its last
  element, and creates the missing ones on the way down.\<close>

definition parent_path :: "string \<Rightarrow> string" where
  "parent_path p = rev (dropWhile (\<lambda>c. c \<noteq> sep) (dropWhile (\<lambda>c. c = sep) (rev p)))"

lemma parent_path_shorter: "parent_path p \<noteq> [] \<Longrightarrow> length (parent_path p) < length p"
proof -
  assume ne: "parent_path p \<noteq> []"
  let ?q = "dropWhile (\<lambda>c. c = sep) (rev p)"
  have "?q \<noteq> []"
  proof
    assume "?q = []"
    with ne show False unfolding parent_path_def by (simp only: dropWhile.simps(1) rev.simps(1))
  qed
  then have "hd ?q \<noteq> sep" by (rule hd_dropWhile)
  with \<open>?q \<noteq> []\<close> have "length (dropWhile (\<lambda>c. c \<noteq> sep) ?q) < length ?q"
    by (cases ?q) (auto intro: le_imp_less_Suc length_dropWhile_le)
  then show ?thesis
    using length_dropWhile_le [of "\<lambda>c. c = sep" "rev p"] by (simp add: parent_path_def)
qed

function os_MkdirAll :: "fsys \<Rightarrow> string \<Rightarrow> FileMode \<Rightarrow> fsys \<times> go_error option" where
  "os_MkdirAll w p mode =
     (case os_Stat w p of
        Inr n \<Rightarrow> if IsDir n then (w, None) else (w, Some (path_error ''mkdir'' p ENOTDIR))
      | Inl _ \<Rightarrow>
          let (w1, err) = (if parent_path p = [] then (w, None) else os_MkdirAll w (parent_path p) mode)
          in case err of
               Some e \<Rightarrow> (w1, Some e)
             | None \<Rightarrow>
                 (case os_Mkdir w1 p mode of
                    (w2, None) \<Rightarrow> (w2, None)
                  | (w2, Some e) \<Rightarrow>
                      (case os_Lstat w2 p of
                         Inr n \<Rightarrow> if IsDir n then (w2, None) else (w2, Some e)
                       | Inl _ \<Rightarrow> (w2, Some e))))"
  by pat_completeness auto
termination
  by (relation "measure (\<lambda>(w, p, mode). length p)") (auto simp: parent_path_shorter)

declare os_MkdirAll.simps [simp del]

subsection \<open>A temporary file\<close>

lemma show_nat_no_sep: "sep \<notin> set (show_nat n)"
proof (induction n rule: show_nat.induct)
  case (1 n)
  have "digit_char (d mod 10) \<noteq> sep" for d
  proof
    assume "digit_char (d mod 10) = sep"
    then have "(of_char (digit_char (d mod 10)) :: nat) = 47" by simp
    moreover have "d mod 10 < 10" by simp
    ultimately show False by (simp add: digit_char_def)
  qed
  note d = this
  show ?case
  proof (cases "n < 10")
    case True
    with d [of n] show ?thesis by (simp add: show_nat.simps)
  next
    case False
    with 1 d [of n] show ?thesis by (subst show_nat.simps) simp
  qed
qed

lemma plain_temp: "sep \<notin> set pre \<Longrightarrow> 2 < length pre \<Longrightarrow> plain_comp (pre @ show_nat n)"
proof -
  assume a: "sep \<notin> set pre" "2 < length pre"
  have l: "length (pre @ show_nat n) > 2" using a(2) by simp
  have "pre @ show_nat n \<noteq> x" if "length x \<le> 2" for x
    using l that by (metis not_less)
  from this [of "[]"] this [of "''.''"] this [of "''..''"] a(1) show_nat_no_sep [of n]
  show ?thesis unfolding plain_comp_def by simp
qed

lemma temp_prefix_Join:
  assumes "plain_comps ps" "sep \<notin> set pre" "2 < length pre"
  shows "temp_prefix (render True ps) pre @ show_nat n = Join [render True ps, pre @ show_nat n]"
proof -
  have j: "Join [render True ps, pre @ show_nat n] = render True (ps @ [pre @ show_nat n])"
    using Join_name [of ps "pre @ show_nat n"] assms plain_temp [of pre n] by simp
  show ?thesis
  proof (cases ps rule: rev_cases)
    case Nil
    then show ?thesis unfolding j by (simp add: temp_prefix_def render_def)
  next
    case (snoc qs c)
    with assms(1) have "c \<noteq> []" "sep \<notin> set c" by (auto dest: plain_compD)
    then have "last (render True ps) \<noteq> sep"
      using snoc by (cases "qs = []") (auto simp: render_def join_with_append dest: last_in_set)
    moreover have "render True (ps @ [x]) = render True ps @ sep # x" for x
      using snoc by (simp add: render_def join_with_append del: append_assoc)
    ultimately show ?thesis unfolding j by (simp add: temp_prefix_def)
  qed
qed

lemma createtemp_result:
  assumes "leads w (render True ps) k" "plain_comps ps" "dir_at w k" "sep \<notin> set pre" "2 < length pre"
    and "createtemp_loop rnd (temp_prefix (render True ps) pre) tries w = (w', r)"
  shows "case r of Inl e \<Rightarrow> w' = w | Inr (p, q) \<Rightarrow>
      \<exists>n. p = Join [render True ps, pre @ show_nat n] \<and> q = k @ [pre @ show_nat n] \<and> node_at w q = None \<and>
        at w p q \<and> plain_comp (pre @ show_nat n) \<and> w' = put_node w q (new_file w 0x180)"
  using assms(6)
proof (induction "10000 - tries" arbitrary: tries rule: less_induct)
  case less
  let ?t = "pre @ show_nat (unat (rnd tries))"
  let ?p = "Join [render True ps, ?t]"
  have name: "temp_prefix (render True ps) pre @ show_nat (unat (rnd tries)) = ?p" and t: "plain_comp ?t"
    using temp_prefix_Join [OF assms(2,4,5)] plain_temp [OF assms(4,5)] by simp_all
  show ?case
  proof (cases "os_CreateExcl w ?p 0x180")
    case (Pair w1 x)
    show ?thesis
    proof (cases x)
      case (Inl e)
      with Pair have "w1 = w" by (auto dest: CreateExcl_Inl)
      show ?thesis
      proof (cases "os_IsExist e \<and> Suc tries < 10000")
        case True
        then have "createtemp_loop rnd (temp_prefix (render True ps) pre) (Suc tries) w = (w', r)"
          using less.prems Pair Inl \<open>w1 = w\<close>
          by (subst (asm) createtemp_loop.simps) (simp add: name Let_def)
        with True show ?thesis by (intro less.hyps) auto
      next
        case False
        then have "w' = w \<and> (\<exists>e. r = Inl e)"
          using less.prems Pair Inl \<open>w1 = w\<close>
          by (subst (asm) createtemp_loop.simps) (auto simp: name Let_def split: if_splits)
        then show ?thesis by auto
      qed
    next
      case (Inr q)
      from Pair Inr have q: "resolve w ?p False = Inr q" "node_at w q = None"
          "w1 = put_node w q (new_file w 0x180)"
        by (auto simp: os_CreateExcl_def guarded_def free_place_def
            split: option.splits sum.splits if_splits)
      note c = resolve_child [OF assms(1) t q(1)]
      have "at w ?p (k @ [?t])" using assms(1,3) t c(3) q(2) by (intro at_child) (auto simp: c(1))
      moreover have "w' = w1" "r = Inr (?p, q)"
        using less.prems Pair Inr by (subst (asm) createtemp_loop.simps; auto simp: name Let_def)+
      ultimately show ?thesis using c(1) q t by auto
    qed
  qed
qed

lemma length_u32: "length (show_nat (unat (v :: u32))) \<le> 10"
proof -
  have "unat v < 2 ^ LENGTH(32)" by (rule unsigned_less)
  then show ?thesis by (intro length_show_nat) simp_all
qed

lemma length_temp:
  assumes "plain_comps ps" "sep \<notin> set pre" "2 < length pre" "length pre \<le> m"
    and "length (render True ps) + m + 11 < PATH_MAX"
  shows "length (Join [render True ps, pre @ show_nat (unat (v :: u32))]) < PATH_MAX"
  using length_u32 [of v] assms(4,5)
  by (simp flip: temp_prefix_Join [OF assms(1-3)] add: temp_prefix_def)

lemma CreateTemp_result:
  assumes "leads w (render True ps) k" "plain_comps ps" "dir_at w k" "sep \<notin> set pre" "2 < length pre"
    and "os_CreateTemp rnd w (render True ps) pre = (w', r)"
  shows "case r of Inl e \<Rightarrow> w' = w | Inr (p, q) \<Rightarrow>
      \<exists>n. p = Join [render True ps, pre @ show_nat n] \<and> q = k @ [pre @ show_nat n] \<and> node_at w q = None \<and>
        at w p q \<and> plain_comp (pre @ show_nat n) \<and> w' = put_node w q (new_file w 0x180)"
  using createtemp_result [OF assms(1-5)] assms(6) unfolding os_CreateTemp_def .

lemma CreateTemp_ok:
  assumes "leads w (render True ps) k" "plain_comps ps" "dir_at w k" "sep \<notin> set pre" "2 < length pre"
    and "\<And>p. fault w (SysCreate p) = None"
    and "\<And>n. node_at w (k @ [pre @ show_nat n]) = None"
    and "\<And>v :: u32. length (Join [render True ps, pre @ show_nat (unat v)]) < PATH_MAX"
  shows "\<exists>w' f. os_CreateTemp rnd w (render True ps) pre = (w', Inr f)"
proof -
  let ?t = "pre @ show_nat (unat (rnd 0))"
  have t: "plain_comp ?t" by (rule plain_temp [OF assms(4,5)])
  have "at w (Join [render True ps, ?t]) (k @ [?t])"
    using assms(1,3,7,8) t by (intro at_child) auto
  then have "\<exists>w' q. os_CreateExcl w (Join [render True ps, ?t]) 0x180 = (w', Inr q)"
    using assms(6,7) by (simp add: os_CreateExcl_def guarded_def free_place_def at_resolve)
  then show ?thesis
    unfolding os_CreateTemp_def
    by (subst createtemp_loop.simps) (auto simp: temp_prefix_Join [OF assms(2,4,5)] Let_def)
qed

lemma MkdirAll_dir:
  assumes "leads w (render True ps) k" "dir_at w k" "fault w (SysStat (render True ps)) = None"
  shows "os_MkdirAll w (render True ps) m = (w, None)"
proof -
  obtain n where "node_at w k = Some n" "ntype n = TDir"
    using assms(2) by (auto simp: dir_at_def split: option.splits)
  then have "os_Stat w (render True ps) = Inr n"
    using assms(1,3) by (simp add: os_Stat_def guarded_def find_node_def leads_resolve)
  with \<open>ntype n = TDir\<close> show ?thesis by (subst os_MkdirAll.simps) simp
qed

subsection \<open>States that differ in temporary files only\<close>

text \<open>
  \<open>only_temps w k X w'\<close>: from \<open>w\<close> to \<open>w'\<close> nothing changed but the entries \<open>X\<close> of the directory
  \<open>k\<close>, which were free and are free or regular files now.
\<close>

definition only_temps :: "fsys \<Rightarrow> key \<Rightarrow> key set \<Rightarrow> fsys \<Rightarrow> bool" where
  "only_temps w k X w' \<longleftrightarrow> same_env w w' \<and> dir_at w k \<and> (\<forall>q. q \<notin> X \<longrightarrow> node_at w' q = node_at w q) \<and>
     (\<forall>q\<in>X. (\<exists>c. q = k @ [c] \<and> plain_comp c) \<and> node_at w q = None \<and>
        (\<forall>n. node_at w' q = Some n \<longrightarrow> ntype n = TReg))"

lemma only_temps_refl: "dir_at w k \<Longrightarrow> only_temps w k {} w"
  by (simp add: only_temps_def)

lemma only_temps_fault: "only_temps w k X w' \<Longrightarrow> fault w' = fault w"
  by (simp add: only_temps_def same_env_def)

lemma only_temps_same: "only_temps w k X w' \<Longrightarrow> q \<notin> X \<Longrightarrow> node_at w' q = node_at w q"
  by (simp add: only_temps_def)

lemma only_temps_ext: "only_temps w k X w' \<Longrightarrow> fs_ext w w'"
  unfolding only_temps_def fs_ext_def by (metis option.distinct(1))

lemma only_temps_wf:
  assumes "only_temps w k X w'" "wf_fs w"
  shows "wf_fs w'"
proof -
  have d: "dir_at w' q" if "dir_at w q" for q
    using fs_ext_dir [OF only_temps_ext [OF assms(1)] that] .
  have "plain_comp c \<and> dir_at w' q" if n: "node_at w' (q @ [c]) \<noteq> None" for q c
  proof (cases "q @ [c] \<in> X")
    case True
    with assms(1) have "q = k" "plain_comp c" "dir_at w k" by (auto simp: only_temps_def)
    with d show ?thesis by blast
  next
    case False
    with assms n have "node_at w (q @ [c]) \<noteq> None" by (simp add: only_temps_def)
    with assms(2) d show ?thesis by (auto dest: wf_fs_child)
  qed
  with d [OF wf_fs_root [OF assms(2)]] assms show ?thesis
    unfolding wf_fs_def [of w'] by (auto simp: only_temps_def same_env_def wf_fs_def)
qed

lemma only_temps_at:
  assumes "only_temps w k X w'" "wf_fs w" "q \<in> X" "at w p q"
  shows "at w' p q"
  using assms(1,3) by (intro at_free_ext [OF assms(4) _ assms(2) only_temps_ext [OF assms(1)]])
    (auto simp: only_temps_def)

lemma only_temps_put:
  "only_temps w k X w' \<Longrightarrow> q = k @ [c] \<Longrightarrow> plain_comp c \<Longrightarrow> node_at w q = None \<Longrightarrow> ntype n = TReg \<Longrightarrow>
   only_temps w k (insert q X) (put_node w' q n)"
  by (auto simp: only_temps_def fs_simps same_env_def)

lemma only_temps_put_old:
  "only_temps w k X w' \<Longrightarrow> q \<in> X \<Longrightarrow> ntype n = TReg \<Longrightarrow> only_temps w k X (put_node w' q n)"
  by (auto simp: only_temps_def fs_simps same_env_def)

text \<open>Removing a temporary file leaves one difference less.\<close>

lemma only_temps_Remove:
  assumes "only_temps w k X w'" "wf_fs w" "q \<in> X" "at w p q" "fault w (SysRemove p) = None"
  shows "only_temps w k (X - {q}) (fst (os_Remove w' p))"
proof (cases "node_at w' q")
  case None
  with only_temps_at [OF assms(1-4)] have "fst (os_Remove w' p) = w'"
    by (simp add: os_Remove_def guarded_def find_node_def at_resolve split: option.splits)
  moreover have "node_at w q = None" using assms(1,3) by (auto simp: only_temps_def)
  ultimately show ?thesis using assms(1) None by (auto simp: only_temps_def)
next
  case (Some n)
  then have "ntype n = TReg" using assms(1,3) by (auto simp: only_temps_def)
  then have "fst (os_Remove w' p) = del_node w' q"
    using only_temps_at [OF assms(1-4)] Some assms(5) only_temps_fault [OF assms(1)]
    by (simp add: os_Remove_def guarded_def find_node_def at_resolve)
  moreover have "node_at w q = None" using assms(1,3) by (auto simp: only_temps_def)
  ultimately show ?thesis using assms(1) by (auto simp: only_temps_def fs_simps same_env_def)
qed

lemma only_temps_CreateTemp:
  assumes "only_temps w k X w'" "leads w (render True ps) k" "plain_comps ps"
    and "sep \<notin> set pre" "2 < length pre"
    and "os_CreateTemp rnd w' (render True ps) pre = (w2, r)"
  shows "case r of Inl e \<Rightarrow> w2 = w'
    | Inr (p, q) \<Rightarrow> only_temps w k (insert q X) w2 \<and> at w p q \<and> node_at w' q = None \<and>
        w2 = put_node w' q (new_file w' 0x180)"
proof -
  have d: "dir_at w k" using assms(1) by (simp add: only_temps_def)
  note ext = only_temps_ext [OF assms(1)]
  note c = CreateTemp_result [OF leads_ext [OF assms(2) d ext] assms(3) fs_ext_dir [OF ext d] assms(4-6)]
  show ?thesis
  proof (cases r)
    case (Inl e)
    with c show ?thesis by simp
  next
    case (Inr f)
    then obtain p q where r: "r = Inr (p, q)" by (cases f) simp
    with c obtain n where n: "p = Join [render True ps, pre @ show_nat n]" "q = k @ [pre @ show_nat n]"
        "node_at w' q = None" "at w' p q" "plain_comp (pre @ show_nat n)"
        "w2 = put_node w' q (new_file w' 0x180)" by auto
    have free: "node_at w q = None"
      using assms(1) n(3) by (cases "q \<in> X") (auto simp: only_temps_def)
    have "length p < PATH_MAX" using n(4) by (auto simp: at_def)
    with n(1,2,5) free d assms(2) have "at w p q" by (auto intro: at_child)
    moreover have "only_temps w k (insert q X) w2"
      unfolding n(6) by (rule only_temps_put [OF assms(1) n(2,5) free]) (simp add: new_file_def)
    ultimately show ?thesis using r n by simp
  qed
qed

text \<open>A handle to a temporary file writes to it.\<close>

lemma only_temps_Write:
  assumes "only_temps w k X w'" "q \<in> X" "node_at w' q = Some n" "file_Write w' p q d = (w2, r)"
  shows "only_temps w k X w2" "r = None \<Longrightarrow> node_at w2 q = Some (n\<lparr>ndata := ndata n @ d\<rparr>)"
    "r \<noteq> None \<Longrightarrow> w2 = w'"
proof -
  have "ntype n = TReg" using assms(1-3) by (auto simp: only_temps_def)
  with assms show "only_temps w k X w2" "r = None \<Longrightarrow> node_at w2 q = Some (n\<lparr>ndata := ndata n @ d\<rparr>)"
    "r \<noteq> None \<Longrightarrow> w2 = w'"
    by (auto simp: file_Write_def fs_simps split: option.splits sum.splits intro: only_temps_put_old)
qed

lemma only_temps_file_Chmod:
  assumes "only_temps w k X w'" "q \<in> X" "node_at w' q = Some n" "file_Chmod w' p q m = (w2, r)"
  shows "only_temps w k X w2" "r = None \<Longrightarrow> node_at w2 q = Some (n\<lparr>nperm := m AND ModeBits\<rparr>)"
proof -
  have "ntype n = TReg" using assms(1-3) by (auto simp: only_temps_def)
  with assms show "only_temps w k X w2" "r = None \<Longrightarrow> node_at w2 q = Some (n\<lparr>nperm := m AND ModeBits\<rparr>)"
    by (auto simp: file_Chmod_def fs_simps split: option.splits sum.splits intro: only_temps_put_old)
qed

end
