(* ===== verification/Validate.thy ===== *)
theory Validate
  imports Protocol File_System
begin

section \<open>Path validation (internal/validate)\<close>

text \<open>
  \<open>validate.go\<close>: the lexical checks both sides make on paths (\<open>NormalizeRelative\<close>,
  \<open>GuestToRelative\<close>, \<open>ResolveGuestArgument\<close>), the daemon's resolution of a path below the
  share root, and the checks on the file found there.  \<open>securejoin.SecureJoin\<close> is a
  third-party function: the parameter \<open>sj\<close>, of which \<open>securejoin_contract\<close> states what
  \<open>validate.go\<close> relies on.  The parameter \<open>wd\<close> is the result of \<open>os.Getwd\<close>.
\<close>

type_synonym securejoin = "fsys \<Rightarrow> string \<Rightarrow> string \<Rightarrow> go_error + string"

definition outside_root_message :: string where
  "outside_root_message = ''path must stay within the shared root''"

definition outside_mount_message :: string where
  "outside_mount_message = ''path must stay within the guest mount root''"

definition NormalizeRelative :: "string \<Rightarrow> go_error + string" where
  "NormalizeRelative path =
     (if path = [] then Inl (NewError CodeEINVAL ''path is required'')
      else
        let clean = Clean (FromSlash path) in
        if clean = ''.'' then Inr ''.''
        else if IsAbs clean then Inl (NewError CodeEPERM ''absolute paths are not allowed'')
        else if clean = ''..'' \<or> has_prefix clean (''..'' @ [sep])
          then Inl (NewError CodeEPERM outside_root_message)
        else Inr (ToSlash clean))"

definition validate_Request :: "Request \<Rightarrow> go_error option" where
  "validate_Request req =
     (case Request_Validate req of
        Some err \<Rightarrow> Some err
      | None \<Rightarrow>
          (case NormalizeRelative (Src req) of
             Inl err \<Rightarrow> Some err
           | Inr _ \<Rightarrow>
               (case NormalizeRelative (Dst req) of Inl err \<Rightarrow> Some err | Inr _ \<Rightarrow> None)))"

definition normalizeRoot :: "go_error + string \<Rightarrow> string \<Rightarrow> go_error + string" where
  "normalizeRoot wd root =
     (if root = [] then Inl (NewError CodeEINVAL ''share root is required'')
      else (case Abs wd root of
              Inl err \<Rightarrow> Inl (WrapErr (''resolve share root: '' @ error_msg err) [err])
            | Inr absRoot \<Rightarrow> Inr (Clean absRoot)))"

definition GuestToRelative :: "go_error + string \<Rightarrow> string \<Rightarrow> string \<Rightarrow> go_error + string" where
  "GuestToRelative wd mountRoot guestPath =
     (case normalizeRoot wd mountRoot of
        Inl err \<Rightarrow> Inl err
      | Inr root \<Rightarrow>
          let cleanGuest = Clean guestPath in
          if \<not> IsAbs cleanGuest
          then Inl (NewError CodeEPERM ''guest paths must be absolute'')
          else (case Rel root cleanGuest of
                  Inl msg \<Rightarrow>
                    Inl (WrapError CodeEPERM outside_mount_message (ErrorString msg))
                | Inr rel \<Rightarrow>
                    (case NormalizeRelative rel of
                       Inl err \<Rightarrow> Inl (NewError CodeEPERM outside_mount_message)
                     | Inr normalized \<Rightarrow> Inr normalized)))"

definition ResolveGuestArgument ::
  "go_error + string \<Rightarrow> string \<Rightarrow> string \<Rightarrow> string \<Rightarrow> go_error + string" where
  "ResolveGuestArgument wd mountRoot cwd_arg arg =
     (if arg = [] then Inl (NewError CodeEINVAL ''path is required'')
      else
        let guestPath = (if IsAbs arg then arg else Join [cwd_arg, arg])
        in GuestToRelative wd mountRoot guestPath)"

text \<open>The daemon's side.\<close>

definition resolvePath ::
  "securejoin \<Rightarrow> fsys \<Rightarrow> string \<Rightarrow> string \<Rightarrow> go_error + (string \<times> string \<times> string)" where
  "resolvePath sj w root rel =
     (case normalizeRoot (cwd w) root of
        Inl err \<Rightarrow> Inl err
      | Inr rootPath \<Rightarrow>
          (case NormalizeRelative rel of
             Inl err \<Rightarrow> Inl err
           | Inr cleanRel \<Rightarrow>
               (case sj w rootPath cleanRel of
                  Inl err \<Rightarrow> Inl (WrapError CodeEPERM outside_root_message err)
                | Inr resolved \<Rightarrow> Inr (rootPath, cleanRel, resolved))))"

fun reject_loop ::
  "fsys \<Rightarrow> string \<Rightarrow> string list \<Rightarrow> bool \<Rightarrow> string \<Rightarrow> go_error option" where
  "reject_loop w current [] allowMissingLeaf missingMessage = None"
| "reject_loop w current (part # parts) allowMissingLeaf missingMessage =
     (let current = Join [current, part] in
      case os_Lstat w current of
        Inl err \<Rightarrow>
          if os_IsNotExist err then
            (if allowMissingLeaf \<and> parts = [] then None
             else Some (WrapError CodeENOENT missingMessage err))
          else Some err
      | Inr info \<Rightarrow>
          if Mode info AND ModeSymlink \<noteq> 0
          then Some (NewError CodeEINVAL ''symlinks are not supported'')
          else reject_loop w current parts allowMissingLeaf missingMessage)"

definition rejectSymlinkComponents ::
  "fsys \<Rightarrow> string \<Rightarrow> string \<Rightarrow> bool \<Rightarrow> string \<Rightarrow> go_error option" where
  "rejectSymlinkComponents w root rel allowMissingLeaf missingMessage =
     (if rel = ''.'' then None
      else reject_loop w root (split_on sep (FromSlash rel)) allowMissingLeaf missingMessage)"

definition ResolveSource ::
  "securejoin \<Rightarrow> fsys \<Rightarrow> string \<Rightarrow> string \<Rightarrow> go_error + (string \<times> node)" where
  "ResolveSource sj w root rel =
     (case resolvePath sj w root rel of
        Inl err \<Rightarrow> Inl err
      | Inr (rootPath, cleanRel, resolved) \<Rightarrow>
          (case rejectSymlinkComponents w rootPath cleanRel False ''source not found'' of
             Some err \<Rightarrow> Inl err
           | None \<Rightarrow>
               (case os_Lstat w resolved of
                  Inl err \<Rightarrow>
                    if os_IsNotExist err then Inl (WrapError CodeENOENT ''source not found'' err)
                    else Inl err
                | Inr info \<Rightarrow> Inr (resolved, info))))"

definition ResolveDestination ::
  "securejoin \<Rightarrow> fsys \<Rightarrow> string \<Rightarrow> string \<Rightarrow> go_error + (string \<times> string)" where
  "ResolveDestination sj w root rel =
     (case resolvePath sj w root rel of
        Inl err \<Rightarrow> Inl err
      | Inr (rootPath, cleanRel, resolved) \<Rightarrow>
          (case rejectSymlinkComponents w rootPath cleanRel True
                  ''destination parent does not exist'' of
             Some err \<Rightarrow> Inl err
           | None \<Rightarrow>
               (case os_Lstat w resolved of
                  Inr _ \<Rightarrow> Inl (NewError CodeEEXIST ''destination already exists'')
                | Inl err \<Rightarrow>
                    if \<not> os_IsNotExist err then Inl err
                    else
                      let parentRel = Dir (FromSlash cleanRel) in
                      (case sj w rootPath parentRel of
                         Inl err \<Rightarrow> Inl (WrapError CodeEPERM outside_root_message err)
                       | Inr parentPath \<Rightarrow>
                           (case os_Lstat w parentPath of
                              Inl err \<Rightarrow>
                                if os_IsNotExist err
                                then Inl (WrapError CodeENOENT
                                       ''destination parent does not exist'' err)
                                else Inl err
                            | Inr parentInfo \<Rightarrow>
                                if Mode parentInfo AND ModeSymlink \<noteq> 0
                                then Inl (NewError CodeEINVAL ''symlinks are not supported'')
                                else if \<not> IsDir parentInfo
                                then Inl (NewError CodeEINVAL
                                       ''destination parent must be a directory'')
                                else Inr (resolved, parentPath))))))"

definition RequireRegularFile :: "node \<Rightarrow> go_error option" where
  "RequireRegularFile info =
     (if Mode info AND ModeSymlink \<noteq> 0
      then Some (NewError CodeEINVAL ''symlinks are not supported'')
      else if IsRegular (Mode info) then None
      else Some (NewError CodeEINVAL ''source must be a regular file''))"

definition RequireDirectory :: "node \<Rightarrow> go_error option" where
  "RequireDirectory info =
     (if Mode info AND ModeSymlink \<noteq> 0
      then Some (NewError CodeEINVAL ''symlinks are not supported'')
      else if IsDir info then None
      else Some (NewError CodeEINVAL ''source must be a directory''))"

text \<open>On Linux \<open>info.Sys()\<close> always is a \<open>*syscall.Stat_t\<close>.\<close>

definition RejectHardlink :: "node \<Rightarrow> go_error option" where
  "RejectHardlink info =
     (if nlink info > 1
      then Some (NewError CodeEINVAL ''hard links are not supported'') else None)"

subsection \<open>Relative paths\<close>

text \<open>
  \<open>rel_comps p\<close> are the components of a path that may name something below the root; a path
  is contained when none of them climbs out.
\<close>

definition rel_comps :: "string \<Rightarrow> string list" where
  "rel_comps p = clean_comps False (split_on sep p)"

definition contained :: "string \<Rightarrow> bool" where
  "contained p \<longleftrightarrow> p \<noteq> [] \<and> \<not> IsAbs p \<and> plain_comps (rel_comps p)"

lemma rel_comps_normal [simp]: "normal_comps False (rel_comps p)"
  by (simp add: rel_comps_def)

lemma rel_comps_render [simp]: "plain_comps cs \<Longrightarrow> rel_comps (render False cs) = cs"
  by (simp add: rel_comps_def split_render plain_imp_normal)

lemma climbs_iff:
  assumes "normal_comps False cs" "cs \<noteq> []"
  shows "render False cs = ''..'' \<or> has_prefix (render False cs) (''..'' @ [sep]) \<longleftrightarrow> hd cs = ''..''"
proof -
  obtain c ds where cs: "cs = c # ds" using assms(2) by (cases cs) auto
  have c: "c \<noteq> []" "sep \<notin> set c" using normal_no_skip [OF assms(1), of c] cs by auto
  show ?thesis
  proof (cases "ds = []")
    case True
    with cs c show ?thesis by (auto simp: render_def has_prefix_iff prefix_def)
  next
    case False
    have "has_prefix (c @ sep # r) (''..'' @ [sep]) \<longleftrightarrow> c = ''..''" for r
    proof
      assume "has_prefix (c @ sep # r) (''..'' @ [sep])"
      then obtain zs where z: "c @ sep # r = ''..'' @ sep # zs" by (auto simp: has_prefix_iff prefix_def)
      then have "split_on sep (c @ sep # r) = split_on sep (''..'' @ sep # zs)" by (simp only:)
      moreover have "split_on sep (c @ sep # r) = c # split_on sep r"
        using c by (simp add: split_on_append_sep)
      moreover have "split_on sep (''..'' @ sep # zs) = ''..'' # split_on sep zs"
        by (rule split_on_append_sep) simp
      ultimately show "c = ''..''" by simp
    qed (simp add: has_prefix_iff prefix_def)
    moreover have "render False cs = c @ sep # join_with sep ds"
      using cs False by (simp add: render_def join_with_Cons)
    moreover have "c @ sep # join_with sep ds \<noteq> ''..''"
    proof
      assume "c @ sep # join_with sep ds = ''..''"
      then have "sep \<in> set ''..''" by (metis in_set_conv_decomp)
      then show False by simp
    qed
    ultimately show ?thesis using cs by simp
  qed
qed

lemma render_dot_iff: "normal_comps False cs \<Longrightarrow> render False cs = ''.'' \<longleftrightarrow> cs = []"
  using render_inject [of False cs "[]"] by (auto simp: render_def [of False "[]"])

text \<open>\<open>NormalizeRelative\<close> succeeds exactly on contained paths, and its result is their clean form.\<close>

lemma NormalizeRelative_Inr:
  "NormalizeRelative p = Inr r \<longleftrightarrow> contained p \<and> r = render False (rel_comps p)"
proof (cases "p = [] \<or> IsAbs p")
  case True
  then show ?thesis
    by (auto simp: NormalizeRelative_def contained_def FromSlash_def Clean_abs Let_def)
next
  case False
  then have c: "Clean p = render False (rel_comps p)"
    by (simp add: Clean_relative rel_comps_def)
  have na: "\<not> IsAbs (render False (rel_comps p))" by simp
  show ?thesis
  proof (cases "rel_comps p = []")
    case True
    with False c show ?thesis
      by (auto simp: NormalizeRelative_def contained_def FromSlash_def render_def)
  next
    case ne: False
    with False c na climbs_iff [OF rel_comps_normal ne] normal_head_safe [OF rel_comps_normal, of p]
      render_dot_iff [OF rel_comps_normal, of p]
    show ?thesis
      by (auto simp: NormalizeRelative_def contained_def FromSlash_def ToSlash_def Let_def)
  qed
qed

lemma NormalizeRelative_Inl:
  "NormalizeRelative p = Inl e \<Longrightarrow>
   \<exists>m. e = NewError (if p = [] then CodeEINVAL else CodeEPERM) m"
  by (auto simp: NormalizeRelative_def Let_def split: if_splits)

lemma contained_render [simp]: "plain_comps cs \<Longrightarrow> contained (render False cs)"
  by (simp add: contained_def plain_imp_normal)

subsection \<open>Guest paths\<close>

lemma normalizeRoot_abs: "IsAbs m \<Longrightarrow> normalizeRoot wd m = Inr (Clean m)"
  by (auto simp: normalizeRoot_def Abs_def IsAbs_not_Nil)

lemma normalizeRoot_clean:
  "normalizeRoot wd m = Inr root \<Longrightarrow> Clean root = root"
  by (auto simp: normalizeRoot_def split: if_splits sum.splits)

lemma normalizeRoot_rendered:
  assumes "normalizeRoot wd m = Inr root" "IsAbs m \<or> (\<exists>d. wd = Inr d \<and> IsAbs d)"
  shows "root = render True (abs_comps root)" "IsAbs root"
proof -
  show a: "IsAbs root"
    using assms by (auto simp: normalizeRoot_def Abs_def split: if_splits)
  show "root = render True (abs_comps root)"
    using Clean_abs [OF a] normalizeRoot_clean [OF assms(1)] by simp
qed

lemma climbing_not_contained:
  assumes "bs \<noteq> []" "plain_comps ts"
  shows "\<not> contained (join_with sep (map (\<lambda>_. ''..'') bs @ ts))"
proof -
  let ?cs = "map (\<lambda>_. ''..'') bs @ ts"
  have n: "normal_comps False ?cs"
    unfolding normal_relative
    using assms(2) by (intro exI [of _ "length bs"] exI [of _ ts]) (simp add: map_replicate_const)
  have j: "join_with sep ?cs = render False ?cs" using assms(1) by (simp add: render_def)
  have "rel_comps (render False ?cs) = ?cs"
    unfolding rel_comps_def by (rule split_render [OF n])
  moreover have "\<not> plain_comps ?cs" using assms(1) by (cases bs) simp_all
  ultimately show ?thesis unfolding j contained_def by simp
qed

lemma GuestToRelative_eq:
  assumes "normalizeRoot wd m = Inr root" "IsAbs root"
  shows "GuestToRelative wd m g =
    (if \<not> IsAbs g then Inl (NewError CodeEPERM ''guest paths must be absolute'')
     else if prefix (abs_comps root) (abs_comps g)
     then Inr (render False (drop (length (abs_comps root)) (abs_comps g)))
     else Inl (NewError CodeEPERM outside_mount_message))"
proof (cases "IsAbs g")
  case False
  with assms show ?thesis by (simp add: GuestToRelative_def)
next
  case True
  let ?r = "abs_comps root" and ?g = "abs_comps g"
  obtain bs ts where st: "strip_common ?r ?g = (bs, ts)" by fastforce
  then obtain ps where ps: "?r = ps @ bs" "?g = ps @ ts" "bs = [] \<or> ts = [] \<or> hd bs \<noteq> hd ts"
    using strip_common_spec by blast
  have plain: "plain_comps ts" using abs_comps_plain [of g] ps(2) by (metis plain_comps_append)
  show ?thesis
  proof (cases "bs = []")
    case True
    with ps have "?g = ?r @ ts" by simp
    then have "Rel root (Clean g) = Inr (render False ts)"
      using assms(2) \<open>IsAbs g\<close> by (intro Rel_under) simp_all
    moreover have "NormalizeRelative (render False ts) = Inr (render False ts)"
      using plain by (simp add: NormalizeRelative_Inr)
    moreover have "prefix ?r ?g" "drop (length ?r) ?g = ts" using \<open>?g = ?r @ ts\<close> by simp_all
    ultimately show ?thesis using assms \<open>IsAbs g\<close> by (simp add: GuestToRelative_def)
  next
    case False
    with ps have np: "\<not> prefix ?r ?g" by (auto simp: prefix_def)
    then have ne: "?r \<noteq> ?g" by auto
    have "Rel root (Clean g) = Inr (join_with sep (map (\<lambda>_. ''..'') bs @ ts))"
      using assms(2) \<open>IsAbs g\<close> st ne by (simp add: Rel_abs)
    moreover obtain e where
        "NormalizeRelative (join_with sep (map (\<lambda>_. ''..'') bs @ ts)) = Inl e"
      using climbing_not_contained [OF False plain] NormalizeRelative_Inr
      by (cases "NormalizeRelative (join_with sep (map (\<lambda>_. ''..'') bs @ ts))") blast+
    ultimately show ?thesis using assms \<open>IsAbs g\<close> np by (simp add: GuestToRelative_def)
  qed
qed

text \<open>A guest path and its relative form name the same place below the mount root.\<close>

lemma GuestToRelative_roundtrip:
  assumes "normalizeRoot wd m = Inr root" "IsAbs root" "GuestToRelative wd m g = Inr r"
  shows "contained r" "Join [root, r] = Clean g" "NormalizeRelative r = Inr r"
proof -
  from assms obtain cs where g: "IsAbs g" "abs_comps g = abs_comps root @ cs"
      "r = render False cs"
    by (auto simp: GuestToRelative_eq prefix_def split: if_splits)
  then have cs: "plain_comps cs" using abs_comps_plain [of g] by simp
  with g show "contained r" "NormalizeRelative r = Inr r" by (simp_all add: NormalizeRelative_Inr)
  have "root = render True (abs_comps root)"
    using assms normalizeRoot_clean Clean_abs by metis
  then show "Join [root, r] = Clean g"
    using g cs Join_render [OF abs_comps_plain [of root] cs] Clean_abs by metis
qed

subsection \<open>Requests\<close>

lemma validate_Request_None:
  "validate_Request r = None \<longleftrightarrow>
     Request_Validate r = None \<and> contained (Src r) \<and> contained (Dst r)"
proof -
  have "contained p \<longleftrightarrow> (\<exists>q. NormalizeRelative p = Inr q)" for p
    by (simp add: NormalizeRelative_Inr)
  then show ?thesis
    by (auto simp: validate_Request_def split: option.splits sum.splits)
qed

lemma validate_Request_code:
  assumes "validate_Request r = Some e"
  shows "\<exists>m. e = NewError CodeEINVAL m \<or> e = NewError CodeEPERM m"
proof (cases "Request_Validate r")
  case (Some x)
  with assms Request_Validate_EINVAL [OF Some] show ?thesis by (auto simp: validate_Request_def)
next
  case None
  with assms obtain p where "NormalizeRelative p = Inl e"
    by (auto simp: validate_Request_def split: sum.splits)
  from NormalizeRelative_Inl [OF this] show ?thesis by auto
qed

subsection \<open>Resolution below the share root\<close>

text \<open>
  What \<open>validate.go\<close> relies on from \<open>securejoin.SecureJoin\<close>: where no component below the
  root is a symbolic link, the scoped join of a clean root and a contained path is their
  plain join, if it returns a path at all.
\<close>

definition no_link_below :: "fsys \<Rightarrow> string \<Rightarrow> string list \<Rightarrow> bool" where
  "no_link_below w root cs \<longleftrightarrow>
     (\<forall>xs ys k n. cs = xs @ ys \<and> xs \<noteq> [] \<and>
        find_node w (Join [root, render False xs]) False = Inr (k, n) \<longrightarrow> ntype n \<noteq> TSymlink)"

definition securejoin_contract :: "securejoin \<Rightarrow> bool" where
  "securejoin_contract sj \<longleftrightarrow>
     (\<forall>w root cs p. IsAbs root \<and> Clean root = root \<and> plain_comps cs \<and> no_link_below w root cs \<and>
        sj w root (render False cs) = Inr p \<longrightarrow> p = Join [root, render False cs])"

lemma no_link_below_butlast: "no_link_below w root cs \<Longrightarrow> no_link_below w root (butlast cs)"
proof -
  assume n: "no_link_below w root cs"
  have "\<exists>zs. cs = butlast cs @ zs" by (metis append_butlast_last_id append_Nil2 butlast.simps(1))
  then obtain zs where zs: "cs = butlast cs @ zs" ..
  show ?thesis
    unfolding no_link_below_def
  proof (intro allI impI)
    fix xs ys k m
    assume "butlast cs = xs @ ys \<and> xs \<noteq> [] \<and>
      find_node w (Join [root, render False xs]) False = Inr (k, m)"
    with n zs show "ntype m \<noteq> TSymlink" unfolding no_link_below_def by (metis append_assoc)
  qed
qed

text \<open>
  A passed component check: the path denotes the place of the same components below the
  root's, which is not a link, or it is a missing leaf.
\<close>

lemma reject_loop_None:
  assumes "reject_loop w (render True ps) cs allow msg = None"
    and "leads w (render True ps) k" "plain_comps ps" "plain_comps cs" "cs \<noteq> []" "wf_fs w"
  shows "(\<exists>n. node_at w (k @ cs) = Some n \<and> ntype n \<noteq> TSymlink \<and>
            at w (render True (ps @ cs)) (k @ cs)) \<or>
         (allow \<and> node_at w (k @ cs) = None \<and> leads w (render True (ps @ butlast cs)) (k @ butlast cs))"
  using assms
proof (induction cs arbitrary: ps k)
  case Nil
  then show ?case by simp
next
  case (Cons c cs)
  have j: "Join [render True ps, c] = render True (ps @ [c])"
    using Cons.prems by (simp add: Join_name)
  have c: "plain_comp c" using Cons.prems(4) by simp
  show ?case
  proof (cases "os_Lstat w (render True (ps @ [c]))")
    case (Inl e)
    with Cons.prems(1) have e: "os_IsNotExist e" "allow" "cs = []"
      by (auto simp: Let_def j split: if_splits)
    have f: "find_node w (Join [render True ps, c]) False = Inl ENOENT"
      using Lstat_missing [OF Cons.prems(6) Inl e(1)] j by simp
    have "node_at w (k @ [c]) = None"
    proof (rule ccontr)
      assume ne: "node_at w (k @ [c]) \<noteq> None"
      then have "dir_at w k" using Cons.prems(6) by (auto simp: wf_fs_def)
      from find_child [OF Cons.prems(2) c this] f ne show False
        by (auto split: if_splits option.splits)
    qed
    then show ?thesis using e Cons.prems(2) by simp
  next
    case (Inr n)
    with Cons.prems(1) have n: "ntype n \<noteq> TSymlink"
      and rest: "reject_loop w (render True (ps @ [c])) cs allow msg = None"
      by (auto simp: Let_def j split: if_splits)
    note l = Lstat_child [OF Inr [folded j] Cons.prems(2) c]
    have here: "at w (render True (ps @ [c])) (k @ [c])" using l(4) [OF n] j by simp
    show ?thesis
    proof (cases "cs = []")
      case True
      with l(1) n here show ?thesis by simp
    next
      case False
      have "plain_comps (ps @ [c])" "plain_comps cs" using Cons.prems(3,4) by simp_all
      from Cons.IH [OF rest at_leads [OF here] this False Cons.prems(6)] False
      show ?thesis by simp
    qed
  qed
qed

lemma reject_loop_no_link:
  assumes "reject_loop w (render True ps) cs allow msg = None"
    and "plain_comps ps" "plain_comps cs" "wf_fs w"
  shows "no_link_below w (render True ps) cs"
  using assms
proof (induction cs arbitrary: ps)
  case Nil
  then show ?case by (simp add: no_link_below_def)
next
  case (Cons c cs)
  have j: "Join [render True ps, c] = render True (ps @ [c])"
    using Cons.prems by (simp add: Join_name)
  let ?p = "render True (ps @ [c])"
  have here: "ntype n \<noteq> TSymlink" if "find_node w ?p False = Inr (k, n)" for k n
  proof (cases "os_Lstat w ?p")
    case (Inl e)
    with Cons.prems(1) have "os_IsNotExist e"
      by (auto simp: Let_def j split: if_splits)
    with Inl that Cons.prems(4) show ?thesis by (auto dest: Lstat_missing)
  next
    case (Inr m)
    with Cons.prems(1) have "ntype m \<noteq> TSymlink"
      by (auto simp: Let_def j split: if_splits)
    with Inr that show ?thesis
      by (auto simp: os_Lstat_def guarded_def split: option.splits sum.splits)
  qed
  have below: "no_link_below w ?p cs" if "cs \<noteq> []"
  proof -
    have "reject_loop w ?p cs allow msg = None"
      using Cons.prems(1) that
      by (auto simp: Let_def j split: if_splits sum.splits)
    then show ?thesis using Cons.prems(2-4) by (intro Cons.IH) simp_all
  qed
  show ?case
    unfolding no_link_below_def
  proof (intro allI impI, elim conjE)
    fix xs ys k n
    assume xs: "c # cs = xs @ ys" "xs \<noteq> []"
      and f: "find_node w (Join [render True ps, render False xs]) False = Inr (k, n)"
    then obtain zs where zs: "xs = c # zs" "cs = zs @ ys" by (cases xs) auto
    have plain: "plain_comps zs" "plain_comp c" using Cons.prems(3) zs by simp_all
    have jx: "Join [render True ps, render False xs] = render True (ps @ c # zs)"
      using Join_render [of ps xs] plain zs Cons.prems(2) by simp
    show "ntype n \<noteq> TSymlink"
    proof (cases "zs = []")
      case True
      with f here show ?thesis unfolding jx by simp
    next
      case False
      have "Join [?p, render False zs] = render True (ps @ c # zs)"
        using Join_render [of "ps @ [c]" zs] plain Cons.prems(2) by simp
      with f below False zs(2) show ?thesis
        unfolding jx no_link_below_def by (metis append_is_Nil_conv)
    qed
  qed
qed

lemma normalizeRoot_wf:
  assumes "normalizeRoot (cwd w) root = Inr rp" "wf_fs w"
  shows "rp = render True (abs_comps rp)" "IsAbs rp" "Clean rp = rp"
proof -
  have "IsAbs root \<or> (\<exists>d. cwd w = Inr d \<and> IsAbs d)"
  proof (cases "IsAbs root")
    case False
    with assms show ?thesis
      by (auto simp: normalizeRoot_def Abs_def wf_fs_def split: if_splits sum.splits
         )
  qed simp
  from normalizeRoot_rendered [OF assms(1) this] normalizeRoot_clean [OF assms(1)]
  show "rp = render True (abs_comps rp)" "IsAbs rp" "Clean rp = rp" by simp_all
qed

lemma split_contained:
  "contained rel \<Longrightarrow> rel_comps rel \<noteq> [] \<Longrightarrow>
   split_on sep (FromSlash (render False (rel_comps rel))) = rel_comps rel"
  by (simp add: FromSlash_def contained_def split_render_plain)

text \<open>The checks both resolutions share, up to the component check.\<close>

lemma resolve_checked:
  assumes "resolvePath sj w root rel = Inr (rp, cleanRel, resolved)"
    and "rejectSymlinkComponents w rp cleanRel allow msg = None"
    and "securejoin_contract sj" "wf_fs w"
  shows "normalizeRoot (cwd w) root = Inr rp" "contained rel"
    "cleanRel = render False (rel_comps rel)"
    "resolved = render True (abs_comps rp @ rel_comps rel)"
    "no_link_below w rp (rel_comps rel)"
    "rel_comps rel \<noteq> [] \<Longrightarrow> reject_loop w rp (rel_comps rel) allow msg = None"
proof -
  let ?cs = "rel_comps rel"
  from assms(1) show rp: "normalizeRoot (cwd w) root = Inr rp" and c: "contained rel"
    and cr: "cleanRel = render False ?cs"
    by (auto simp: resolvePath_def NormalizeRelative_Inr split: sum.splits)
  have plain: "plain_comps ?cs" using c by (simp add: contained_def)
  note rp' = normalizeRoot_wf [OF rp assms(4)]
  show loop: "reject_loop w rp ?cs allow msg = None" if "?cs \<noteq> []"
    using assms(2) that c cr render_dot_iff [OF rel_comps_normal, of rel]
    by (simp add: rejectSymlinkComponents_def split_contained)
  show nl: "no_link_below w rp ?cs"
  proof (cases "?cs = []")
    case True
    then show ?thesis by (simp add: no_link_below_def)
  next
    case False
    show ?thesis
      using reject_loop_no_link [of w "abs_comps rp" ?cs allow msg] loop [OF False] rp'(1) plain assms(4)
      by simp
  qed
  have "sj w rp (render False ?cs) = Inr resolved"
    using assms(1) rp cr by (auto simp: resolvePath_def split: sum.splits)
  with assms(3) rp' plain nl have "resolved = Join [rp, render False ?cs]"
    unfolding securejoin_contract_def by blast
  with rp'(1) Join_render [OF abs_comps_plain plain, of rp]
  show "resolved = render True (abs_comps rp @ ?cs)" by simp
qed

lemma ResolveSource_Inr:
  assumes "ResolveSource sj w root rel = Inr (p, info)" "ntype info \<noteq> TSymlink"
    and "securejoin_contract sj" "wf_fs w"
  shows "\<exists>rp R. normalizeRoot (cwd w) root = Inr rp \<and> contained rel \<and> leads w rp R \<and>
    p = render True (abs_comps rp @ rel_comps rel) \<and> at w p (R @ rel_comps rel) \<and>
    node_at w (R @ rel_comps rel) = Some info"
proof -
  let ?cs = "rel_comps rel"
  from assms(1) obtain rp cleanRel where
      r: "resolvePath sj w root rel = Inr (rp, cleanRel, p)"
    and c: "rejectSymlinkComponents w rp cleanRel False ''source not found'' = None"
    and l: "os_Lstat w p = Inr info"
    by (auto simp: ResolveSource_def split: sum.splits option.splits if_splits)
  note ok = resolve_checked [OF r c assms(3,4)]
  have plain: "plain_comps ?cs" using ok(2) by (simp add: contained_def)
  note rp = normalizeRoot_wf [OF ok(1) assms(4)]
  have pc: "plain_comps (abs_comps rp @ ?cs)" using plain by simp
  obtain k where k: "at w p k" "node_at w k = Some info"
    using Lstat_render [OF l [unfolded ok(4)] pc assms(2)] ok(4) by blast
  have "\<exists>R. leads w rp R \<and> k = R @ ?cs"
  proof (cases "?cs = []")
    case True
    with ok(4) rp(1) k(1) show ?thesis by (auto intro: at_leads)
  next
    case False
    obtain R where R: "leads w rp R"
      using Lstat_prefix_leads [OF l [unfolded ok(4)] pc False] rp(1) by auto
    from reject_loop_None [of w "abs_comps rp" ?cs False "''source not found''" R] ok(6) [OF False]
      R rp(1) plain False assms(4)
    have "at w p (R @ ?cs)" using ok(4) by auto
    with k(1) R show ?thesis by (metis at_resolve Inr_inject)
  qed
  with ok k show ?thesis by blast
qed

lemma ResolveDestination_Inr:
  assumes "ResolveDestination sj w root rel = Inr (p, pp)" "securejoin_contract sj" "wf_fs w"
  shows "\<exists>rp R ds c. normalizeRoot (cwd w) root = Inr rp \<and> contained rel \<and> leads w rp R \<and>
    rel_comps rel = ds @ [c] \<and> p = render True (abs_comps rp @ ds @ [c]) \<and>
    pp = render True (abs_comps rp @ ds) \<and> at w pp (R @ ds) \<and> dir_at w (R @ ds) \<and>
    at w p (R @ ds @ [c]) \<and> node_at w (R @ ds @ [c]) = None"
proof -
  let ?cs = "rel_comps rel"
  from assms(1) obtain rp cleanRel e n where
      r: "resolvePath sj w root rel = Inr (rp, cleanRel, p)"
    and c: "rejectSymlinkComponents w rp cleanRel True ''destination parent does not exist'' = None"
    and l: "os_Lstat w p = Inl e" "os_IsNotExist e"
    and par: "sj w rp (Dir (FromSlash cleanRel)) = Inr pp" "os_Lstat w pp = Inr n"
      "ntype n = TDir"
    by (auto simp: ResolveDestination_def Let_def split: sum.splits option.splits if_splits)
  note ok = resolve_checked [OF r c assms(2,3)]
  have plain: "plain_comps ?cs" using ok(2) by (simp add: contained_def)
  note rp = normalizeRoot_wf [OF ok(1) assms(3)]
  have plainb: "plain_comps (butlast ?cs)"
    using plain by (auto simp: plain_comps_def list_all_iff dest: in_set_butlastD)
  have "Dir (FromSlash cleanRel) = render False (butlast ?cs)"
    using ok(3) plain by (simp add: FromSlash_def Dir_render)
  with par(1) assms(2) rp plainb no_link_below_butlast [OF ok(5)]
  have "pp = Join [rp, render False (butlast ?cs)]" unfolding securejoin_contract_def by simp
  then have pp: "pp = render True (abs_comps rp @ butlast ?cs)"
    using rp(1) Join_render [OF abs_comps_plain plainb, of rp] by simp
  show ?thesis
  proof (cases ?cs rule: rev_cases)
    case Nil
    with pp ok(4) have "pp = p" by simp
    with l par show ?thesis by simp
  next
    case (snoc ds c)
    have cs: "?cs \<noteq> []" "butlast ?cs = ds" "plain_comps ds" "plain_comp c"
      using snoc plain by simp_all
    have pc: "plain_comps (abs_comps rp @ ds)" using cs by simp
    have ppd: "pp = render True (abs_comps rp @ ds)" using pp cs by simp
    obtain q where q: "at w pp q" "node_at w q = Some n"
      using Lstat_render [OF par(2) [unfolded ppd] pc] par(3) ppd by auto
    obtain R where R: "leads w rp R"
    proof (cases "ds = []")
      case True
      then show ?thesis using that ppd rp(1) q(1) at_leads by auto
    next
      case False
      show ?thesis
        using Lstat_prefix_leads [OF par(2) [unfolded ppd] pc False] rp(1) that by auto
    qed
    have "leads w pp (R @ ds) \<and> node_at w (R @ ?cs) = None"
    proof -
      have "\<not> at w p (R @ ?cs) \<or> node_at w (R @ ?cs) = None"
        using Lstat_missing_at [OF assms(3) l, of "R @ ?cs"] by auto
      with reject_loop_None [of w "abs_comps rp" ?cs True "''destination parent does not exist''" R]
        ok(4) ok(6) [OF cs(1)] R rp(1) plain cs assms(3) ppd
      show ?thesis by auto
    qed
    then have lead: "leads w pp (R @ ds)" and none: "node_at w (R @ ds @ [c]) = None"
      using snoc by simp_all
    have "q = R @ ds" using leads_resolve [OF lead] at_resolve [OF q(1)] by simp
    with q par(3) have dir: "dir_at w (R @ ds)" and atpp: "at w pp (R @ ds)"
      by (simp_all add: dir_at_def)
    have j: "Join [pp, c] = p"
      using Join_name [OF pc cs(4)] ppd ok(4) snoc by simp
    have "length (Join [pp, c]) < PATH_MAX"
      using find_child [OF lead cs(4) dir] Lstat_missing [OF assms(3) l] unfolding j
      by (auto split: if_splits)
    then have "at w p ((R @ ds) @ [c])"
      using at_child [OF lead cs(4) dir] none j by simp
    with R ok snoc ppd dir atpp none show ?thesis by auto
  qed
qed

subsection \<open>Properties\<close>

text \<open>C15: \<open>NormalizeRelative\<close> accepts exactly the contained paths (non-empty, relative, with no
  component that climbs above the start) and returns their clean form; every other path is
  refused with \<open>EINVAL\<close> when empty and \<open>EPERM\<close> otherwise.\<close>

theorem NormalizeRelative_spec:
  "(NormalizeRelative p = Inr r \<longleftrightarrow> contained p \<and> r = render False (rel_comps p)) \<and>
   (contained p \<or>
      (\<exists>m. NormalizeRelative p = Inl (NewError (if p = [] then CodeEINVAL else CodeEPERM) m)))"
proof (intro conjI)
  show "NormalizeRelative p = Inr r \<longleftrightarrow> contained p \<and> r = render False (rel_comps p)"
    by (rule NormalizeRelative_Inr)
  show "contained p \<or>
      (\<exists>m. NormalizeRelative p = Inl (NewError (if p = [] then CodeEINVAL else CodeEPERM) m))"
    using NormalizeRelative_Inl [of p]
    by (cases "NormalizeRelative p") (auto simp: NormalizeRelative_Inr)
qed

text \<open>C16: Under an absolute mount root, a guest path is accepted exactly when it is absolute and
  its components start with the mount root's; the result is the rest of them.  Every other path
  is \<open>EPERM\<close>.\<close>

theorem GuestToRelative_spec:
  assumes "IsAbs m"
  shows "GuestToRelative wd m g =
    (if \<not> IsAbs g then Inl (NewError CodeEPERM ''guest paths must be absolute'')
     else if prefix (abs_comps m) (abs_comps g)
     then Inr (render False (drop (length (abs_comps m)) (abs_comps g)))
     else Inl (NewError CodeEPERM outside_mount_message))"
  using assms GuestToRelative_eq [OF normalizeRoot_abs [OF assms]] by simp

theorem GuestToRelative_spec_witness:
  "GuestToRelative (Inr ''/'') ''/mnt//x/'' ''/mnt/x/a/../b'' = Inr ''b'' \<and>
   GuestToRelative (Inr ''/'') ''/mnt//x/'' ''/mnt/x/../b'' = Inl (NewError CodeEPERM outside_mount_message)"
proof -
  have m: "IsAbs ''/mnt//x/''" by code_simp
  have "IsAbs ''/mnt/x/a/../b''" "IsAbs ''/mnt/x/../b''"
    "abs_comps ''/mnt//x/'' = [''mnt'', ''x'']" "abs_comps ''/mnt/x/a/../b'' = [''mnt'', ''x'', ''b'']"
    "abs_comps ''/mnt/x/../b'' = [''mnt'', ''b'']" "render False [''b''] = ''b''"
    by code_simp+
  then show ?thesis
    using GuestToRelative_spec [OF m, of "Inr ''/''" "''/mnt/x/a/../b''"]
      GuestToRelative_spec [OF m, of "Inr ''/''" "''/mnt/x/../b''"] by simp
qed

text \<open>C17: A guest path that is accepted comes back: joining the mount root and the relative path
  gives the guest path again, cleaned, and the relative path is contained and normalized.\<close>

theorem guest_path_roundtrip:
  assumes "IsAbs m" "GuestToRelative wd m g = Inr r"
  shows "Join [Clean m, r] = Clean g \<and> contained r \<and> NormalizeRelative r = Inr r"
  using GuestToRelative_roundtrip [OF normalizeRoot_abs [OF assms(1)] _ assms(2)] assms(1) by simp

theorem guest_path_roundtrip_witness:
  "Join [Clean ''/mnt/'', ''b''] = Clean ''/mnt/a/../b'' \<and> contained ''b'' \<and>
   NormalizeRelative ''b'' = Inr ''b''"
proof -
  have "IsAbs ''/mnt/''" "GuestToRelative (Inr ''/'') ''/mnt/'' ''/mnt/a/../b'' = Inr ''b''"
    by code_simp+
  from guest_path_roundtrip [OF this] show ?thesis .
qed

end
