(* ===== verification/Reflink.thy ===== *)
theory Reflink
  imports Protocol File_System
begin

section \<open>Cloning one file (the Reflinker interface and its implementations)\<close>

text \<open>
  \<open>service.go\<close> and \<open>tree.go\<close> call file cloning through the interface \<open>Reflinker\<close>.  The
  locale \<open>reflinker\<close> states what every implementation promises, \<open>exclusive_reflinker\<close> what
  the daemon's \<open>FileReflinker\<close> adds: it never touches an existing destination and gives the
  copy exactly the mode asked for.  The clone itself, \<open>reflink.Reflink(dst, src, false)\<close>, is a
  third-party call on two open files, the parameter \<open>clone\<close>.
\<close>

type_synonym reflink_fun = "fsys \<Rightarrow> string \<Rightarrow> string \<Rightarrow> FileMode \<Rightarrow> fsys \<times> go_error option"
type_synonym clone_fun = "fsys \<Rightarrow> key \<Rightarrow> key \<Rightarrow> fsys \<times> go_error option"

unbundle bit_operations_syntax

definition mapReflinkError :: "go_error \<Rightarrow> go_error" where
  "mapReflinkError err =
     (if errors_is is_reflink_unsupported err \<or> errors_is is_reflink_failed err
         \<or> errors_is_errno EOPNOTSUPP err \<or> errors_is_errno EXDEV err
      then WrapError CodeEOPNOTSUPP
             ''reflink is not supported for this source and destination'' err
      else err)"

text \<open>
  The deferred function closes the destination, reports the close error if there is no other
  error, and removes the destination unless the body reached its end.
\<close>

definition FileReflinker_Reflink :: "clone_fun \<Rightarrow> reflink_fun" where
  "FileReflinker_Reflink clone w srcPath dstPath mode =
     (case os_Open w srcPath of
        Inl err \<Rightarrow> (w, Some err)
      | Inr src \<Rightarrow>
          (case os_CreateExcl w dstPath (Perm mode) of
             (w1, Inl err) \<Rightarrow> (w1, Some err)
           | (w1, Inr dst) \<Rightarrow>
               let (w2, err, cleanup) =
                 (case clone w1 dst src of
                    (w2, Some err) \<Rightarrow> (w2, Some (mapReflinkError err), True)
                  | (w2, None) \<Rightarrow>
                      (case file_Chmod w2 dstPath dst (Perm mode) of
                         (w3, Some err) \<Rightarrow> (w3, Some err, True)
                       | (w3, None) \<Rightarrow> (w3, None, False)));
                   err = (case err of None \<Rightarrow> file_Close w2 dstPath | Some e \<Rightarrow> Some e);
                   w3 = (if cleanup then fst (os_Remove w2 dstPath) else w2)
               in (w3, err)))"

text \<open>\<open>os.ReadFile\<close> and \<open>os.WriteFile\<close>, and the copying reflinker of \<open>testsupport.go\<close>.\<close>

definition os_ReadFile :: "fsys \<Rightarrow> string \<Rightarrow> go_error + bytes" where
  "os_ReadFile w p =
     (case guarded w (SysOpen p) (find_node w p True) of
        Inl e \<Rightarrow> Inl (path_error ''open'' p e)
      | Inr (k, n) \<Rightarrow>
          if ntype n = TDir then Inl (path_error ''read'' p EISDIR) else Inr (ndata n))"

definition os_WriteFile :: "fsys \<Rightarrow> string \<Rightarrow> bytes \<Rightarrow> FileMode \<Rightarrow> fsys \<times> go_error option" where
  "os_WriteFile w p d mode =
     (case guarded w (SysCreate p) (resolve w p True) of
        Inl e \<Rightarrow> (w, Some (path_error ''open'' p e))
      | Inr k \<Rightarrow>
          let n = (case node_at w k of None \<Rightarrow> new_file w mode | Some m \<Rightarrow> m) in
          if ntype n = TDir then (w, Some (path_error ''open'' p EISDIR))
          else (case fault w (SysWrite p) of
                  Some e \<Rightarrow> (put_node w k (n\<lparr>ndata := []\<rparr>), Some (path_error ''write'' p e))
                | None \<Rightarrow> (put_node w k (n\<lparr>ndata := d\<rparr>), file_Close w p)))"

definition CopyReflinker_Reflink :: reflink_fun where
  "CopyReflinker_Reflink w srcPath dstPath mode =
     (case os_ReadFile w srcPath of
        Inl err \<Rightarrow> (w, Some err)
      | Inr data \<Rightarrow> os_WriteFile w dstPath data (Perm mode))"

subsection \<open>The interface\<close>

text \<open>
  A call with a regular source and a free destination changes the state at the destination
  only; success leaves a regular file there with the source's data.
\<close>

locale reflinker =
  fixes rl :: reflink_fun
  assumes rl_env: "wf_fs w \<Longrightarrow> rl w src dst mode = (w', r) \<Longrightarrow> at w src s \<Longrightarrow>
      node_at w s = Some n \<Longrightarrow> ntype n = TReg \<Longrightarrow> at w dst d \<Longrightarrow> node_at w d = None \<Longrightarrow>
      same_env w w'"
    and rl_others: "wf_fs w \<Longrightarrow> rl w src dst mode = (w', r) \<Longrightarrow> at w src s \<Longrightarrow>
      node_at w s = Some n \<Longrightarrow> ntype n = TReg \<Longrightarrow> at w dst d \<Longrightarrow> node_at w d = None \<Longrightarrow>
      q \<noteq> d \<Longrightarrow> node_at w' q = node_at w q"
    and rl_place: "wf_fs w \<Longrightarrow> rl w src dst mode = (w', r) \<Longrightarrow> at w src s \<Longrightarrow>
      node_at w s = Some n \<Longrightarrow> ntype n = TReg \<Longrightarrow> at w dst d \<Longrightarrow> node_at w d = None \<Longrightarrow>
      node_at w' d = Some m \<Longrightarrow> ntype m = TReg \<and> nlink m = 1"
    and rl_data: "wf_fs w \<Longrightarrow> rl w src dst mode = (w', None) \<Longrightarrow> at w src s \<Longrightarrow>
      node_at w s = Some n \<Longrightarrow> ntype n = TReg \<Longrightarrow> at w dst d \<Longrightarrow> node_at w d = None \<Longrightarrow>
      \<exists>m. node_at w' d = Some m \<and> ndata m = ndata n"
    and rl_long: "rl w src dst mode = (w', r) \<Longrightarrow> IsAbs dst \<Longrightarrow> PATH_MAX \<le> length dst \<Longrightarrow>
      w' = w \<and> r \<noteq> None"
begin

lemma rl_wf_ext:
  assumes "wf_fs w" "rl w src dst mode = (w', r)" "at w src s" "node_at w s = Some n"
    "ntype n = TReg" "at w dst d" "node_at w d = None"
  shows "wf_fs w'" "fs_ext w w'" "same_env w w'"
  using one_change [OF assms(1) rl_env [OF assms] assms(6,7)] rl_others [OF assms] rl_env [OF assms]
  by simp_all

lemma rl_copy:
  assumes "wf_fs w" "rl w src dst mode = (w', None)" "at w src s" "node_at w s = Some n"
    "ntype n = TReg" "at w dst d" "node_at w d = None"
  shows "\<exists>m. node_at w' d = Some m \<and> ntype m = TReg \<and> ndata m = ndata n \<and> nlink m = 1"
  using rl_data [OF assms] rl_place [OF assms] by blast

end

locale exclusive_reflinker = reflinker +
  assumes rl_mode: "wf_fs w \<Longrightarrow> rl w src dst mode = (w', None) \<Longrightarrow> at w src s \<Longrightarrow>
      node_at w s = Some n \<Longrightarrow> ntype n = TReg \<Longrightarrow> at w dst d \<Longrightarrow> node_at w d = None \<Longrightarrow>
      node_at w' d = Some m \<Longrightarrow> nperm m = Perm mode"
    and rl_exists: "rl w src dst mode = (w', r) \<Longrightarrow> free_place w dst = Inl e \<Longrightarrow>
      w' = w \<and> r \<noteq> None"
begin

lemma rl_exact:
  assumes "wf_fs w" "rl w src dst mode = (w', None)" "at w src s" "node_at w s = Some n"
    "ntype n = TReg" "at w dst d" "node_at w d = None"
  shows "node_at w' d = Some \<lparr>ntype = TReg, nperm = Perm mode, ndata = ndata n, nlink = 1\<rparr>"
proof -
  obtain m where m: "node_at w' d = Some m" "ntype m = TReg" "ndata m = ndata n" "nlink m = 1"
    using rl_copy [OF assms] by blast
  with rl_mode [OF assms m(1)] show ?thesis by (cases m) simp
qed

end

subsection \<open>The two implementations\<close>

text \<open>
  What \<open>service.go\<close> relies on from \<open>reflink.Reflink\<close> on two open regular files: it writes
  the destination's data only, and success leaves the source's data there.
\<close>

definition clone_contract :: "clone_fun \<Rightarrow> bool" where
  "clone_contract clone \<longleftrightarrow>
     (\<forall>w d s nd ns w' r. node_at w d = Some nd \<and> node_at w s = Some ns \<and> d \<noteq> s \<and>
        clone w d s = (w', r) \<longrightarrow>
        (\<exists>c. w' = put_node w d (nd\<lparr>ndata := c\<rparr>) \<and> (r = None \<longrightarrow> c = ndata ns)))"

lemma Remove_file:
  assumes "at w p k" "node_at w k = Some n" "ntype n = TReg"
  shows "os_Remove w p =
    (case fault w (SysRemove p) of
       Some e \<Rightarrow> (w, Some (path_error ''remove'' p e))
     | None \<Rightarrow> (del_node w k, None))"
  using assms by (simp add: os_Remove_def guarded_def find_node_def at_resolve split: option.splits)

text \<open>
  The two ways a call ends after the destination was created: \<open>copied\<close> when the body reached
  its end, \<open>undone\<close> otherwise.
\<close>

lemma FileReflinker_body:
  assumes "clone_contract clone" "d \<noteq> s" "node_at w1 d = Some nd" "node_at w1 s = Some n"
    and "clone w1 d s = (w2, r)"
  obtains c where "w2 = put_node w1 d (nd\<lparr>ndata := c\<rparr>)" "r = None \<Longrightarrow> c = ndata n"
  using assms unfolding clone_contract_def by blast

lemma Perm_ModeBits [simp]: "Perm m AND ModeBits = Perm m"
  by (simp add: Perm_def and.assoc mode_defs)

lemma FileReflinker_result:
  assumes "clone_contract clone" "wf_fs w" "FileReflinker_Reflink clone w src dst mode = (w', r)"
    and "at w src s" "node_at w s = Some n" "ntype n = TReg" "at w dst d" "node_at w d = None"
  shows "same_env w w'" "q \<noteq> d \<Longrightarrow> node_at w' q = node_at w q"
    and "node_at w' d = None \<and> r \<noteq> None \<or>
      (\<exists>m. node_at w' d = Some m \<and> ntype m = TReg \<and> nlink m = 1 \<and>
         (r = None \<longrightarrow> nperm m = Perm mode \<and> ndata m = ndata n) \<and>
         (r \<noteq> None \<longrightarrow> fault w (SysRemove dst) \<noteq> None \<or> fault w (SysClose dst) \<noteq> None))"
proof -
  have "same_env w w' \<and> (\<forall>q. q \<noteq> d \<longrightarrow> node_at w' q = node_at w q) \<and>
    (node_at w' d = None \<and> r \<noteq> None \<or>
      (\<exists>m. node_at w' d = Some m \<and> ntype m = TReg \<and> nlink m = 1 \<and>
         (r = None \<longrightarrow> nperm m = Perm mode \<and> ndata m = ndata n) \<and>
         (r \<noteq> None \<longrightarrow> fault w (SysRemove dst) \<noteq> None \<or> fault w (SysClose dst) \<noteq> None)))"
  proof (cases "\<exists>src'. os_Open w src = Inr src' \<and> (\<exists>w1 k. os_CreateExcl w dst (Perm mode) = (w1, Inr k))")
    case False
    then have "w' = w \<and> r \<noteq> None"
      using assms(3) by (auto simp: FileReflinker_Reflink_def dest: CreateExcl_Inl
          split: sum.splits prod.splits)
    with assms(8) show ?thesis by simp
  next
    case True
    then obtain w1 where op: "os_Open w src = Inr s"
      and cr: "os_CreateExcl w dst (Perm mode) = (w1, Inr d)"
      and w1: "w1 = put_node w d (new_file w (Perm mode))"
      using Open_at [OF _ assms(4)] CreateExcl_at [OF _ assms(7)] by blast
    have ds: "d \<noteq> s" using assms(5,8) by auto
    obtain w2 rc where cl: "clone w1 d s = (w2, rc)" by fastforce
    have n1: "node_at w1 d = Some (new_file w (Perm mode))" "node_at w1 s = Some n"
      using ds assms(5) w1 by (simp_all add: fs_simps)
    obtain c where w2: "w2 = put_node w1 d ((new_file w (Perm mode))\<lparr>ndata := c\<rparr>)"
      and c: "rc = None \<Longrightarrow> c = ndata n"
      using FileReflinker_body [OF assms(1) ds n1 cl] by blast
    have env: "same_env w w2" using w1 w2 by (simp add: same_env_def fs_simps)
    have n2: "node_at w2 q = (if q = d then Some ((new_file w (Perm mode))\<lparr>ndata := c\<rparr>) else node_at w q)"
      for q using w1 w2 by (simp add: fs_simps)
    have ext: "fs_ext w w2"
      unfolding fs_ext_def using n2 assms(8) by (metis option.distinct(1))
    have at2: "at w2 dst d"
      using at_free_ext [OF assms(7,8,2) ext] n2 by (simp add: new_file_def)
    have faults: "fault w2 = fault w" using env by (simp add: same_env_def)
    have rm: "os_Remove w2 dst = (case fault w (SysRemove dst) of
        Some e \<Rightarrow> (w2, Some (path_error ''remove'' dst e)) | None \<Rightarrow> (del_node w2 d, None))"
      using Remove_file [OF at2, of "(new_file w (Perm mode))\<lparr>ndata := c\<rparr>"] n2 faults
      by (simp add: new_file_def)
    show ?thesis
    proof (cases "rc = None \<and> fault w (SysFchmod dst) = None")
      case True
      have "file_Chmod w2 dst d (Perm mode) =
          (put_node w2 d ((new_file w (Perm mode))\<lparr>ndata := c, nperm := Perm mode\<rparr>), None)"
        using True n2 [of d] faults by (simp add: file_Chmod_def)
      with op cr cl True assms(3)
      have "w' = put_node w2 d ((new_file w (Perm mode))\<lparr>ndata := c, nperm := Perm mode\<rparr>)"
        and "r = map_option (path_error ''close'' dst) (fault w (SysClose dst))"
        using faults by (simp_all add: FileReflinker_Reflink_def file_Close_def fs_simps)
      with env n2 c True show ?thesis by (auto simp: fs_simps new_file_def same_env_def)
    next
      case False
      have "w' = fst (os_Remove w2 dst)" "r \<noteq> None"
        using op cr cl False n2 [of d] faults assms(3)
        by (auto simp: FileReflinker_Reflink_def file_Chmod_def split: option.splits)
      with rm env n2 assms(8) show ?thesis
        by (cases "fault w (SysRemove dst)") (auto simp: fs_simps new_file_def same_env_def)
    qed
  qed
  then show "same_env w w'" "q \<noteq> d \<Longrightarrow> node_at w' q = node_at w q"
    and "node_at w' d = None \<and> r \<noteq> None \<or>
      (\<exists>m. node_at w' d = Some m \<and> ntype m = TReg \<and> nlink m = 1 \<and>
         (r = None \<longrightarrow> nperm m = Perm mode \<and> ndata m = ndata n) \<and>
         (r \<noteq> None \<longrightarrow> fault w (SysRemove dst) \<noteq> None \<or> fault w (SysClose dst) \<noteq> None))"
    by blast+
qed

lemma FileReflinker_exists:
  assumes "FileReflinker_Reflink clone w src dst mode = (w', r)" "free_place w dst = Inl e"
  shows "w' = w \<and> r \<noteq> None"
proof -
  have "\<exists>e. os_CreateExcl w dst (Perm mode) = (w, Inl e)"
    using assms(2) by (auto simp: os_CreateExcl_def guarded_def split: option.splits)
  with assms(1) show ?thesis by (auto simp: FileReflinker_Reflink_def split: sum.splits)
qed

lemma resolve_long: "IsAbs p \<Longrightarrow> PATH_MAX \<le> length p \<Longrightarrow> resolve w p f = Inl ENAMETOOLONG"
  by (auto simp: resolve_def IsAbs_not_Nil)

lemma FileReflinker_long:
  assumes "FileReflinker_Reflink clone w src dst mode = (w', r)" "IsAbs dst" "PATH_MAX \<le> length dst"
  shows "w' = w \<and> r \<noteq> None"
  using assms by (intro FileReflinker_exists [of clone w src dst mode w' r ENAMETOOLONG])
    (auto simp: free_place_def resolve_long)

lemma FileReflinker_exclusive:
  assumes "clone_contract clone"
  shows "exclusive_reflinker (FileReflinker_Reflink clone)"
proof (unfold_locales, goal_cases)
  case (1 w src dst mode w' r s n d)
  from FileReflinker_result(1) [OF assms this] show ?case .
next
  case (2 w src dst mode w' r s n d q)
  from FileReflinker_result(2) [OF assms 2(1-7)] 2(8) show ?case .
next
  case (3 w src dst mode w' r s n d m)
  from FileReflinker_result(3) [OF assms 3(1-7)] 3(8) show ?case by auto
next
  case (4 w src dst mode w' s n d)
  from FileReflinker_result(3) [OF assms this] show ?case by auto
next
  case (5 w src dst mode w' r)
  from FileReflinker_long [OF this] show ?case .
next
  case (6 w src dst mode w' s n d m)
  from FileReflinker_result(3) [OF assms 6(1-7)] 6(8) show ?case by auto
next
  case (7 w src dst mode w' r e)
  from FileReflinker_exists [OF this] show ?case .
qed

text \<open>
  The locale of the third-party clone: each provider of a clone gives a Reflinker.  \<open>ficlone\<close>
  is the kernel's whole-file clone on a file system that supports it for the pairs of files
  given by \<open>supported\<close>.
\<close>

locale cloner =
  fixes clone :: clone_fun
  assumes clone_ok: "clone_contract clone"

sublocale cloner \<subseteq> exclusive_reflinker "FileReflinker_Reflink clone"
  by (rule FileReflinker_exclusive [OF clone_ok])

definition ficlone :: "(key \<Rightarrow> key \<Rightarrow> bool) \<Rightarrow> clone_fun" where
  "ficlone supported w d s =
     (case (node_at w d, node_at w s) of
        (Some nd, Some ns) \<Rightarrow>
          if supported d s then (put_node w d (nd\<lparr>ndata := ndata ns\<rparr>), None)
          else (w, Some (Errno EOPNOTSUPP))
      | _ \<Rightarrow> (w, Some (Errno EBADF)))"

lemma put_node_same: "node_at w k = Some n \<Longrightarrow> put_node w k n = w"
  by (simp add: put_node_def node_at_def update_triv)

interpretation ficlone: cloner "ficlone supported" for supported
proof
  show "clone_contract (ficlone supported)"
    unfolding clone_contract_def
  proof (intro allI impI, elim conjE)
    fix w d s nd ns w' r
    assume *: "node_at w d = Some nd" "node_at w s = Some ns" "ficlone supported w d s = (w', r)"
    show "\<exists>c. w' = put_node w d (nd\<lparr>ndata := c\<rparr>) \<and> (r = None \<longrightarrow> c = ndata ns)"
    proof (cases "supported d s")
      case True
      with * show ?thesis by (auto simp: ficlone_def)
    next
      case False
      with * have "w' = put_node w d (nd\<lparr>ndata := ndata nd\<rparr>)" "r \<noteq> None"
        by (auto simp: ficlone_def put_node_same)
      then show ?thesis by blast
    qed
  qed
qed

text \<open>The copying reflinker keeps the data, but its mode passes through the umask.\<close>

lemma CopyReflinker_result:
  assumes "CopyReflinker_Reflink w src dst mode = (w', r)"
    and "at w src s" "node_at w s = Some n" "ntype n = TReg" "at w dst d" "node_at w d = None"
  shows "w' = w \<and> r \<noteq> None \<or>
    (\<exists>c. w' = put_node w d ((new_file w (Perm mode))\<lparr>ndata := c\<rparr>) \<and> (r = None \<longrightarrow> c = ndata n))"
proof -
  have "find_node w src True = Inr (s, n)"
    using assms(2,3) by (simp add: find_node_def at_resolve)
  then have rd: "os_ReadFile w src = (case fault w (SysOpen src) of
      Some e \<Rightarrow> Inl (path_error ''open'' src e) | None \<Rightarrow> Inr (ndata n))"
    using assms(4) by (simp add: os_ReadFile_def guarded_def split: option.splits)
  have wr: "os_WriteFile w dst x m = (case fault w (SysCreate dst) of
      Some e \<Rightarrow> (w, Some (path_error ''open'' dst e))
    | None \<Rightarrow> (case fault w (SysWrite dst) of
        Some e \<Rightarrow> (put_node w d ((new_file w m)\<lparr>ndata := []\<rparr>), Some (path_error ''write'' dst e))
      | None \<Rightarrow> (put_node w d ((new_file w m)\<lparr>ndata := x\<rparr>), file_Close w dst)))" for x m
    using assms(5,6) by (simp add: os_WriteFile_def guarded_def at_resolve new_file_def Let_def
        split: option.splits)
  from assms(1) rd show ?thesis
    by (auto simp: CopyReflinker_Reflink_def wr split: option.splits)
qed

interpretation copy_reflinker: reflinker CopyReflinker_Reflink
proof (unfold_locales, goal_cases)
  case (1 w src dst mode w' r s n d)
  from CopyReflinker_result [OF 1(2-7)] show ?case by auto
next
  case (2 w src dst mode w' r s n d q)
  from CopyReflinker_result [OF 2(2-7)] 2(8) show ?case by (auto simp: fs_simps)
next
  case (3 w src dst mode w' r s n d m)
  from CopyReflinker_result [OF 3(2-7)] 3(7,8) show ?case by (auto simp: fs_simps new_file_def)
next
  case (4 w src dst mode w' s n d)
  from CopyReflinker_result [OF 4(2-7)] show ?case by (auto simp: fs_simps)
next
  case (5 w src dst mode w' r)
  then have wr: "fst (os_WriteFile w dst x m) = w \<and> snd (os_WriteFile w dst x m) \<noteq> None" for x m
    by (auto simp: os_WriteFile_def guarded_def resolve_long split: option.splits)
  show ?case
  proof (cases "os_ReadFile w src")
    case (Inl e)
    with 5(1) show ?thesis by (auto simp: CopyReflinker_Reflink_def)
  next
    case (Inr data)
    with 5(1) wr [of data "Perm mode"] show ?thesis
      by (auto simp: CopyReflinker_Reflink_def split: prod.splits)
  qed
qed

end
