(* ===== verification/Tree_Walk.thy ===== *)
theory Tree_Walk
  imports Validate Reflink
begin

section \<open>Cloning a directory tree (internal/tree)\<close>

text \<open>
  \<open>tree.go\<close>: \<open>Walker.ReflinkTree\<close> walks the source with \<open>filepath.WalkDir\<close>, makes every
  directory with a temporary mode, clones every regular file and restores the directory modes
  at the end, deepest last-made first.  \<open>WalkDir\<close> is Go's: the callback runs on a directory
  before the directory is read, and the entries come in name order.  Fuel bounds the depth of
  the walk; \<open>None\<close> is a walk that needs more.
\<close>

unbundle bit_operations_syntax

definition temporaryDirectoryMode :: FileMode where "temporaryDirectoryMode = 0x1C0"

definition preservedDirectoryMode :: FileMode where
  "preservedDirectoryMode = ModePerm OR ModeSetuid OR ModeSetgid OR ModeSticky"

record pendingDirectoryMode =
  pdPath :: string
  pdMode :: FileMode

definition exactDirectoryMode :: "FileMode \<Rightarrow> FileMode" where
  "exactDirectoryMode mode = mode AND preservedDirectoryMode"

subsection \<open>filepath.WalkDir\<close>

text \<open>
  The callback takes the state, the path, whether the entry is a directory and the error of a
  failed read; it returns the new state and an error.  The program's callbacks never return
  \<open>SkipDir\<close> or \<open>SkipAll\<close>.
\<close>

type_synonym 's walk_fn = "'s \<Rightarrow> string \<Rightarrow> bool \<Rightarrow> go_error option \<Rightarrow> 's \<times> go_error option"

fun walkDir :: "nat \<Rightarrow> (fsys \<times> 'a) walk_fn \<Rightarrow> fsys \<times> 'a \<Rightarrow> string \<Rightarrow> bool \<Rightarrow>
    ((fsys \<times> 'a) \<times> go_error option) option"
  and walkEntries :: "nat \<Rightarrow> (fsys \<times> 'a) walk_fn \<Rightarrow> fsys \<times> 'a \<Rightarrow> string \<Rightarrow>
    (string \<times> node) list \<Rightarrow> ((fsys \<times> 'a) \<times> go_error option) option" where
  "walkDir 0 fn s path isdir = None"
| "walkDir (Suc fuel) fn s path isdir =
     (case fn s path isdir None of
        (s1, Some err) \<Rightarrow> Some (s1, Some err)
      | (s1, None) \<Rightarrow>
          if \<not> isdir then Some (s1, None)
          else (case os_ReadDir (fst s1) path of
                  Inl err \<Rightarrow> Some (fn s1 path isdir (Some err))
                | Inr dirs \<Rightarrow> walkEntries fuel fn s1 path dirs))"
| "walkEntries fuel fn s path [] = Some (s, None)"
| "walkEntries fuel fn s path ((name, d1) # dirs) =
     (case walkDir fuel fn s (Join [path, name]) (IsDir d1) of
        None \<Rightarrow> None
      | Some (s1, Some err) \<Rightarrow> Some (s1, Some err)
      | Some (s1, None) \<Rightarrow> walkEntries fuel fn s1 path dirs)"

definition WalkDir :: "nat \<Rightarrow> (fsys \<times> 'a) walk_fn \<Rightarrow> fsys \<times> 'a \<Rightarrow> string \<Rightarrow>
    ((fsys \<times> 'a) \<times> go_error option) option" where
  "WalkDir fuel fn s root =
     (case os_Lstat (fst s) root of
        Inl err \<Rightarrow> Some (fn s root False (Some err))
      | Inr info \<Rightarrow> walkDir fuel fn s root (IsDir info))"

subsection \<open>ReflinkTree\<close>

definition tree_visit :: "reflink_fun \<Rightarrow> string \<Rightarrow> string \<Rightarrow>
    (fsys \<times> pendingDirectoryMode list) walk_fn" where
  "tree_visit rl srcRoot dstRoot s path isdir walkErr =
     (case s of (w, directories) \<Rightarrow>
      case walkErr of
        Some err \<Rightarrow> ((w, directories), Some err)
      | None \<Rightarrow>
        if path = srcRoot then ((w, directories), None)
        else (case os_Lstat w path of
          Inl err \<Rightarrow> ((w, directories), Some err)
        | Inr info \<Rightarrow>
          (case Rel srcRoot path of
            Inl msg \<Rightarrow> ((w, directories), Some (ErrorString msg))
          | Inr rel \<Rightarrow>
            let targetPath = Join [dstRoot, rel] in
            if Mode info AND ModeSymlink \<noteq> 0 then
              ((w, directories), Some (NewError CodeEINVAL ''symlinks are not supported''))
            else if IsDir info then
              (case os_Mkdir w targetPath temporaryDirectoryMode of
                 (w1, Some err) \<Rightarrow> ((w1, directories), Some err)
               | (w1, None) \<Rightarrow>
                   ((w1, directories @ [\<lparr>pdPath = targetPath,
                       pdMode = exactDirectoryMode (Mode info)\<rparr>]), None))
            else if IsRegular (Mode info) then
              (case RejectHardlink info of
                 Some err \<Rightarrow> ((w, directories), Some err)
               | None \<Rightarrow>
                   (case rl w path targetPath (Perm (Mode info)) of
                      (w1, r) \<Rightarrow> ((w1, directories), r)))
            else ((w, directories), Some (NewError CodeEINVAL ''unsupported file type'')))))"

fun restore_loop :: "fsys \<Rightarrow> pendingDirectoryMode list \<Rightarrow> fsys \<times> go_error option" where
  "restore_loop w [] = (w, None)"
| "restore_loop w (directory # directories) =
     (case os_Chmod w (pdPath directory) (pdMode directory) of
        (w1, Some err) \<Rightarrow> (w1, Some err)
      | (w1, None) \<Rightarrow> restore_loop w1 directories)"

text \<open>The loop runs from the last index down.\<close>

definition restoreDirectoryModes ::
  "fsys \<Rightarrow> pendingDirectoryMode list \<Rightarrow> fsys \<times> go_error option" where
  "restoreDirectoryModes w directories = restore_loop w (rev directories)"

definition ReflinkTree :: "nat \<Rightarrow> reflink_fun \<Rightarrow> fsys \<Rightarrow> string \<Rightarrow> string \<Rightarrow>
    (fsys \<times> go_error option) option" where
  "ReflinkTree fuel rl w srcRoot dstRoot =
     (case os_Lstat w srcRoot of
        Inl err \<Rightarrow> Some (w, Some err)
      | Inr srcInfo \<Rightarrow>
        if \<not> IsDir srcInfo then
          Some (w, Some (NewError CodeEINVAL ''source must be a directory''))
        else (case os_Mkdir w dstRoot temporaryDirectoryMode of
          (w1, Some err) \<Rightarrow> Some (w1, Some err)
        | (w1, None) \<Rightarrow>
          let directories = [\<lparr>pdPath = dstRoot, pdMode = exactDirectoryMode (Mode srcInfo)\<rparr>] in
          (case WalkDir fuel (tree_visit rl srcRoot dstRoot) (w1, directories) srcRoot of
             None \<Rightarrow> None
           | Some ((w2, directories), walkErr) \<Rightarrow>
             (case restoreDirectoryModes w2 directories of
                (w3, chmodErr) \<Rightarrow>
                  Some (w3,
                    (case walkErr of
                       Some we \<Rightarrow> (case chmodErr of Some ce \<Rightarrow> Some (JoinErr [we, ce])
                                                  | None \<Rightarrow> Some we)
                     | None \<Rightarrow> chmodErr))))))"

lemma exactDirectoryMode_Mode: "exactDirectoryMode (Mode n) = nperm n AND ModeBits"
proof -
  have "preservedDirectoryMode = ModeBits"
    by (simp add: preservedDirectoryMode_def mode_defs)
  then show ?thesis by (simp add: exactDirectoryMode_def)
qed

subsection \<open>Confined changes\<close>

text \<open>
  \<open>confined K w w'\<close>: the state grew, and changed only at and below the places in \<open>K\<close>.
\<close>

definition confined :: "key set \<Rightarrow> fsys \<Rightarrow> fsys \<Rightarrow> bool" where
  "confined K w w' \<longleftrightarrow> wf_fs w' \<and> fs_ext w w' \<and> same_env w w' \<and>
     (\<forall>q. (\<forall>k \<in> K. \<not> prefix k q) \<longrightarrow> node_at w' q = node_at w q)"

lemma confined_refl: "wf_fs w \<Longrightarrow> confined K w w"
  by (simp add: confined_def)

lemma confined_trans:
  "confined K w w' \<Longrightarrow> confined L w' w'' \<Longrightarrow> confined (K \<union> L) w w''"
  unfolding confined_def by (auto intro: fs_ext_trans same_env_trans)

lemma confined_mono:
  "confined K w w' \<Longrightarrow> (\<And>k. k \<in> K \<Longrightarrow> \<exists>l \<in> L. prefix l k) \<Longrightarrow> confined L w w'"
  unfolding confined_def by (meson prefix_order.trans)

lemma confinedD:
  "confined K w w' \<Longrightarrow> wf_fs w'" "confined K w w' \<Longrightarrow> fs_ext w w'"
  "confined K w w' \<Longrightarrow> same_env w w'"
  "confined K w w' \<Longrightarrow> (\<And>k. k \<in> K \<Longrightarrow> \<not> prefix k q) \<Longrightarrow> node_at w' q = node_at w q"
  by (auto simp: confined_def)

lemma confined_one:
  assumes "wf_fs w" "same_env w w'" "at w p k" "node_at w k = None"
    and "\<And>q. q \<noteq> k \<Longrightarrow> node_at w' q = node_at w q"
  shows "confined {k} w w'"
  using one_change [OF assms] assms(2,5) by (auto simp: confined_def)

subsection \<open>The walk, one directory pair at a time\<close>

text \<open>
  \<open>ps\<close> and \<open>pd\<close> are the components of the two roots' paths, \<open>S\<close> and \<open>D\<close> the places they
  lead to, and \<open>src\<close> the source tree as it was.  A stage is a directory \<open>x\<close> that exists on
  both sides.
\<close>

definition walk_inv :: "(key \<Rightarrow> node option) \<Rightarrow> key \<Rightarrow> key \<Rightarrow> fsys \<Rightarrow> bool" where
  "walk_inv src S D w \<longleftrightarrow> wf_fs w \<and> S \<parallel> D \<and> (\<forall>y. node_at w (S @ y) = src y)"

definition stage :: "string list \<Rightarrow> string list \<Rightarrow> key \<Rightarrow> key \<Rightarrow> fsys \<Rightarrow> string list \<Rightarrow> bool" where
  "stage ps pd S D w x \<longleftrightarrow> plain_comps (ps @ x) \<and> plain_comps (pd @ x) \<and>
     at w (render True (ps @ x)) (S @ x) \<and> at w (render True (pd @ x)) (D @ x) \<and>
     dir_at w (S @ x) \<and> dir_at w (D @ x)"

text \<open>What a copied node looks like before the directory modes are restored.\<close>

definition copy_of :: "node \<Rightarrow> node \<Rightarrow> bool" where
  "copy_of n m \<longleftrightarrow> ntype n = TDir \<and> ntype m = TDir \<or>
     ntype n = TReg \<and> nlink n \<le> 1 \<and>
     m = \<lparr>ntype = TReg, nperm = Perm (Mode n), ndata = ndata n, nlink = 1\<rparr>"

definition copied_at :: "(key \<Rightarrow> node option) \<Rightarrow> key \<Rightarrow> fsys \<Rightarrow> key \<Rightarrow> bool" where
  "copied_at src D w z \<longleftrightarrow>
     (case src z of None \<Rightarrow> node_at w (D @ z) = None
      | Some n \<Rightarrow> \<exists>m. node_at w (D @ z) = Some m \<and> copy_of n m)"

definition pending_dirs ::
  "(key \<Rightarrow> node option) \<Rightarrow> string list \<Rightarrow> key set \<Rightarrow> pendingDirectoryMode set" where
  "pending_dirs src pd K =
     {\<lparr>pdPath = render True (pd @ z @ y), pdMode = nperm n AND ModeBits\<rparr> | z y n.
        z \<in> K \<and> src (z @ y) = Some n \<and> ntype n = TDir}"

definition pending_ok :: "string list \<Rightarrow> key \<Rightarrow> fsys \<Rightarrow> pendingDirectoryMode list \<Rightarrow> bool" where
  "pending_ok pd D w ds \<longleftrightarrow>
     (\<forall>d \<in> set ds. \<exists>x. plain_comps (pd @ x) \<and> pdPath d = render True (pd @ x) \<and>
        at w (pdPath d) (D @ x) \<and> dir_at w (D @ x))"

definition walk_post :: "(key \<Rightarrow> node option) \<Rightarrow> string list \<Rightarrow> key \<Rightarrow> key set \<Rightarrow>
    fsys \<Rightarrow> pendingDirectoryMode list \<Rightarrow> fsys \<Rightarrow> pendingDirectoryMode list \<Rightarrow> go_error option \<Rightarrow> bool" where
  "walk_post src pd D K w ds w' ds' r \<longleftrightarrow>
     confined ((@) D ` K) w w' \<and>
     (\<exists>new. ds' = ds @ new \<and> pending_ok pd D w' new \<and>
        (r = None \<longrightarrow> (\<forall>z \<in> K. \<forall>y. copied_at src D w' (z @ y)) \<and>
           set new = pending_dirs src pd K))"

lemma stage_ext: "stage ps pd S D w x \<Longrightarrow> fs_ext w w' \<Longrightarrow> stage ps pd S D w' x"
  unfolding stage_def by (blast intro: at_ext fs_ext_dir)

lemma pending_ok_ext: "pending_ok pd D w ds \<Longrightarrow> fs_ext w w' \<Longrightarrow> pending_ok pd D w' ds"
  unfolding pending_ok_def by (blast intro: at_ext fs_ext_dir)

lemma pending_ok_stage:
  "stage ps pd S D w x \<Longrightarrow> pending_ok pd D w [\<lparr>pdPath = render True (pd @ x), pdMode = m\<rparr>]"
  by (auto simp: pending_ok_def stage_def intro: exI [of _ x])

lemma pending_ok_append:
  "pending_ok pd D w (xs @ ys) \<longleftrightarrow> pending_ok pd D w xs \<and> pending_ok pd D w ys"
  by (auto simp: pending_ok_def)

lemma copied_at_cong:
  "node_at w' (D @ z) = node_at w (D @ z) \<Longrightarrow> copied_at src D w' z = copied_at src D w z"
  by (simp add: copied_at_def cong: option.case_cong)

lemma pending_dirs_Un: "pending_dirs src pd (K \<union> L) = pending_dirs src pd K \<union> pending_dirs src pd L"
  by (auto simp: pending_dirs_def)

lemma parallel_under: "S \<parallel> D \<Longrightarrow> \<not> prefix (D @ x) (S @ y)"
  by (meson parallel_def prefix_order.trans prefix_prefix prefixI prefix_same_cases)

lemma walk_inv_confined:
  assumes "walk_inv src S D w" "confined ((@) D ` K) w w'"
  shows "walk_inv src S D w'"
proof -
  have p: "S \<parallel> D" using assms(1) by (simp add: walk_inv_def)
  have "node_at w' (S @ y) = node_at w (S @ y)" for y
    by (rule confinedD(4) [OF assms(2)]) (auto simp: parallel_under [OF p])
  with assms confinedD(1) [OF assms(2)] show ?thesis by (simp add: walk_inv_def)
qed

lemma walk_post_error:
  "wf_fs w \<Longrightarrow> walk_post src pd D K w ds w ds (Some e)"
  by (auto simp: walk_post_def confined_refl pending_ok_def)

lemma parallel_not_under: "z \<parallel> l \<Longrightarrow> \<not> prefix l (z @ y)"
  by (meson parallel_def prefixI prefix_same_cases)

text \<open>One entry's outcome followed by the rest's.\<close>

lemma walk_post_Un:
  assumes "walk_post src pd D K w ds w1 ds1 None" "walk_post src pd D L w1 ds1 w2 ds2 r"
    and "\<And>k l. k \<in> K \<Longrightarrow> l \<in> L \<Longrightarrow> k \<parallel> l"
  shows "walk_post src pd D (K \<union> L) w ds w2 ds2 r"
proof -
  from assms(1) obtain new1 where 1: "confined ((@) D ` K) w w1" "ds1 = ds @ new1"
      "pending_ok pd D w1 new1" "\<forall>z \<in> K. \<forall>y. copied_at src D w1 (z @ y)"
      "set new1 = pending_dirs src pd K"
    by (auto simp: walk_post_def)
  from assms(2) obtain new2 where 2: "confined ((@) D ` L) w1 w2" "ds2 = ds1 @ new2"
      "pending_ok pd D w2 new2"
      "r = None \<longrightarrow> (\<forall>z \<in> L. \<forall>y. copied_at src D w2 (z @ y)) \<and> set new2 = pending_dirs src pd L"
    unfolding walk_post_def by blast
  have keep: "copied_at src D w2 (z @ y)" if "z \<in> K" for z y
  proof -
    have "node_at w2 (D @ z @ y) = node_at w1 (D @ z @ y)"
    proof (rule confinedD(4) [OF 2(1)])
      fix k assume "k \<in> (@) D ` L"
      then obtain l where "k = D @ l" "l \<in> L" by blast
      with assms(3) [OF that] show "\<not> prefix k (D @ z @ y)"
        by (auto dest: parallel_not_under)
    qed
    moreover have "copied_at src D w1 (z @ y)" using 1(4) that by blast
    ultimately show ?thesis by (simp add: copied_at_cong [of w2 D _ w1])
  qed
  have "confined ((@) D ` (K \<union> L)) w w2"
    using confined_trans [OF 1(1) 2(1)] by (simp add: image_Un)
  moreover have "pending_ok pd D w2 (new1 @ new2)"
    using pending_ok_ext [OF 1(3) confinedD(2) [OF 2(1)]] 2(3) by (simp add: pending_ok_append)
  ultimately show ?thesis
    unfolding walk_post_def using 1(2,5) 2(2,4) keep
    by (intro conjI exI [of _ "new1 @ new2"]) (auto simp: pending_dirs_Un)
qed

text \<open>A directory made, and then its entries.\<close>

lemma walk_post_dir:
  assumes src: "src x = Some n" "ntype n = TDir"
    and names: "\<And>c. src (x @ [c]) \<noteq> None \<longleftrightarrow> c \<in> set cs"
      "\<And>c y. src (x @ [c]) = None \<Longrightarrow> src (x @ c # y) = None"
    and made: "confined {D @ x} w w1" "stage ps pd S D w1 x"
      "\<And>y. y \<noteq> [] \<Longrightarrow> node_at w1 (D @ x @ y) = None"
      "ds1 = ds @ [\<lparr>pdPath = render True (pd @ x), pdMode = nperm n AND ModeBits\<rparr>]"
    and rest: "walk_post src pd D ((\<lambda>c. x @ [c]) ` set cs) w1 ds1 w2 ds2 r"
  shows "walk_post src pd D {x} w ds w2 ds2 r"
proof -
  let ?d = "\<lparr>pdPath = render True (pd @ x), pdMode = nperm n AND ModeBits\<rparr>"
  let ?L = "(\<lambda>c. x @ [c]) ` set cs"
  from rest obtain new where new: "confined ((@) D ` ?L) w1 w2" "ds2 = ds1 @ new"
      "pending_ok pd D w2 new"
      "r = None \<Longrightarrow> \<forall>z \<in> ?L. \<forall>y. copied_at src D w2 (z @ y)"
      "r = None \<Longrightarrow> set new = pending_dirs src pd ?L"
    unfolding walk_post_def by blast
  have st: "stage ps pd S D w2 x" using made(2) confinedD(2) [OF new(1)] by (rule stage_ext)
  have "confined ({D @ x} \<union> (@) D ` ?L) w w2" using made(1) new(1) by (rule confined_trans)
  then have conf: "confined ((@) D ` {x}) w w2" by (rule confined_mono) auto
  have ok: "pending_ok pd D w2 (?d # new)"
    using st new(3) by (auto simp: pending_ok_def stage_def)
  have cp: "copied_at src D w2 (x @ y)" if "r = None" for y
  proof (cases y)
    case Nil
    with st src show ?thesis
      by (auto simp: copied_at_def copy_of_def stage_def dir_at_def split: option.splits)
  next
    case (Cons c y')
    show ?thesis
    proof (cases "c \<in> set cs")
      case True
      then have "x @ [c] \<in> ?L" by blast
      with new(4) [OF that] have "copied_at src D w2 ((x @ [c]) @ y')" by blast
      then show ?thesis using Cons by simp
    next
      case False
      have "node_at w2 (D @ x @ y) = node_at w1 (D @ x @ y)"
        by (rule confinedD(4) [OF new(1)]) (use False Cons in auto)
      moreover have "src (x @ c # y') = None" using names False by blast
      ultimately show ?thesis using made(3) [of y] Cons by (simp add: copied_at_def)
    qed
  qed
  have dirs: "insert ?d (pending_dirs src pd ?L) = pending_dirs src pd {x}"
  proof (intro equalityI subsetI)
    fix p assume "p \<in> pending_dirs src pd {x}"
    then obtain y m where p: "p = \<lparr>pdPath = render True (pd @ x @ y), pdMode = nperm m AND ModeBits\<rparr>"
        "src (x @ y) = Some m" "ntype m = TDir" by (auto simp: pending_dirs_def)
    show "p \<in> insert ?d (pending_dirs src pd ?L)"
    proof (cases y)
      case Nil
      with p src show ?thesis by simp
    next
      case (Cons c y')
      with p names(2) [of c y'] have "c \<in> set cs" using names(1) by auto
      then have "x @ [c] \<in> ?L" by blast
      moreover have "p = \<lparr>pdPath = render True (pd @ (x @ [c]) @ y'), pdMode = nperm m AND ModeBits\<rparr>"
        "src ((x @ [c]) @ y') = Some m"
        using p Cons by simp_all
      ultimately show ?thesis using p(3) unfolding pending_dirs_def by blast
    qed
  next
    fix p assume "p \<in> insert ?d (pending_dirs src pd ?L)"
    then show "p \<in> pending_dirs src pd {x}"
    proof
      assume "p = ?d"
      with src show ?thesis
        by (auto simp: pending_dirs_def intro!: exI [of _ "[]"])
    next
      assume "p \<in> pending_dirs src pd ?L"
      then obtain c y m where "p = \<lparr>pdPath = render True (pd @ x @ (c # y)), pdMode = nperm m AND ModeBits\<rparr>"
          "src (x @ (c # y)) = Some m" "ntype m = TDir" by (auto simp: pending_dirs_def)
      then show ?thesis unfolding pending_dirs_def by blast
    qed
  qed
  show ?thesis
    unfolding walk_post_def
    using conf ok made(4) new(2) cp new(5) dirs
    by (intro conjI exI [of _ "?d # new"]) auto
qed

text \<open>The callback on one entry: it stops, makes a directory, or clones a file.\<close>

context exclusive_reflinker
begin

lemma visit_entry:
  assumes inv: "walk_inv src S D w" and st: "stage ps pd S D w x"
    and c: "plain_comp c" "src (x @ [c]) = Some n" and fresh: "node_at w (D @ x @ [c]) = None"
    and v: "tree_visit rl (render True ps) (render True pd) (w, ds) (render True (ps @ x @ [c]))
      isdir None = ((w1, ds1), r)"
  obtains (stop) e where "r = Some e" "walk_post src pd D {x @ [c]} w ds w1 ds1 r"
    | (cloned) "r = None" "ntype n = TReg" "walk_post src pd D {x @ [c]} w ds w1 ds1 r"
    | (made) "r = None" "ntype n = TDir" "confined {D @ x @ [c]} w w1" "stage ps pd S D w1 (x @ [c])"
        "\<And>y. y \<noteq> [] \<Longrightarrow> node_at w1 (D @ x @ [c] @ y) = None"
        "ds1 = ds @ [\<lparr>pdPath = render True (pd @ x @ [c]), pdMode = nperm n AND ModeBits\<rparr>]"
proof -
  let ?p = "render True (ps @ x @ [c])" and ?t = "render True (pd @ x @ [c])"
  have wf: "wf_fs w" and SD: "S \<parallel> D" and nS: "node_at w (S @ x @ [c]) = Some n"
    using inv c(2) by (auto simp: walk_inv_def)
  have pl: "plain_comps (ps @ x)" "plain_comps (pd @ x)"
    and Sx: "at w (render True (ps @ x)) (S @ x)" and Dx: "at w (render True (pd @ x)) (D @ x)"
    and dD: "dir_at w (D @ x)"
    using st by (auto simp: stage_def)
  have jp: "?p = Join [render True (ps @ x), c]" and jt: "?t = Join [render True (pd @ x), c]"
    using pl c by (simp_all add: Join_name)
  have below: "node_at w (D @ (x @ [c]) @ y) = None" for y
    using wf_fs_none [OF wf fresh, of y] by simp
  have neq: "?p \<noteq> render True ps"
    using render_inject [of True "ps @ x @ [c]" ps] pl c by auto
  have rel: "Rel (render True ps) ?p = Inr (render False (x @ [c]))"
    using pl c by (intro Rel_render) auto
  have tgt: "Join [render True pd, render False (x @ [c])] = ?t"
    using pl c by (intro Join_render) auto
  show ?thesis
  proof (cases "os_Lstat w ?p")
    case (Inl e)
    with v neq wf show ?thesis
      by (intro stop [of e]) (auto simp: tree_visit_def intro: walk_post_error)
  next
    case (Inr info)
    from Lstat_child [OF Inr [unfolded jp] at_leads [OF Sx] c(1)] nS
    have info: "info = n" and atS: "ntype n \<noteq> TSymlink \<Longrightarrow> at w ?p (S @ x @ [c])"
      by (auto simp: jp)
    note v' = v [unfolded tree_visit_def, simplified, unfolded Inr rel, simplified neq,
        simplified, unfolded tgt Let_def info]
    consider "ntype n = TSymlink" | "ntype n = TOther" | "ntype n = TDir" | "ntype n = TReg"
      by (cases "ntype n") auto
    then show ?thesis
    proof cases
      case 1
      with v' wf show ?thesis
        by (intro stop) (auto simp: intro: walk_post_error)
    next
      case 2
      with v' wf show ?thesis
        by (intro stop) (auto simp: intro: walk_post_error)
    next
      case 3
      obtain w2 rm where mk: "os_Mkdir w ?t temporaryDirectoryMode = (w2, rm)" by fastforce
      show ?thesis
      proof (cases rm)
        case (Some e)
        with mk have "w2 = w" by (auto dest: Mkdir_Some)
        with v' 3 mk Some wf show ?thesis
          by (intro stop [of e]) (auto simp: intro: walk_post_error)
      next
        case None
        note mk' = Mkdir_child [OF mk [unfolded None jt] at_leads [OF Dx] c(1)]
        have w1: "w1 = put_node w (D @ x @ [c]) (new_dir w (D @ x @ [c]) temporaryDirectoryMode)"
          and ds1: "ds1 = ds @ [\<lparr>pdPath = ?t, pdMode = nperm n AND ModeBits\<rparr>]" and r: "r = None"
          using v' 3 mk None mk'(4) by (auto simp: exactDirectoryMode_Mode)
        have conf: "confined {D @ x @ [c]} w w1"
          using wf mk'(3) fresh w1 jt
          by (intro confined_one [of _ _ ?t]) (auto simp: fs_simps)
        have ext: "fs_ext w w1" using conf by (rule confinedD)
        have "dir_at w (S @ x @ [c])" using nS 3 by (simp add: dir_at_def)
        with 3 atS ext have "at w1 ?p (S @ x @ [c])" "dir_at w1 (S @ x @ [c])"
          by (auto intro: at_ext fs_ext_dir)
        moreover have "at w1 ?t (D @ x @ [c])"
          using at_free_ext [OF mk'(3) [simplified] _ wf ext] fresh w1 jt
          by (simp add: fs_simps new_dir_def)
        moreover have "dir_at w1 (D @ x @ [c])"
          using w1 by (simp add: fs_simps new_dir_def)
        ultimately have "stage ps pd S D w1 (x @ [c])"
          using pl c by (auto simp: stage_def)
        moreover have "node_at w1 (D @ x @ [c] @ y) = None" if "y \<noteq> []" for y
          using below [of y] that w1 by (auto simp: fs_simps)
        ultimately show ?thesis using made r 3 conf ds1 by blast
      qed
    next
      case 4
      show ?thesis
      proof (cases "nlink n > 1 \<or> PATH_MAX \<le> length ?t")
        case True
        have "w1 = w \<and> ds1 = ds \<and> r \<noteq> None"
        proof (cases "nlink n > 1")
          case True
          with v' 4 show ?thesis by (auto simp: RejectHardlink_def)
        next
          case False
          with True have "PATH_MAX \<le> length ?t" by simp
          moreover have "IsAbs ?t" using pl c by (intro IsAbs_render [THEN iffD2]) auto
          ultimately show ?thesis
            using v' 4 False rl_long [of w ?p ?t "Perm (Mode n)"]
            by (auto simp: RejectHardlink_def split: prod.splits)
        qed
        then obtain e where "w1 = w" "ds1 = ds" "r = Some e" by auto
        with wf show ?thesis by (intro stop [of e]) (auto intro: walk_post_error)
      next
        case False
        then have rl: "rl w ?p ?t (Perm (Mode n)) = (w1, r)" and ds1: "ds1 = ds"
          using v' 4 by (auto simp: RejectHardlink_def split: prod.splits)
        have atD: "at w ?t (D @ x @ [c])"
          unfolding jt using at_child [OF at_leads [OF Dx] c(1) dD] False fresh jt by simp
        have a: "at w ?p (S @ x @ [c])" using 4 atS by simp
        note rl' = wf rl a nS 4 atD fresh
        have conf: "confined {D @ x @ [c]} w w1"
          using wf rl_env [OF rl'] atD fresh rl_others [OF rl'] by (rule confined_one)
        have none: "src ((x @ [c]) @ y) = None" if "y \<noteq> []" for y
        proof -
          have "node_at w ((S @ x @ [c]) @ y) = None"
            using wf_fs_prefix [OF wf, of "S @ x @ [c]" y] that nS 4
            by (cases "node_at w ((S @ x @ [c]) @ y)") (auto simp: dir_at_def)
          with inv show ?thesis by (simp add: walk_inv_def)
        qed
        have pend: "pending_dirs src pd {x @ [c]} = {}"
          using none c(2) 4 by (auto simp: pending_dirs_def) (metis append_Nil2 ntype.distinct(1) option.inject option.distinct(1))
        have cp: "copied_at src D w1 ((x @ [c]) @ y)" if "r = None" for y
        proof (cases "y = []")
          case True
          from rl_exact [OF wf rl [unfolded that] a nS 4 atD fresh] False
          show ?thesis using True c(2) 4 by (simp add: copied_at_def copy_of_def)
        next
          case False
          have "node_at w1 (D @ (x @ [c]) @ y) = None"
            using rl_others [OF rl', of "D @ (x @ [c]) @ y"] below [of y] False by simp
          with none [OF False] show ?thesis by (simp add: copied_at_def)
        qed
        have "walk_post src pd D {x @ [c]} w ds w1 ds1 r"
          unfolding walk_post_def using conf ds1 cp pend by (auto simp: pending_ok_def)
        with stop cloned 4 show ?thesis by (cases r) auto
      qed
    qed
  qed
qed

text \<open>All entries of a directory, given that the walk is right on each.\<close>

abbreviation visit :: "string list \<Rightarrow> string list \<Rightarrow> (fsys \<times> pendingDirectoryMode list) walk_fn" where
  "visit ps pd \<equiv> tree_visit rl (render True ps) (render True pd)"

lemma walkEntries_post:
  assumes one: "\<And>w ds c d1 w' ds' r. walk_inv src S D w \<Longrightarrow> stage ps pd S D w x \<Longrightarrow>
      plain_comp c \<Longrightarrow> src (x @ [c]) = Some d1 \<Longrightarrow> node_at w (D @ x @ [c]) = None \<Longrightarrow>
      walkDir fuel (visit ps pd) (w, ds) (render True (ps @ x @ [c])) (IsDir d1) =
        Some ((w', ds'), r) \<Longrightarrow> walk_post src pd D {x @ [c]} w ds w' ds' r"
    and "walk_inv src S D w" "stage ps pd S D w x" "distinct cs"
    and "\<forall>c \<in> set cs. plain_comp c \<and> src (x @ [c]) \<noteq> None \<and> node_at w (D @ x @ [c]) = None"
    and "walkEntries fuel (visit ps pd) (w, ds) (render True (ps @ x))
      (map (\<lambda>c. (c, the (src (x @ [c])))) cs) = Some ((w', ds'), r)"
  shows "walk_post src pd D ((\<lambda>c. x @ [c]) ` set cs) w ds w' ds' r"
  using assms(2-)
proof (induction cs arbitrary: w ds)
  case Nil
  then show ?case
    by (auto simp: walk_post_def walk_inv_def confined_refl pending_ok_def pending_dirs_def)
next
  case (Cons c cs)
  then obtain d1 where c: "plain_comp c" "src (x @ [c]) = Some d1" "node_at w (D @ x @ [c]) = None"
    by auto
  have "plain_comps (ps @ x)" using Cons.prems(2) by (simp add: stage_def)
  then have path: "Join [render True (ps @ x), c] = render True (ps @ x @ [c])"
    using c(1) by (simp add: Join_name)
  from Cons.prems(5) c(2) path obtain w1 ds1 r1 where
      wd: "walkDir fuel (visit ps pd) (w, ds) (render True (ps @ x @ [c])) (IsDir d1) =
        Some ((w1, ds1), r1)"
    by (auto split: option.splits)
  note p1 = one [OF Cons.prems(1,2) c wd]
  show ?case
  proof (cases r1)
    case (Some e)
    with Cons.prems(5) c(2) path wd have "w' = w1" "ds' = ds1" "r = Some e" by auto
    with p1 Some show ?thesis
      unfolding walk_post_def by (auto elim!: confined_mono)
  next
    case None
    have conf: "confined {D @ x @ [c]} w w1" using p1 by (auto simp: walk_post_def)
    have fresh: "node_at w1 (D @ x @ [c']) = None" if "c' \<in> set cs" for c'
      using confinedD(4) [OF conf, of "D @ x @ [c']"] that Cons.prems(3,4) by auto
    have inv: "walk_inv src S D w1"
      by (rule walk_inv_confined [OF Cons.prems(1)]) (use p1 in \<open>unfold walk_post_def, blast\<close>)
    have st: "stage ps pd S D w1 x" using stage_ext [OF Cons.prems(2) confinedD(2) [OF conf]] .
    have "walkEntries fuel (visit ps pd) (w1, ds1) (render True (ps @ x))
        (map (\<lambda>c. (c, the (src (x @ [c])))) cs) = Some ((w', ds'), r)"
      using Cons.prems(5) c(2) path wd None by simp
    from Cons.IH [OF inv st _ _ this] fresh Cons.prems(3,4)
    have "walk_post src pd D ((\<lambda>c. x @ [c]) ` set cs) w1 ds1 w' ds' r" by simp
    moreover have "k \<parallel> l" if "k \<in> {x @ [c]}" "l \<in> (\<lambda>c. x @ [c]) ` set cs" for k l
      using that Cons.prems(3) by (auto simp: parallel_def)
    ultimately have "walk_post src pd D ({x @ [c]} \<union> (\<lambda>c. x @ [c]) ` set cs) w ds w' ds' r"
      by (rule walk_post_Un [OF p1 [unfolded None]])
    then show ?thesis by simp
  qed
qed

lemma walkDir_post:
  "walk_inv src S D w \<Longrightarrow> stage ps pd S D w x \<Longrightarrow> plain_comp c \<Longrightarrow> src (x @ [c]) = Some d1 \<Longrightarrow>
   node_at w (D @ x @ [c]) = None \<Longrightarrow>
   walkDir fuel (visit ps pd) (w, ds) (render True (ps @ x @ [c])) (IsDir d1) =
     Some ((w', ds'), r) \<Longrightarrow>
   walk_post src pd D {x @ [c]} w ds w' ds' r"
proof (induction fuel arbitrary: w ds x c d1 w' ds' r)
  case 0
  then show ?case by simp
next
  case (Suc fuel)
  obtain w1 ds1 r1 where v: "visit ps pd (w, ds) (render True (ps @ x @ [c])) (IsDir d1) None =
      ((w1, ds1), r1)" by (metis prod_cases3 surj_pair)
  note wd = Suc.prems(6) [unfolded walkDir.simps v, simplified]
  from Suc.prems(1-5) v show ?case
  proof (cases rule: visit_entry)
    case (stop e)
    with wd show ?thesis by simp
  next
    case cloned
    with wd show ?thesis by simp
  next
    case made
    have conf: "confined ((@) D ` {x @ [c]}) w w1" using made(3) by simp
    note inv1 = walk_inv_confined [OF Suc.prems(1) conf]
    then have wf1: "wf_fs w1" and src1: "\<And>y. src y = node_at w1 (S @ y)"
      by (auto simp: walk_inv_def)
    show ?thesis
    proof (cases "os_ReadDir w1 (render True (ps @ x @ [c]))")
      case (Inl e)
      with wd made have "w' = w1" "ds' = ds1" "r = Some e" by (auto simp: tree_visit_def)
      with made show ?thesis unfolding walk_post_def
        by (intro conjI exI [of _ "[\<lparr>pdPath = render True (pd @ x @ [c]), pdMode = nperm d1 AND ModeBits\<rparr>]"])
          (auto intro: pending_ok_stage)
    next
      case (Inr es)
      let ?cs = "child_names w1 (S @ x @ [c])"
      have "at w1 (render True (ps @ x @ [c])) (S @ x @ [c])" using made(4) by (simp add: stage_def)
      from ReadDir_at [OF Inr this]
      have es: "es = map (\<lambda>c'. (c', the (src ((x @ [c]) @ [c'])))) ?cs" by (simp add: src1)
      have names: "src ((x @ [c]) @ [c']) \<noteq> None \<longleftrightarrow> c' \<in> set ?cs" for c' by (simp add: src1)
      have none: "src ((x @ [c]) @ c' # y) = None" if "src ((x @ [c]) @ [c']) = None" for c' y
        using that wf_fs_none [OF wf1, of "S @ x @ [c, c']" y] by (simp add: src1)
      have each: "\<forall>c' \<in> set ?cs. plain_comp c' \<and> src ((x @ [c]) @ [c']) \<noteq> None \<and>
          node_at w1 (D @ (x @ [c]) @ [c']) = None"
        using names made(5) wf_fs_child [OF wf1, of "S @ x @ [c]"] by (fastforce simp: src1)
      have we: "walkEntries fuel (visit ps pd) (w1, ds1) (render True (ps @ (x @ [c])))
          (map (\<lambda>c'. (c', the (src ((x @ [c]) @ [c'])))) ?cs) = Some ((w', ds'), r)"
        using wd made Inr by (simp add: es)
      have "walk_post src pd D ((\<lambda>c'. (x @ [c]) @ [c']) ` set ?cs) w1 ds1 w' ds' r"
        by (rule walkEntries_post [OF _ inv1 made(4) child_names_distinct each we])
          (use Suc.IH [of _ "x @ [c]"] in auto)
      then show ?thesis
        by (rule walk_post_dir [OF Suc.prems(4) made(2) names none, rotated -1])
          (use made in auto)
    qed
  qed
qed

end

subsection \<open>Restoring the modes\<close>

text \<open>Only the mode bits of directories change, and only of the pending ones.\<close>

definition mode_change :: "node option \<Rightarrow> node option \<Rightarrow> bool" where
  "mode_change a b \<longleftrightarrow>
     b = a \<or> (\<exists>n m. a = Some n \<and> ntype n = TDir \<and> b = Some (n\<lparr>nperm := m\<rparr>))"

lemma mode_change_refl [simp]: "mode_change a a"
  by (simp add: mode_change_def)

lemma mode_change_put: "ntype n = TDir \<Longrightarrow> mode_change (Some n) (Some (n\<lparr>nperm := m\<rparr>))"
  by (auto simp: mode_change_def)

lemma mode_change_cases:
  assumes "mode_change a b"
  obtains "b = a" | n m where "a = Some n" "ntype n = TDir" "b = Some (n\<lparr>nperm := m\<rparr>)"
  using assms unfolding mode_change_def by blast

lemma mode_change_trans: "mode_change a b \<Longrightarrow> mode_change b c \<Longrightarrow> mode_change a c"
proof (erule mode_change_cases)
  fix n m assume a: "a = Some n" "ntype n = TDir" "b = Some (n\<lparr>nperm := m\<rparr>)" and bc: "mode_change b c"
  from bc show ?thesis
  proof (cases rule: mode_change_cases)
    case 1
    with a show ?thesis by (simp add: mode_change_put)
  next
    case (2 n' m')
    with a have "c = Some (n\<lparr>nperm := m'\<rparr>)" by auto
    with a show ?thesis by (simp add: mode_change_put)
  qed
qed simp

definition modes_only :: "key set \<Rightarrow> fsys \<Rightarrow> fsys \<Rightarrow> bool" where
  "modes_only K w w' \<longleftrightarrow> wf_fs w' \<and> fs_ext w w' \<and> same_env w w' \<and>
     (\<forall>q. mode_change (node_at w q) (node_at w' q)) \<and>
     (\<forall>q. q \<notin> K \<longrightarrow> node_at w' q = node_at w q)"

lemma modes_only_trans:
  assumes "modes_only K w w'" "modes_only K w' w''"
  shows "modes_only K w w''"
  using assms unfolding modes_only_def
  by (auto intro: fs_ext_trans same_env_trans mode_change_trans)

lemma modes_only_chmod:
  assumes "wf_fs w" "os_Chmod w p m = (w', r)" "at w p k" "dir_at w k"
  shows "modes_only {k} w w'"
    and "r = None \<Longrightarrow> \<exists>n. node_at w k = Some n \<and> w' = put_node w k (n\<lparr>nperm := m AND ModeBits\<rparr>)"
proof -
  show "r = None \<Longrightarrow> \<exists>n. node_at w k = Some n \<and> w' = put_node w k (n\<lparr>nperm := m AND ModeBits\<rparr>)"
    using assms Chmod_at by blast
  show "modes_only {k} w w'"
  proof (cases r)
    case None
    with assms obtain n where "node_at w k = Some n" "ntype n = TDir"
        "w' = put_node w k (n\<lparr>nperm := m AND ModeBits\<rparr>)"
      using Chmod_at by (fastforce simp: dir_at_def)
    with assms(1) show ?thesis
      by (auto simp: modes_only_def fs_simps intro!: fs_ext_put wf_fs_put_old mode_change_put)
  next
    case (Some e)
    with assms have "w' = w" by (auto dest: Chmod_Some)
    with assms(1) show ?thesis by (simp add: modes_only_def)
  qed
qed

lemma modes_only_mono: "modes_only K w w' \<Longrightarrow> K \<subseteq> L \<Longrightarrow> modes_only L w w'"
  unfolding modes_only_def by blast

lemma modes_onlyD:
  "modes_only K w w' \<Longrightarrow> wf_fs w'" "modes_only K w w' \<Longrightarrow> fs_ext w w'"
  "modes_only K w w' \<Longrightarrow> same_env w w'" "modes_only K w w' \<Longrightarrow> q \<notin> K \<Longrightarrow> node_at w' q = node_at w q"
  by (auto simp: modes_only_def)

lemma restore_frame:
  "wf_fs w \<Longrightarrow> pending_ok pd D w ds \<Longrightarrow> restore_loop w ds = (w', r) \<Longrightarrow>
   modes_only {q. prefix D q} w w'"
proof (induction ds arbitrary: w)
  case Nil
  then show ?case by (simp add: modes_only_def)
next
  case (Cons d ds)
  from Cons.prems(2) obtain x where x: "at w (pdPath d) (D @ x)" "dir_at w (D @ x)"
      and rest: "pending_ok pd D w ds"
    by (auto simp: pending_ok_def)
  obtain w1 r1 where c: "os_Chmod w (pdPath d) (pdMode d) = (w1, r1)" by fastforce
  from modes_only_chmod(1) [OF Cons.prems(1) c x]
  have m: "modes_only {q. prefix D q} w w1" by (rule modes_only_mono) auto
  show ?case
  proof (cases r1)
    case None
    have "pending_ok pd D w1 ds" using rest modes_onlyD(2) [OF m] by (rule pending_ok_ext)
    with Cons.IH [OF modes_onlyD(1) [OF m]] Cons.prems(3) c None
    show ?thesis by (auto intro: modes_only_trans [OF m])
  next
    case (Some e)
    with Cons.prems(3) c m show ?thesis by simp
  qed
qed

text \<open>After a restoration without error every pending directory has the mode \<open>g\<close> gives it.\<close>

definition pending_modes :: "string list \<Rightarrow> (string list \<Rightarrow> FileMode) \<Rightarrow> pendingDirectoryMode list \<Rightarrow> bool"
  where "pending_modes pd g ds \<longleftrightarrow>
    (\<forall>d \<in> set ds. \<forall>x. plain_comps (pd @ x) \<and> pdPath d = render True (pd @ x) \<longrightarrow> pdMode d = g x)"

lemma restore_modes:
  "wf_fs w \<Longrightarrow> pending_ok pd D w ds \<Longrightarrow> restore_loop w ds = (w', None) \<Longrightarrow> pending_modes pd g ds \<Longrightarrow>
   d \<in> set ds \<or> (\<exists>n. node_at w (D @ x) = Some n \<and> nperm n = g x AND ModeBits) \<Longrightarrow>
   plain_comps (pd @ x) \<Longrightarrow> pdPath d = render True (pd @ x) \<Longrightarrow>
   \<exists>n. node_at w' (D @ x) = Some n \<and> nperm n = g x AND ModeBits"
proof (induction ds arbitrary: w)
  case Nil
  then show ?case by simp
next
  case (Cons d' ds)
  from Cons.prems(2) obtain y where y: "plain_comps (pd @ y)" "pdPath d' = render True (pd @ y)"
      "at w (pdPath d') (D @ y)" "dir_at w (D @ y)" and rest: "pending_ok pd D w ds"
    by (auto simp: pending_ok_def)
  obtain w1 r1 where c: "os_Chmod w (pdPath d') (pdMode d') = (w1, r1)" by fastforce
  with Cons.prems(3) have r: "restore_loop w1 ds = (w', None)" and c': "r1 = None"
    by (auto split: option.splits)
  note mo = modes_only_chmod [OF Cons.prems(1) c y(3,4)]
  obtain n where n: "node_at w (D @ y) = Some n"
      and w1: "w1 = put_node w (D @ y) (n\<lparr>nperm := pdMode d' AND ModeBits\<rparr>)"
    using mo(2) c' by blast
  have g: "pdMode d' = g y" using Cons.prems(4) y by (auto simp: pending_modes_def)
  have "d \<in> set ds \<or> (\<exists>m. node_at w1 (D @ x) = Some m \<and> nperm m = g x AND ModeBits)"
  proof (cases "d = d'")
    case True
    with Cons.prems(6,7) y have "x = y" using render_inject [of True "pd @ x" "pd @ y"] by simp
    with w1 g show ?thesis by (simp add: fs_simps)
  next
    case False
    with Cons.prems(5) w1 g show ?thesis by (auto simp: fs_simps)
  qed
  with Cons.IH [OF modes_onlyD(1) [OF mo(1)] pending_ok_ext [OF rest modes_onlyD(2) [OF mo(1)]] r]
    Cons.prems(4,6,7)
  show ?case by (auto simp: pending_modes_def)
qed

subsection \<open>The whole clone\<close>

text \<open>
  \<open>mirrored\<close>: what lies at and below \<open>D\<close> in \<open>w'\<close> is a copy of what lay at and below \<open>S\<close> in
  \<open>w\<close>.  A directory keeps its permission, setuid, setgid and sticky bits, a file its
  permission bits and its data.
\<close>

definition mirror_node :: "node \<Rightarrow> node \<Rightarrow> bool" where
  "mirror_node n m \<longleftrightarrow>
     ntype n = TDir \<and> ntype m = TDir \<and> nperm m = nperm n AND ModeBits \<or>
     ntype n = TReg \<and> nlink n \<le> 1 \<and>
       m = \<lparr>ntype = TReg, nperm = nperm n AND ModePerm, ndata = ndata n, nlink = 1\<rparr>"

definition mirrored :: "fsys \<Rightarrow> key \<Rightarrow> fsys \<Rightarrow> key \<Rightarrow> bool" where
  "mirrored w S w' D \<longleftrightarrow>
     (\<forall>y. rel_option mirror_node (node_at w (S @ y)) (node_at w' (D @ y)))"

lemma modes_only_confined: "modes_only {q. prefix D q} w w' \<Longrightarrow> confined {D} w w'"
  by (auto simp: modes_only_def confined_def)

lemma rev_pending [simp]:
  "pending_ok pd D w (rev ds) = pending_ok pd D w ds"
  "pending_modes pd g (rev ds) = pending_modes pd g ds"
  by (simp_all add: pending_ok_def pending_modes_def)

lemma pending_dirs_modes:
  assumes "set ds = pending_dirs src pd {[]}" "plain_comps pd" "\<And>y. src y \<noteq> None \<Longrightarrow> plain_comps y"
  shows "pending_modes pd (\<lambda>x. case src x of None \<Rightarrow> 0 | Some n \<Rightarrow> nperm n AND ModeBits) ds"
  unfolding pending_modes_def
proof (intro ballI allI impI, elim conjE)
  fix d x assume "d \<in> set ds" and x: "plain_comps (pd @ x)" "pdPath d = render True (pd @ x)"
  then obtain y n where y: "d = \<lparr>pdPath = render True (pd @ y), pdMode = nperm n AND ModeBits\<rparr>"
      "src y = Some n" using assms(1) by (auto simp: pending_dirs_def)
  then have "plain_comps (pd @ y)" using assms(2,3) by simp
  with x y have "pd @ x = pd @ y" by (intro render_inject [of True]) auto
  with y show "pdMode d = (case src x of None \<Rightarrow> 0 | Some n \<Rightarrow> nperm n AND ModeBits)" by simp
qed

text \<open>Restored modes on top of a finished walk make a mirror.\<close>

lemma restored_mirror:
  assumes wf0: "wf_fs w0" and pd: "plain_comps pd"
    and post: "walk_post (\<lambda>y. node_at w0 (S @ y)) pd D {[]} w1 [] w ds None"
    and res: "restoreDirectoryModes w ds = (w', None)"
  shows "mirrored w0 S w' D"
  unfolding mirrored_def
proof
  fix y
  let ?src = "\<lambda>y. node_at w0 (S @ y)"
  from post have ok: "pending_ok pd D w (rev ds)" and dirs: "set ds = pending_dirs ?src pd {[]}"
    and wf: "wf_fs w" and cp: "copied_at ?src D w y"
    by (auto simp: walk_post_def confined_def)
  note r = res [unfolded restoreDirectoryModes_def]
  have "modes_only {q. prefix D q} w w'" using wf ok r by (rule restore_frame)
  then have ch: "mode_change (node_at w (D @ y)) (node_at w' (D @ y))" by (simp add: modes_only_def)
  show "rel_option mirror_node (node_at w0 (S @ y)) (node_at w' (D @ y))"
  proof (cases "node_at w0 (S @ y)")
    case None
    with cp ch show ?thesis by (simp add: copied_at_def mode_change_def)
  next
    case (Some n)
    with cp obtain m where m: "node_at w (D @ y) = Some m" "copy_of n m"
      by (auto simp: copied_at_def)
    show ?thesis
    proof (cases "ntype n = TDir")
      case True
      let ?d = "\<lparr>pdPath = render True (pd @ y), pdMode = nperm n AND ModeBits\<rparr>"
      have pl: "plain_comps (pd @ y)" using pd wf_fs_plain_below [OF wf0, of S y] Some by simp
      have mo: "pending_modes pd (\<lambda>x. case ?src x of None \<Rightarrow> 0 | Some n \<Rightarrow> nperm n AND ModeBits)
          (rev ds)"
        using pending_dirs_modes [OF dirs pd] wf_fs_plain_below [OF wf0] by simp
      have "?d \<in> set (rev ds)"
        using True Some dirs by (auto simp: pending_dirs_def)
      then have "\<exists>m'. node_at w' (D @ y) = Some m' \<and>
          nperm m' = (case ?src y of None \<Rightarrow> 0 | Some n \<Rightarrow> nperm n AND ModeBits) AND ModeBits"
        by (intro restore_modes [OF wf ok r mo, of ?d y] disjI1 pl) simp_all
      then obtain m' where m': "node_at w' (D @ y) = Some m'" "nperm m' = nperm n AND ModeBits"
        using Some by (auto simp: and.assoc ModeBits_and)
      from ch m(1) m'(1) have "ntype m' = ntype m" by (auto simp: mode_change_def)
      with True m(2) m' Some show ?thesis by (simp add: mirror_node_def copy_of_def)
    next
      case False
      with m have "ntype m \<noteq> TDir" by (auto simp: copy_of_def)
      with ch m have "node_at w' (D @ y) = Some m" by (auto simp: mode_change_def)
      with Some m False show ?thesis by (simp add: mirror_node_def copy_of_def)
    qed
  qed
qed

text \<open>The state in which the walk starts: the destination directory has just been made.\<close>

lemma made_root:
  assumes "wf_fs w" "plain_comps ps" "at w (render True ps) S" "dir_at w S"
    and "plain_comps pd" "at w (render True pd) D" "node_at w D = None"
    and mk: "w1 = put_node w D (new_dir w D temporaryDirectoryMode)"
  shows "confined {D @ []} w w1" "stage ps pd S D w1 []"
proof -
  show conf: "confined {D @ []} w w1"
    using assms by (intro confined_one [of _ _ "render True pd"]) (auto simp: fs_simps)
  then have ext: "fs_ext w w1" by (rule confinedD)
  have "at w1 (render True pd) D"
    using at_free_ext [OF assms(6,7,1) ext] mk by (simp add: fs_simps new_dir_def)
  moreover have "dir_at w1 D" using mk by (simp add: fs_simps new_dir_def)
  ultimately show "stage ps pd S D w1 []"
    using assms ext by (auto simp: stage_def intro: at_ext fs_ext_dir)
qed

lemma walk_start:
  assumes wf: "wf_fs w" and ps: "plain_comps ps" "at w (render True ps) S" "dir_at w S"
    and pd: "plain_comps pd" "at w (render True pd) D" "node_at w D = None" and SD: "S \<parallel> D"
    and mk: "w1 = put_node w D (new_dir w D temporaryDirectoryMode)"
  shows "confined {D @ []} w w1" "walk_inv (\<lambda>y. node_at w (S @ y)) S D w1" "stage ps pd S D w1 []"
    and "\<And>y. y \<noteq> [] \<Longrightarrow> node_at w1 (D @ [] @ y) = None"
    and "\<forall>c \<in> set (child_names w1 S). plain_comp c \<and> node_at w (S @ [] @ [c]) \<noteq> None \<and>
      node_at w1 (D @ [] @ [c]) = None"
proof -
  show conf: "confined {D @ []} w w1" and "stage ps pd S D w1 []"
    by (rule made_root [OF wf ps pd mk])+
  then have wf1: "wf_fs w1" by (auto dest: confinedD)
  have "\<not> prefix D (S @ y)" for y using parallel_under [OF SD, of "[]" y] by simp
  then have src1: "node_at w (S @ y) = node_at w1 (S @ y)" for y
    using confinedD(4) [OF conf, of "S @ y"] by simp
  show free: "node_at w1 (D @ [] @ y) = None" if "y \<noteq> []" for y
    using wf_fs_none [OF wf pd(3), of y] that mk by (simp add: fs_simps)
  show "walk_inv (\<lambda>y. node_at w (S @ y)) S D w1"
    using wf1 SD src1 by (simp add: walk_inv_def)
  show "\<forall>c \<in> set (child_names w1 S). plain_comp c \<and> node_at w (S @ [] @ [c]) \<noteq> None \<and>
      node_at w1 (D @ [] @ [c]) = None"
    using free wf_fs_child [OF wf1, of S] src1 by fastforce
qed

context exclusive_reflinker
begin

lemma walk_root:
  assumes wf: "wf_fs w" and ps: "plain_comps ps" "at w (render True ps) S" "dir_at w S"
    and pd: "plain_comps pd" "at w (render True pd) D" "node_at w D = None" and SD: "S \<parallel> D"
    and n: "node_at w S = Some n"
    and mk: "w1 = put_node w D (new_dir w D temporaryDirectoryMode)"
    and run: "WalkDir fuel (visit ps pd)
      (w1, [\<lparr>pdPath = render True pd, pdMode = exactDirectoryMode (Mode n)\<rparr>]) (render True ps) =
        Some ((w2, ds), r)"
  shows "walk_post (\<lambda>y. node_at w (S @ y)) pd D {[]} w [] w2 ds r"
proof -
  let ?src = "\<lambda>y. node_at w (S @ y)"
  let ?ds = "[\<lparr>pdPath = render True (pd @ []), pdMode = nperm n AND ModeBits\<rparr>]"
  have ty: "ntype n = TDir" using ps(3) n by (simp add: dir_at_def)
  note start = walk_start [OF wf ps pd SD mk]
  have src1: "?src y = node_at w1 (S @ y)" for y using start(2) by (simp add: walk_inv_def)
  have stopped: "walk_post ?src pd D {[]} w [] w1 ?ds (Some e)" for e
    using start(1) pending_ok_stage [OF start(3)] by (auto simp: walk_post_def)
  have d0: "[\<lparr>pdPath = render True pd, pdMode = exactDirectoryMode (Mode n)\<rparr>] = ?ds"
    by (simp add: exactDirectoryMode_Mode)
  note run' = run [unfolded WalkDir_def d0, simplified]
  show ?thesis
  proof (cases "os_Lstat w1 (render True ps)")
    case (Inl e)
    with run' have "w2 = w1" "ds = ?ds" "r = Some e" by (auto simp: tree_visit_def)
    with stopped show ?thesis by simp
  next
    case (Inr info)
    have at1: "at w1 (render True ps) S" using start(3) by (simp add: stage_def)
    from Lstat_at [OF Inr at1] src1 [of "[]"] n have info: "info = n" by simp
    from run' Inr obtain f where f: "fuel = Suc f" by (cases fuel) auto
    note run2 = run' [unfolded Inr f, simplified, unfolded tree_visit_def [of _ _ _ _ _ _ None],
      simplified, folded tree_visit_def, unfolded info, simplified]
    show ?thesis
    proof (cases "os_ReadDir w1 (render True ps)")
      case (Inl e)
      with run2 ty have "w2 = w1" "ds = ?ds" "r = Some e" by (auto simp: tree_visit_def)
      with stopped show ?thesis by simp
    next
      case (Inr es)
      let ?cs = "child_names w1 S"
      from ReadDir_at [OF Inr at1]
      have es: "es = map (\<lambda>c. (c, the (?src ([] @ [c])))) ?cs" using src1 by simp
      have names: "?src ([] @ [c]) \<noteq> None \<longleftrightarrow> c \<in> set ?cs" for c by (simp add: src1)
      have none: "?src ([] @ c # y) = None" if "?src ([] @ [c]) = None" for c y
        using that wf_fs_none [OF wf, of "S @ [c]" y] by simp
      have we: "walkEntries f (visit ps pd) (w1, ?ds) (render True (ps @ []))
          (map (\<lambda>c. (c, the (?src ([] @ [c])))) ?cs) = Some ((w2, ds), r)"
        using run2 ty Inr es by simp
      have "walk_post ?src pd D ((\<lambda>c. [] @ [c]) ` set ?cs) w1 ?ds w2 ds r"
        by (rule walkEntries_post [OF _ start(2,3) child_names_distinct start(5) we])
          (use walkDir_post [of ?src S D _ ps pd "[]"] in auto)
      then show ?thesis
        by (rule walk_post_dir [of ?src "[]" n, OF _ ty names none start(1,3,4), rotated -1])
          (use n in auto)
    qed
  qed
qed

lemma tree_post:
  assumes wf: "wf_fs w" and src: "at w srcRoot S" and dst: "at w dstRoot D" "node_at w D = None"
    and apart: "\<not> prefix S D"
    and run: "ReflinkTree fuel rl w srcRoot dstRoot = Some (w', r)"
  shows "confined {D} w w'" "r = None \<Longrightarrow> dir_at w S \<and> mirrored w S w' D"
proof -
  from src obtain ps where ps: "plain_comps ps" "srcRoot = render True ps" by (auto simp: at_def)
  from dst(1) obtain pd where pd: "plain_comps pd" "dstRoot = render True pd" by (auto simp: at_def)
  have "confined {D} w w' \<and> (r = None \<longrightarrow> dir_at w S \<and> mirrored w S w' D)"
  proof (cases "\<exists>n. os_Lstat w srcRoot = Inr n \<and> ntype n = TDir \<and>
      snd (os_Mkdir w dstRoot temporaryDirectoryMode) = None")
    case False
    then have "w' = w \<and> r \<noteq> None"
      using run by (cases "os_Mkdir w dstRoot temporaryDirectoryMode")
        (auto simp: ReflinkTree_def dest: Mkdir_Some split: sum.splits if_splits option.splits)
    with wf show ?thesis by (auto simp: confined_refl)
  next
    case True
    then obtain n w1 where n: "os_Lstat w srcRoot = Inr n" "ntype n = TDir"
        and mk: "os_Mkdir w dstRoot temporaryDirectoryMode = (w1, None)"
      by (metis prod.collapse)
    have nS: "node_at w S = Some n" using Lstat_at [OF n(1) src] .
    then have dS: "dir_at w S" using n(2) by (simp add: dir_at_def)
    have "\<not> prefix D S" using wf_fs_none [OF wf dst(2)] nS by (auto simp: prefix_def)
    with apart have SD: "S \<parallel> D" by (simp add: parallel_def)
    from run n mk obtain w2 ds r2 where
        wd: "WalkDir fuel (tree_visit rl srcRoot dstRoot)
          (w1, [\<lparr>pdPath = dstRoot, pdMode = exactDirectoryMode (Mode n)\<rparr>]) srcRoot = Some ((w2, ds), r2)"
      by (auto simp: ReflinkTree_def Let_def split: option.splits)
    obtain rc where rc: "restoreDirectoryModes w2 ds = (w', rc)"
        and r: "r = None \<Longrightarrow> r2 = None \<and> rc = None"
      using run n mk wd
      by (auto simp: ReflinkTree_def Let_def split: prod.splits option.splits)
    have post: "walk_post (\<lambda>y. node_at w (S @ y)) pd D {[]} w [] w2 ds r2"
      using walk_root [OF wf ps(1) _ dS pd(1) _ dst(2) SD nS Mkdir_None(2) [OF mk dst(1)]]
        src dst(1) ps(2) pd(2) wd by simp
    then have cw: "confined {D} w w2" and ok: "pending_ok pd D w2 ds"
      by (auto simp: walk_post_def)
    have "modes_only {q. prefix D q} w2 w'"
      using confinedD(1) [OF cw] _ rc [unfolded restoreDirectoryModes_def]
      by (rule restore_frame [of _ pd]) (simp add: ok)
    from confined_trans [OF cw modes_only_confined [OF this]] have "confined {D} w w'" by simp
    moreover have "mirrored w S w' D" if "r = None"
      using restored_mirror [OF wf pd(1)] post rc r [OF that] by blast
    ultimately show ?thesis using dS by blast
  qed
  then show "confined {D} w w'" "r = None \<Longrightarrow> dir_at w S \<and> mirrored w S w' D" by blast+
qed

end

end
