(* ===== verification/Tree_Nesting.thy ===== *)
theory Tree_Nesting
  imports Tree_Walk
begin

section \<open>Every tree clone ends, and none into its own source succeeds\<close>

text \<open>
  The lemmas on \<open>ReflinkTree\<close> that hold wherever the destination lies: what a call can change,
  that \<open>PATH_MAX\<close> levels of fuel are enough, and that a destination inside the source makes
  the call fail.  The program has no check against such a destination: the walk keeps finding
  the directories it has just made, until a path is too long.
\<close>

unbundle bit_operations_syntax

lemma length_render_grows: "plain_comp c \<Longrightarrow> length (render True ps) < length (render True (ps @ [c]))"
  by (cases "ps = []") (auto simp: render_def plain_comp_def join_with_append)

lemma at_length: "at w p k \<Longrightarrow> length p < PATH_MAX"
  by (auto simp: at_def)

lemma stageD:
  assumes "stage ps pd S D w x"
  shows "plain_comps (ps @ x)" "plain_comps (pd @ x)" "at w (render True (ps @ x)) (S @ x)"
    "at w (render True (pd @ x)) (D @ x)" "dir_at w (S @ x)" "dir_at w (D @ x)"
  using assms by (auto simp: stage_def)

text \<open>What any part of a walk does: it grows the state below \<open>D\<close> and adds pending directories.\<close>

definition grown :: "string list \<Rightarrow> key \<Rightarrow> fsys \<Rightarrow> pendingDirectoryMode list \<Rightarrow> fsys \<Rightarrow>
    pendingDirectoryMode list \<Rightarrow> bool" where
  "grown pd D w ds w' ds' \<longleftrightarrow>
     confined {D} w w' \<and> (\<exists>new. ds' = ds @ new \<and> pending_ok pd D w' new)"

lemma grown_same: "wf_fs w \<Longrightarrow> grown pd D w ds w ds"
  by (simp add: grown_def confined_refl pending_ok_def)

lemma grownD:
  "grown pd D w ds w' ds' \<Longrightarrow> wf_fs w'" "grown pd D w ds w' ds' \<Longrightarrow> fs_ext w w'"
  by (auto simp: grown_def dest: confinedD)

lemma grown_trans:
  assumes "grown pd D w ds w1 ds1" "grown pd D w1 ds1 w2 ds2"
  shows "grown pd D w ds w2 ds2"
proof -
  from assms obtain n1 n2 where n: "ds1 = ds @ n1" "pending_ok pd D w1 n1" "ds2 = ds1 @ n2"
      "pending_ok pd D w2 n2" by (auto simp: grown_def)
  have "pending_ok pd D w2 (n1 @ n2)"
    using pending_ok_ext [OF n(2) grownD(2) [OF assms(2)]] n(4) by (simp add: pending_ok_append)
  moreover have "confined {D} w w2"
    using assms confined_trans [of "{D}" w w1 "{D}" w2] by (simp add: grown_def)
  ultimately show ?thesis using n unfolding grown_def by (intro conjI exI [of _ "n1 @ n2"]) simp_all
qed

lemma grown_confined:
  "confined {D @ x} w w' \<Longrightarrow> grown pd D w ds w' ds"
  unfolding grown_def by (auto simp: pending_ok_def elim!: confined_mono)

text \<open>Entries as \<open>os_ReadDir\<close> returns them: plain names, and directories that are there.\<close>

definition listed :: "fsys \<Rightarrow> key \<Rightarrow> (string \<times> node) list \<Rightarrow> bool" where
  "listed w k es \<longleftrightarrow>
     (\<forall>(c, d) \<in> set es. plain_comp c \<and> (ntype d = TDir \<longrightarrow> dir_at w (k @ [c])))"

lemma listed_ext: "listed w k es \<Longrightarrow> fs_ext w w' \<Longrightarrow> listed w' k es"
  by (auto simp: listed_def dest: fs_ext_dir)

lemma listed_ReadDir:
  assumes "os_ReadDir w p = Inr es" "at w p k" "wf_fs w"
  shows "listed w k es"
    and "dir_at w (k @ [c]) \<Longrightarrow> \<exists>d. (c, d) \<in> set es \<and> ntype d = TDir"
  using ReadDir_at [OF assms(1,2)] wf_fs_child [OF assms(3), of k]
  by (fastforce simp: listed_def dir_at_def split: option.splits)+

text \<open>The first entry's walk, then the rest's from where it left off.\<close>

lemma walkEntries_first:
  assumes "stage ps pd S D w x" "listed w (S @ x) ((c, d) # es)"
  shows "plain_comp c" "IsDir d \<Longrightarrow> dir_at w (S @ x @ [c])" "listed w (S @ x) es"
    and "walkEntries fuel f (w, ds) (render True (ps @ x)) ((c, d) # es) =
      (case walkDir fuel f (w, ds) (render True (ps @ x @ [c])) (IsDir d) of
         None \<Rightarrow> None
       | Some (s1, Some err) \<Rightarrow> Some (s1, Some err)
       | Some (s1, None) \<Rightarrow> walkEntries fuel f s1 (render True (ps @ x)) es)"
proof -
  show c: "plain_comp c" "IsDir d \<Longrightarrow> dir_at w (S @ x @ [c])" "listed w (S @ x) es"
    using assms(2) by (auto simp: listed_def)
  have "Join [render True (ps @ x), c] = render True (ps @ x @ [c])"
    using stageD(1) [OF assms(1)] c(1) by (simp add: Join_name)
  then show "walkEntries fuel f (w, ds) (render True (ps @ x)) ((c, d) # es) =
      (case walkDir fuel f (w, ds) (render True (ps @ x @ [c])) (IsDir d) of
         None \<Rightarrow> None
       | Some (s1, Some err) \<Rightarrow> Some (s1, Some err)
       | Some (s1, None) \<Rightarrow> walkEntries fuel f s1 (render True (ps @ x)) es)"
    by simp
qed

lemma stage_grown: "stage ps pd S D w x \<Longrightarrow> grown pd D w ds w' ds' \<Longrightarrow> stage ps pd S D w' x"
  by (blast intro: stage_ext dest: grownD)

lemma listed_grown: "listed w k es \<Longrightarrow> grown pd D w ds w' ds' \<Longrightarrow> listed w' k es"
  by (blast intro: listed_ext dest: grownD)

context exclusive_reflinker
begin

lemma visit_grown:
  assumes wf: "wf_fs w" and st: "stage ps pd S D w x" and c: "plain_comp c"
    and v: "visit ps pd (w, ds) (render True (ps @ x @ [c])) isdir None = ((w1, ds1), r)"
  shows "grown pd D w ds w1 ds1"
    and "r = None \<Longrightarrow> dir_at w (S @ x @ [c]) \<Longrightarrow> stage ps pd S D w1 (x @ [c])"
proof -
  let ?p = "render True (ps @ x @ [c])" and ?t = "render True (pd @ x @ [c])"
  note st' = stageD [OF st]
  have jp: "?p = Join [render True (ps @ x), c]" and jt: "?t = Join [render True (pd @ x), c]"
    using st' c by (simp_all add: Join_name)
  have neq: "?p \<noteq> render True ps"
    using render_inject [of True "ps @ x @ [c]" ps] st' c by auto
  have rel: "Rel (render True ps) ?p = Inr (render False (x @ [c]))"
    using st' c by (intro Rel_render) auto
  have tgt: "Join [render True pd, render False (x @ [c])] = ?t"
    using st' c by (intro Join_render) auto
  have "grown pd D w ds w1 ds1 \<and>
    (r = None \<and> dir_at w (S @ x @ [c]) \<longrightarrow> stage ps pd S D w1 (x @ [c]))"
  proof (cases "os_Lstat w ?p")
    case (Inl e)
    with v neq wf show ?thesis by (auto simp: tree_visit_def grown_same)
  next
    case (Inr info)
    note ls = Lstat_child [OF Inr [unfolded jp] at_leads [OF st'(3)] c]
    note v' = v [unfolded tree_visit_def, simplified, unfolded Inr rel, simplified neq,
        simplified, unfolded tgt Let_def]
    consider "ntype info = TSymlink" | "ntype info = TOther" | "ntype info = TDir" | "ntype info = TReg"
      by (cases "ntype info") auto
    then show ?thesis
    proof cases
      case 1
      with v' wf show ?thesis by (auto simp: grown_same)
    next
      case 2
      with v' wf show ?thesis by (auto simp: grown_same)
    next
      case 3
      obtain w2 rm where mk: "os_Mkdir w ?t temporaryDirectoryMode = (w2, rm)" by fastforce
      show ?thesis
      proof (cases rm)
        case (Some e)
        with mk have "w2 = w" by (auto dest: Mkdir_Some)
        with v' 3 mk Some wf show ?thesis by (auto simp: grown_same)
      next
        case None
        note mk' = Mkdir_child [OF mk [unfolded None jt] at_leads [OF st'(4)] c]
        have w1: "w1 = put_node w (D @ x @ [c]) (new_dir w (D @ x @ [c]) temporaryDirectoryMode)"
          and ds1: "ds1 = ds @ [\<lparr>pdPath = ?t, pdMode = exactDirectoryMode (Mode info)\<rparr>]"
          using v' 3 mk None mk'(4) by auto
        have conf: "confined {D @ x @ [c]} w w1"
          using wf mk'(1,3) w1 jt
          by (intro confined_one [of _ _ ?t]) (auto simp: fs_simps)
        have ext: "fs_ext w w1" using conf by (rule confinedD)
        have "dir_at w (S @ x @ [c])" using ls(1) 3 by (simp add: dir_at_def)
        with 3 ls(4) ext have "at w1 ?p (S @ x @ [c])" "dir_at w1 (S @ x @ [c])"
          by (auto intro: at_ext fs_ext_dir simp: jp)
        moreover have "at w1 ?t (D @ x @ [c])"
          using at_free_ext [OF mk'(3) [simplified] _ wf ext] mk'(1) w1 jt
          by (simp add: fs_simps new_dir_def)
        moreover have "dir_at w1 (D @ x @ [c])"
          using w1 by (simp add: fs_simps new_dir_def)
        ultimately have st1: "stage ps pd S D w1 (x @ [c])"
          using st' c by (auto simp: stage_def)
        then have "grown pd D w1 ds w1 ds1"
          using confinedD(1) [OF conf] pending_ok_stage [OF st1]
          by (simp add: grown_def ds1 confined_refl)
        with st1 show ?thesis
          using grown_trans [OF grown_confined [of D "x @ [c]"]] conf by blast
      qed
    next
      case 4
      then have nd: "\<not> dir_at w (S @ x @ [c])" using ls(1) by (simp add: dir_at_def)
      show ?thesis
      proof (cases "nlink info > 1 \<or> (\<exists>e. free_place w ?t = Inl e)")
        case True
        have "w1 = w \<and> ds1 = ds"
        proof (cases "nlink info > 1")
          case True
          with v' 4 show ?thesis by (auto simp: RejectHardlink_def)
        next
          case False
          with True show ?thesis
            using v' 4 rl_exists [of w ?p ?t "Perm (Mode info)"]
            by (auto simp: RejectHardlink_def split: prod.splits)
        qed
        with wf nd show ?thesis by (simp add: grown_same)
      next
        case False
        then have rl: "rl w ?p ?t (Perm (Mode info)) = (w1, r)" and ds1: "ds1 = ds"
          using v' 4 by (auto simp: RejectHardlink_def split: prod.splits)
        from False obtain k where fp: "free_place w ?t = Inr k" by (cases "free_place w ?t") auto
        then have k: "resolve w ?t False = Inr k" "node_at w k = None"
          by (auto simp: free_place_def split: sum.splits if_splits)
        note rc = resolve_child [OF at_leads [OF st'(4)] c k(1) [unfolded jt]]
        have atD: "at w ?t (D @ x @ [c])"
          unfolding jt using at_child [OF at_leads [OF st'(4)] c st'(6) rc(3)] k rc(1) by simp
        have a: "at w ?p (S @ x @ [c])" using 4 ls(4) by (simp add: jp)
        have n: "node_at w (S @ x @ [c]) = Some info" using ls(1) by simp
        have fresh: "node_at w (D @ x @ [c]) = None" using k rc(1) by simp
        note rl' = wf rl a n 4 atD fresh
        have "confined {D @ (x @ [c])} w w1"
          using wf rl_env [OF rl'] atD fresh rl_others [OF rl'] by (rule confined_one)
        with ds1 nd show ?thesis using grown_confined by blast
      qed
    qed
  qed
  then show "grown pd D w ds w1 ds1"
    and "r = None \<Longrightarrow> dir_at w (S @ x @ [c]) \<Longrightarrow> stage ps pd S D w1 (x @ [c])"
    by blast+
qed

lemma walkEntries_grown:
  assumes one: "\<And>w ds c b w' ds' r. wf_fs w \<Longrightarrow> stage ps pd S D w x \<Longrightarrow> plain_comp c \<Longrightarrow>
      (b \<Longrightarrow> dir_at w (S @ x @ [c])) \<Longrightarrow>
      walkDir fuel (visit ps pd) (w, ds) (render True (ps @ x @ [c])) b = Some ((w', ds'), r) \<Longrightarrow>
      grown pd D w ds w' ds'"
  shows "wf_fs w \<Longrightarrow> stage ps pd S D w x \<Longrightarrow> listed w (S @ x) es \<Longrightarrow>
    walkEntries fuel (visit ps pd) (w, ds) (render True (ps @ x)) es = Some ((w', ds'), r) \<Longrightarrow>
    grown pd D w ds w' ds'"
proof (induction es arbitrary: w ds)
  case Nil
  then show ?case by (auto simp: grown_same)
next
  case (Cons e es)
  obtain c d where e: "e = (c, d)" by (cases e)
  note first = walkEntries_first [OF Cons.prems(2) Cons.prems(3) [unfolded e]]
  from Cons.prems(4) obtain w1 ds1 r1 where
      wd: "walkDir fuel (visit ps pd) (w, ds) (render True (ps @ x @ [c])) (IsDir d) =
        Some ((w1, ds1), r1)"
    unfolding e first(4) by (auto split: option.splits)
  have g: "grown pd D w ds w1 ds1" by (rule one [OF Cons.prems(1,2) first(1,2) wd])
  show ?case
  proof (cases r1)
    case None
    with Cons.prems(4) wd have "walkEntries fuel (visit ps pd) (w1, ds1) (render True (ps @ x)) es =
        Some ((w', ds'), r)" unfolding e first(4) by simp
    with Cons.IH [OF grownD(1) [OF g] stage_grown [OF Cons.prems(2) g] listed_grown [OF first(3) g]]
    show ?thesis using g by (blast intro: grown_trans)
  next
    case (Some err)
    with Cons.prems(4) wd g show ?thesis unfolding e first(4) by simp
  qed
qed

lemma walkDir_grown:
  "wf_fs w \<Longrightarrow> stage ps pd S D w x \<Longrightarrow> plain_comp c \<Longrightarrow> (b \<Longrightarrow> dir_at w (S @ x @ [c])) \<Longrightarrow>
   walkDir fuel (visit ps pd) (w, ds) (render True (ps @ x @ [c])) b = Some ((w', ds'), r) \<Longrightarrow>
   grown pd D w ds w' ds'"
proof (induction fuel arbitrary: w ds x c b w' ds' r)
  case 0
  then show ?case by simp
next
  case (Suc fuel)
  obtain w1 ds1 r1 where v: "visit ps pd (w, ds) (render True (ps @ x @ [c])) b None =
      ((w1, ds1), r1)" by (metis prod_cases3 surj_pair)
  note g = visit_grown [OF Suc.prems(1-3) v]
  note wd = Suc.prems(5) [unfolded walkDir.simps v, simplified]
  show ?case
  proof (cases "r1 = None \<and> b")
    case False
    with wd g(1) show ?thesis by (auto split: option.splits)
  next
    case True
    then have st: "stage ps pd S D w1 (x @ [c])" using g(2) Suc.prems(4) by blast
    show ?thesis
    proof (cases "os_ReadDir w1 (render True (ps @ x @ [c]))")
      case (Inl e)
      with wd True g(1) show ?thesis by (auto simp: tree_visit_def)
    next
      case (Inr es)
      have ls: "listed w1 (S @ (x @ [c])) es"
        using listed_ReadDir(1) [OF Inr _ grownD(1) [OF g(1)]] stageD(3) [OF st] by simp
      have we: "walkEntries fuel (visit ps pd) (w1, ds1) (render True (ps @ (x @ [c]))) es =
          Some ((w', ds'), r)" using wd True Inr by simp
      have "grown pd D w1 ds1 w' ds'"
        by (rule walkEntries_grown [OF _ grownD(1) [OF g(1)] st ls we], rule Suc.IH)
      with g(1) show ?thesis by (rule grown_trans)
    qed
  qed
qed

lemma walkEntries_total:
  assumes one: "\<And>w ds c b. wf_fs w \<Longrightarrow> stage ps pd S D w x \<Longrightarrow> plain_comp c \<Longrightarrow>
      (b \<Longrightarrow> dir_at w (S @ x @ [c])) \<Longrightarrow>
      walkDir fuel (visit ps pd) (w, ds) (render True (ps @ x @ [c])) b \<noteq> None"
  shows "wf_fs w \<Longrightarrow> stage ps pd S D w x \<Longrightarrow> listed w (S @ x) es \<Longrightarrow>
    walkEntries fuel (visit ps pd) (w, ds) (render True (ps @ x)) es \<noteq> None"
proof (induction es arbitrary: w ds)
  case Nil
  then show ?case by simp
next
  case (Cons e es)
  obtain c d where e: "e = (c, d)" by (cases e)
  note first = walkEntries_first [OF Cons.prems(2) Cons.prems(3) [unfolded e]]
  have "walkDir fuel (visit ps pd) (w, ds) (render True (ps @ x @ [c])) (IsDir d) \<noteq> None"
    by (rule one [OF Cons.prems(1,2) first(1,2)])
  then obtain w1 ds1 r1 where
      wd: "walkDir fuel (visit ps pd) (w, ds) (render True (ps @ x @ [c])) (IsDir d) =
        Some ((w1, ds1), r1)"
    by auto
  have g: "grown pd D w ds w1 ds1" by (rule walkDir_grown [OF Cons.prems(1,2) first(1,2) wd])
  from Cons.IH [OF grownD(1) [OF g] stage_grown [OF Cons.prems(2) g] listed_grown [OF first(3) g], of ds1]
  show ?case unfolding e first(4) using wd by (auto split: option.splits)
qed

lemma walkDir_total:
  "wf_fs w \<Longrightarrow> stage ps pd S D w x \<Longrightarrow> plain_comp c \<Longrightarrow> (b \<Longrightarrow> dir_at w (S @ x @ [c])) \<Longrightarrow>
   0 < fuel \<Longrightarrow> PATH_MAX < fuel + length (render True (ps @ x @ [c])) \<Longrightarrow>
   walkDir fuel (visit ps pd) (w, ds) (render True (ps @ x @ [c])) b \<noteq> None"
proof (induction fuel arbitrary: w ds x c b)
  case 0
  then show ?case by simp
next
  case (Suc fuel)
  obtain w1 ds1 r1 where v: "visit ps pd (w, ds) (render True (ps @ x @ [c])) b None =
      ((w1, ds1), r1)" by (metis prod_cases3 surj_pair)
  note g = visit_grown [OF Suc.prems(1-3) v]
  show ?case
  proof (cases "r1 = None \<and> b")
    case False
    with v show ?thesis by (auto split: option.splits)
  next
    case True
    then have st: "stage ps pd S D w1 (x @ [c])" using g(2) Suc.prems(4) by blast
    show ?thesis
    proof (cases "os_ReadDir w1 (render True (ps @ x @ [c]))")
      case (Inl e)
      with v True show ?thesis by (simp add: tree_visit_def)
    next
      case (Inr es)
      have at1: "at w1 (render True (ps @ x @ [c])) (S @ (x @ [c]))" using stageD(3) [OF st] by simp
      have ls: "listed w1 (S @ (x @ [c])) es"
        using listed_ReadDir(1) [OF Inr at1 grownD(1) [OF g(1)]] .
      have f: "0 < fuel" using Suc.prems(6) at_length [OF at1] by simp
      have len: "PATH_MAX < fuel + length (render True (ps @ (x @ [c]) @ [c']))" if "plain_comp c'" for c'
        using Suc.prems(6) length_render_grows [OF that, of "ps @ x @ [c]"] by simp
      have "walkEntries fuel (visit ps pd) (w1, ds1) (render True (ps @ (x @ [c]))) es \<noteq> None"
        by (rule walkEntries_total [OF Suc.IH grownD(1) [OF g(1)] st ls]) (use f len in simp_all)
      with v True Inr show ?thesis by simp
    qed
  qed
qed

text \<open>A walk that succeeds has walked every directory that was there when it came by.\<close>

lemma walkEntries_reach:
  "wf_fs w \<Longrightarrow> stage ps pd S D w x \<Longrightarrow> listed w (S @ x) es \<Longrightarrow>
   walkEntries fuel (visit ps pd) (w, ds) (render True (ps @ x)) es = Some ((w', ds'), None) \<Longrightarrow>
   (c, d) \<in> set es \<Longrightarrow> \<exists>w1 ds1 w2 ds2. wf_fs w1 \<and> stage ps pd S D w1 x \<and> fs_ext w w1 \<and>
     walkDir fuel (visit ps pd) (w1, ds1) (render True (ps @ x @ [c])) (IsDir d) =
       Some ((w2, ds2), None)"
proof (induction es arbitrary: w ds)
  case Nil
  then show ?case by simp
next
  case (Cons e es)
  obtain c1 d1 where e: "e = (c1, d1)" by (cases e)
  note first = walkEntries_first [OF Cons.prems(2) Cons.prems(3) [unfolded e]]
  from Cons.prems(4) obtain w1 ds1 where
      wd: "walkDir fuel (visit ps pd) (w, ds) (render True (ps @ x @ [c1])) (IsDir d1) =
        Some ((w1, ds1), None)"
      and rest: "walkEntries fuel (visit ps pd) (w1, ds1) (render True (ps @ x)) es =
        Some ((w', ds'), None)"
    unfolding e first(4) by (auto split: option.splits)
  have g: "grown pd D w ds w1 ds1" by (rule walkDir_grown [OF Cons.prems(1,2) first(1,2) wd])
  show ?case
  proof (cases "(c, d) = (c1, d1)")
    case True
    then have "c = c1" "d = d1" by simp_all
    with Cons.prems(1,2) wd fs_ext_refl [of w] show ?thesis by blast
  next
    case False
    with Cons.prems(5) e have "(c, d) \<in> set es" by auto
    from Cons.IH [OF grownD(1) [OF g] stage_grown [OF Cons.prems(2) g] listed_grown [OF first(3) g]
        rest this]
    show ?thesis using fs_ext_trans [OF grownD(2) [OF g]] by blast
  qed
qed

text \<open>\<open>walked w x fuel\<close>: from a state grown out of \<open>w\<close>, a successful walk of the directory \<open>x\<close>.\<close>

abbreviation "walked ps pd S D w x c fuel \<equiv>
  (\<exists>w1 ds1 w2 ds2. wf_fs w1 \<and> stage ps pd S D w1 x \<and> fs_ext w w1 \<and>
     walkDir fuel (visit ps pd) (w1, ds1) (render True (ps @ x @ [c])) True =
       Some ((w2, ds2), None))"

lemma read_reach:
  assumes "wf_fs w" "stage ps pd S D w x" "os_ReadDir w (render True (ps @ x)) = Inr es"
    and "walkEntries fuel (visit ps pd) (w, ds) (render True (ps @ x)) es = Some ((w', ds'), None)"
    and "dir_at w (S @ x @ [c])"
  shows "walked ps pd S D w x c fuel"
proof -
  have at: "at w (render True (ps @ x)) (S @ x)" using stageD(3) [OF assms(2)] .
  obtain d where d: "(c, d) \<in> set es" "ntype d = TDir"
    using listed_ReadDir(2) [OF assms(3) at assms(1), of c] assms(5) by auto
  from walkEntries_reach [OF assms(1,2) listed_ReadDir(1) [OF assms(3) at assms(1)] assms(4) d(1)] d(2)
  show ?thesis by simp
qed

lemma walkDir_enters:
  assumes "wf_fs w" "stage ps pd S D w x" "plain_comp c" "dir_at w (S @ x @ [c])"
    and "walkDir fuel (visit ps pd) (w, ds) (render True (ps @ x @ [c])) True = Some ((w', ds'), None)"
  obtains f w1 ds1 es where "fuel = Suc f" "wf_fs w1" "stage ps pd S D w1 (x @ [c])" "fs_ext w w1"
    "os_ReadDir w1 (render True (ps @ (x @ [c]))) = Inr es"
    "walkEntries f (visit ps pd) (w1, ds1) (render True (ps @ (x @ [c]))) es = Some ((w', ds'), None)"
proof -
  from assms(5) obtain f where f: "fuel = Suc f" by (cases fuel) auto
  obtain w1 ds1 r1 where v: "visit ps pd (w, ds) (render True (ps @ x @ [c])) True None =
      ((w1, ds1), r1)" by (metis prod_cases3 surj_pair)
  note g = visit_grown [OF assms(1-3) v]
  note wd = assms(5) [unfolded f walkDir.simps v, simplified]
  then have r1: "r1 = None" by (auto split: option.splits)
  show ?thesis
  proof (cases "os_ReadDir w1 (render True (ps @ x @ [c]))")
    case (Inl e)
    with wd r1 show ?thesis by (simp add: tree_visit_def)
  next
    case (Inr es)
    with wd r1 g f assms(4) show ?thesis by (intro that [of f w1 es ds1] grownD) auto
  qed
qed

lemma walk_reach:
  "wf_fs w \<Longrightarrow> stage ps pd S D w x \<Longrightarrow> plain_comp c \<Longrightarrow> dir_at w (S @ x @ [c] @ z) \<Longrightarrow> plain_comps z \<Longrightarrow>
   walkDir fuel (visit ps pd) (w, ds) (render True (ps @ x @ [c])) True = Some ((w', ds'), None) \<Longrightarrow>
   \<exists>f \<le> fuel. \<exists>y e. y @ [e] = x @ [c] @ z \<and> plain_comp e \<and> walked ps pd S D w y e f"
proof (induction z arbitrary: w x c fuel ds w' ds')
  case Nil
  have "walked ps pd S D w x c fuel" using Nil.prems(1,2,6) fs_ext_refl [of w] by blast
  with Nil.prems(3) show ?case by (intro exI [of _ fuel] conjI exI [of _ x] exI [of _ c]) simp_all
next
  case (Cons c' z)
  have pre: "dir_at w (S @ x @ [c] @ take k (c' # z))" for k
  proof (cases "drop k (c' # z) = []")
    case True
    then show ?thesis using Cons.prems(4) by simp
  next
    case False
    have "node_at w ((S @ x @ [c] @ take k (c' # z)) @ drop k (c' # z)) \<noteq> None"
      using dir_at_node [OF Cons.prems(4)] by (simp only: append_assoc append_take_drop_id) simp
    with Cons.prems(1) False show ?thesis by (blast intro: wf_fs_prefix)
  qed
  have d0: "dir_at w (S @ x @ [c])" and d1: "dir_at w (S @ (x @ [c]) @ [c'])"
    using pre [of 0] pre [of 1] by simp_all
  from walkDir_enters [OF Cons.prems(1-3) d0 Cons.prems(6)] obtain f w1 ds1 es where
      w1: "fuel = Suc f" "wf_fs w1" "stage ps pd S D w1 (x @ [c])" "fs_ext w w1"
      "os_ReadDir w1 (render True (ps @ (x @ [c]))) = Inr es"
      "walkEntries f (visit ps pd) (w1, ds1) (render True (ps @ (x @ [c]))) es = Some ((w', ds'), None)" .
  from read_reach [OF w1(2,3,5,6) fs_ext_dir [OF w1(4) d1]] obtain w2 ds2 w3 ds3 where
      w2: "wf_fs w2" "stage ps pd S D w2 (x @ [c])" "fs_ext w1 w2"
      "walkDir f (visit ps pd) (w2, ds2) (render True (ps @ (x @ [c]) @ [c'])) True =
        Some ((w3, ds3), None)" by blast
  have ext: "fs_ext w w2" using w1(4) w2(3) by (rule fs_ext_trans)
  have dz: "dir_at w2 (S @ (x @ [c]) @ [c'] @ z)" using fs_ext_dir [OF ext Cons.prems(4)] by simp
  have c': "plain_comp c'" "plain_comps z" using Cons.prems(5) by simp_all
  from Cons.IH [OF w2(1,2) c'(1) dz c'(2) w2(4)] obtain f' y e where
      f': "f' \<le> f" "y @ [e] = (x @ [c]) @ [c'] @ z" "plain_comp e" "walked ps pd S D w2 y e f'"
    by blast
  from f'(4) have "walked ps pd S D w y e f'" using fs_ext_trans [OF ext] by blast
  with f'(1-3) w1(1) show ?case
    by (intro exI [of _ f'] conjI exI [of _ y] exI [of _ e]) simp_all
qed

text \<open>
  With the destination at \<open>S @ r\<close>, a walk of \<open>S @ r ^ k\<close> makes \<open>S @ r ^ (k + 1)\<close> and then walks
  it: no amount of fuel lets it succeed.
\<close>

lemma nested_walk_fails:
  assumes r: "r \<noteq> []" "D = S @ r"
  shows "y @ [e] = concat (replicate k r) \<Longrightarrow> plain_comp e \<Longrightarrow> plain_comps r \<Longrightarrow>
    dir_at w (S @ y @ [e]) \<Longrightarrow> \<not> walked ps pd S D w y e fuel"
proof (induction fuel arbitrary: k w y e rule: less_induct)
  case (less fuel)
  show ?case
  proof
    assume "walked ps pd S D w y e fuel"
    then obtain w1 ds1 w2 ds2 where w1: "wf_fs w1" "stage ps pd S D w1 y" "fs_ext w w1"
        "walkDir fuel (visit ps pd) (w1, ds1) (render True (ps @ y @ [e])) True = Some ((w2, ds2), None)"
      by blast
    let ?t = "concat (replicate k r)"
    have dt: "dir_at w1 (S @ y @ [e])" using fs_ext_dir [OF w1(3) less.prems(4)] .
    from walkDir_enters [OF w1(1,2) less.prems(2) dt w1(4)] obtain f w3 ds3 es where
        w3: "fuel = Suc f" "wf_fs w3" "stage ps pd S D w3 (y @ [e])" "fs_ext w1 w3"
        "os_ReadDir w3 (render True (ps @ (y @ [e]))) = Inr es"
        "walkEntries f (visit ps pd) (w3, ds3) (render True (ps @ (y @ [e]))) es = Some ((w2, ds2), None)" .
    have comm: "r @ ?t = ?t @ r" by (induction k) simp_all
    have "dir_at w3 (D @ (y @ [e]))" using stageD(6) [OF w3(3)] .
    then have "dir_at w3 (S @ r @ ?t)" by (simp only: less.prems(1) r(2) append_assoc)
    then have dr: "dir_at w3 (S @ (y @ [e]) @ r)" by (simp only: comm less.prems(1) append_assoc)
    obtain c z where c: "r = c # z" using r(1) by (cases r) auto
    have pl: "plain_comp c" "plain_comps z" using less.prems(3) c by simp_all
    have "dir_at w3 (S @ (y @ [e]) @ [c])"
    proof (cases "z = []")
      case True
      with dr c show ?thesis by simp
    next
      case False
      with dir_at_node [OF dr] c wf_fs_prefix [OF w3(2), of "S @ (y @ [e]) @ [c]" z]
      show ?thesis by simp
    qed
    from read_reach [OF w3(2,3,5,6) this] obtain w4 ds4 w5 ds5 where
        w4: "wf_fs w4" "stage ps pd S D w4 (y @ [e])" "fs_ext w3 w4"
        "walkDir f (visit ps pd) (w4, ds4) (render True (ps @ (y @ [e]) @ [c])) True =
          Some ((w5, ds5), None)" by blast
    have d4: "dir_at w4 (S @ (y @ [e]) @ [c] @ z)" using fs_ext_dir [OF w4(3) dr] c by simp
    from walk_reach [OF w4(1,2) pl(1) d4 pl(2) w4(4)] obtain f' y' e' where
        f': "f' \<le> f" "y' @ [e'] = (y @ [e]) @ [c] @ z" "plain_comp e'" "walked ps pd S D w4 y' e' f'"
      by blast
    have "y' @ [e'] = (y @ [e]) @ r" using f'(2) c by simp
    also have "\<dots> = r @ ?t" by (simp only: less.prems(1) comm)
    also have "\<dots> = concat (replicate (Suc k) r)" by simp
    finally have "y' @ [e'] = concat (replicate (Suc k) r)" .
    moreover have "dir_at w4 (S @ y' @ [e'])" using d4 f'(2) by simp
    moreover have "f' < fuel" using f'(1) w3(1) by simp
    ultimately have "\<not> walked ps pd S D w4 y' e' f'"
      using less.IH f'(3) less.prems(3) by blast
    then show False using f'(4) by (rule notE)
  qed
qed

text \<open>The walk from the root, once the destination directory is there.\<close>

lemma root_walk:
  assumes "wf_fs w" "stage ps pd S D w []"
    and "WalkDir fuel (visit ps pd) (w, ds) (render True ps) = res"
  obtains (empty) "fuel = 0" | (stopped) e where "res = Some ((w, ds), Some e)"
    | (read) f es where "fuel = Suc f" "os_ReadDir w (render True (ps @ [])) = Inr es"
      "listed w (S @ []) es" "res = walkEntries f (visit ps pd) (w, ds) (render True (ps @ [])) es"
proof -
  note st = stageD [OF assms(2)]
  have root: "visit ps pd (w, ds) (render True ps) b None = ((w, ds), None)" for b
    by (simp add: tree_visit_def)
  show ?thesis
  proof (cases "os_Lstat w (render True ps)")
    case (Inl e)
    with assms(3) show ?thesis by (intro stopped [of e]) (simp add: WalkDir_def tree_visit_def)
  next
    case (Inr info)
    have "ntype info = TDir" using Lstat_at [OF Inr, of S] st by (simp add: dir_at_def)
    then have wd: "res = walkDir fuel (visit ps pd) (w, ds) (render True ps) True"
      using assms(3) Inr by (simp add: WalkDir_def)
    show ?thesis
    proof (cases fuel)
      case 0
      then show ?thesis by (rule empty)
    next
      case (Suc f)
      show ?thesis
      proof (cases "os_ReadDir w (render True ps)")
        case (Inl e)
        with wd Suc root show ?thesis by (intro stopped [of e]) (simp add: tree_visit_def)
      next
        case (Inr es)
        with wd Suc root listed_ReadDir(1) [OF Inr _ assms(1), of S] st
        show ?thesis by (intro read [of f es]) simp_all
      qed
    qed
  qed
qed

lemma root_grown:
  assumes "wf_fs w" "stage ps pd S D w []"
    and "WalkDir fuel (visit ps pd) (w, ds) (render True ps) = Some ((w', ds'), r)"
  shows "grown pd D w ds w' ds'"
proof (cases rule: root_walk [OF assms])
  case 1
  with assms(1,3) show ?thesis
    by (auto simp: WalkDir_def tree_visit_def grown_same split: sum.splits)
next
  case (2 e)
  with assms(1) show ?thesis by (simp add: grown_same)
next
  case (3 f es)
  show ?thesis
    by (rule walkEntries_grown [OF walkDir_grown assms(1,2) 3(3) 3(4) [symmetric]])
qed

lemma root_total:
  assumes "wf_fs w" "stage ps pd S D w []" "PATH_MAX \<le> fuel"
  shows "WalkDir fuel (visit ps pd) (w, ds) (render True ps) \<noteq> None"
proof (cases rule: root_walk [OF assms(1,2) refl, where fuel = fuel and ds = ds])
  case 1
  with assms(3) show ?thesis by (simp add: PATH_MAX_def)
next
  case (2 e)
  then show ?thesis by simp
next
  case (3 f es)
  have "1 < length (render True (ps @ [c]))" if "plain_comp c" for c
    using length_render_grows [OF that, of ps] by (auto simp: render_def)
  then have len: "PATH_MAX < f + length (render True (ps @ [] @ [c]))" if "plain_comp c" for c
    using that assms(3) 3(1) by fastforce
  have f: "0 < f" using assms(3) 3(1) by (simp add: PATH_MAX_def)
  have "walkEntries f (visit ps pd) (w, ds) (render True (ps @ [])) es \<noteq> None"
    by (rule walkEntries_total [OF walkDir_total assms(1,2) 3(3)]) (use f len in simp_all)
  with 3(4) show ?thesis by simp
qed

lemma root_nested:
  assumes "wf_fs w" "stage ps pd S D w []" "D = S @ q" "q \<noteq> []" "plain_comps q"
  shows "WalkDir fuel (visit ps pd) (w, ds) (render True ps) \<noteq> Some ((w', ds'), None)"
proof
  assume run: "WalkDir fuel (visit ps pd) (w, ds) (render True ps) = Some ((w', ds'), None)"
  obtain c z where c: "q = c # z" using assms(4) by (cases q) auto
  have dq: "dir_at w (S @ [] @ [c] @ z)" using stageD(6) [OF assms(2)] assms(3) c by simp
  have dc: "dir_at w (S @ [] @ [c])"
    using dq dir_at_node [OF dq] wf_fs_prefix [OF assms(1), of "S @ [c]" z] by (cases "z = []") simp_all
  from root_walk [OF assms(1,2) run] obtain f es where
      3: "fuel = Suc f" "os_ReadDir w (render True (ps @ [])) = Inr es" "listed w (S @ []) es"
      "walkEntries f (visit ps pd) (w, ds) (render True (ps @ [])) es = Some ((w', ds'), None)"
  proof cases
    case 1
    with run show ?thesis by (auto simp: WalkDir_def tree_visit_def split: sum.splits)
  next
    case (2 e)
    then show ?thesis by simp
  next
    case (3 f es)
    then show ?thesis by (intro that) simp_all
  qed
  from read_reach [OF assms(1,2) 3(2,4) dc] obtain w1 ds1 w2 ds2 where
      w1: "wf_fs w1" "stage ps pd S D w1 []" "fs_ext w w1"
      "walkDir f (visit ps pd) (w1, ds1) (render True (ps @ [] @ [c])) True = Some ((w2, ds2), None)"
    by blast
  have pl: "plain_comp c" "plain_comps z" using assms(5) c by simp_all
  from walk_reach [OF w1(1,2) pl(1) fs_ext_dir [OF w1(3) dq] pl(2) w1(4)] obtain f' y e where
      f': "y @ [e] = [] @ [c] @ z" "plain_comp e" "walked ps pd S D w1 y e f'"
    by blast
  have ye: "y @ [e] = concat (replicate 1 q)" using f'(1) c by simp
  have "dir_at w1 (S @ y @ [e])" using fs_ext_dir [OF w1(3) dq] f'(1) by simp
  from nested_walk_fails [OF assms(4,3) ye f'(2) assms(5) this] f'(3) show False by blast
qed

text \<open>Either the tree call stops before the walk, or it walks from a fresh destination.\<close>

lemma tree_cases:
  assumes "wf_fs w" "at w srcRoot S" "at w dstRoot D" "node_at w D = None"
    and "ReflinkTree fuel rl w srcRoot dstRoot = res"
  obtains (stopped) e where "res = Some (w, Some e)"
    | (walk) ps pd w1 n where "srcRoot = render True ps" "dstRoot = render True pd"
      "node_at w S = Some n" "confined {D} w w1" "stage ps pd S D w1 []"
      "res = (case WalkDir fuel (visit ps pd)
          (w1, [\<lparr>pdPath = render True pd, pdMode = exactDirectoryMode (Mode n)\<rparr>]) (render True ps) of
         None \<Rightarrow> None
       | Some ((w2, ds), we) \<Rightarrow>
           (case restoreDirectoryModes w2 ds of (w3, ce) \<Rightarrow>
              Some (w3, (case we of Some we \<Rightarrow> (case ce of Some ce \<Rightarrow> Some (JoinErr [we, ce])
                                                        | None \<Rightarrow> Some we)
                         | None \<Rightarrow> ce))))"
proof -
  from assms(2) obtain ps where ps: "plain_comps ps" "srcRoot = render True ps" by (auto simp: at_def)
  from assms(3) obtain pd where pd: "plain_comps pd" "dstRoot = render True pd" by (auto simp: at_def)
  show ?thesis
  proof (cases "\<exists>n. os_Lstat w srcRoot = Inr n \<and> ntype n = TDir \<and>
      snd (os_Mkdir w dstRoot temporaryDirectoryMode) = None")
    case False
    then have "\<exists>e. res = Some (w, Some e)"
      using assms(5) by (cases "os_Mkdir w dstRoot temporaryDirectoryMode")
        (auto simp: ReflinkTree_def dest: Mkdir_Some split: sum.splits if_splits option.splits)
    with stopped show ?thesis by blast
  next
    case True
    then obtain n w1 where n: "os_Lstat w srcRoot = Inr n" "ntype n = TDir"
        and mk: "os_Mkdir w dstRoot temporaryDirectoryMode = (w1, None)"
      by (metis prod.collapse)
    have nS: "node_at w S = Some n" using Lstat_at [OF n(1) assms(2)] .
    then have dS: "dir_at w S" using n(2) by (simp add: dir_at_def)
    from made_root [OF assms(1) ps(1) _ dS pd(1) _ assms(4) Mkdir_None(2) [OF mk assms(3)]] assms(2,3) ps pd
    have conf: "confined {D} w w1" and st: "stage ps pd S D w1 []" by simp_all
    show ?thesis
      by (rule walk [OF ps(2) pd(2) nS conf st])
        (use assms(5) n mk ps pd in \<open>simp add: ReflinkTree_def Let_def\<close>)
  qed
qed

lemma tree_frame:
  assumes "wf_fs w" "at w srcRoot S" "at w dstRoot D" "node_at w D = None"
    and run: "ReflinkTree fuel rl w srcRoot dstRoot = Some (w', r)"
  shows "confined {D} w w'" "r = None \<Longrightarrow> \<not> prefix S D"
proof -
  have "confined {D} w w' \<and> (r = None \<longrightarrow> \<not> prefix S D)"
    using assms
  proof (cases rule: tree_cases)
    case (stopped e)
    with assms(1) show ?thesis by (auto simp: confined_refl)
  next
    case (walk ps pd w1 n)
    let ?ds = "[\<lparr>pdPath = render True pd, pdMode = exactDirectoryMode (Mode n)\<rparr>]"
    from walk(6) obtain w2 ds we where
        wd: "WalkDir fuel (visit ps pd) (w1, ?ds) (render True ps) = Some ((w2, ds), we)"
      by (auto split: option.splits)
    obtain w3 ce where rs: "restoreDirectoryModes w2 ds = (w3, ce)" by fastforce
    from walk(6) wd rs have w': "w' = w3" and r: "r = None \<Longrightarrow> we = None"
      by (auto split: option.splits)
    have wf1: "wf_fs w1" using walk(4) by (rule confinedD)
    have g: "grown pd D w1 ?ds w2 ds" by (rule root_grown [OF wf1 walk(5) wd])
    have "pending_ok pd D w1 ?ds" using pending_ok_stage [OF walk(5)] by simp
    then have "pending_ok pd D w2 ?ds" using grownD(2) [OF g] by (rule pending_ok_ext)
    moreover obtain new where "ds = ?ds @ new" "pending_ok pd D w2 new"
      using g unfolding grown_def by blast
    ultimately have ok: "pending_ok pd D w2 ds" by (simp only: pending_ok_append)
    have "modes_only {q. prefix D q} w2 w'"
      using grownD(1) [OF g] _ rs [unfolded restoreDirectoryModes_def] unfolding w'
      by (rule restore_frame [of _ pd]) (simp add: ok)
    then have c3: "confined {D} w2 w'" by (rule modes_only_confined)
    have "confined {D} w1 w2" using g by (simp add: grown_def)
    from confined_trans [OF confined_trans [OF walk(4) this] c3]
    have "confined {D} w w'" by simp
    moreover have "\<not> prefix S D" if "r = None"
    proof
      assume "prefix S D"
      then obtain q where q: "D = S @ q" by (auto simp: prefix_def)
      have "q \<noteq> []" using q walk(3) assms(4) by auto
      moreover have "plain_comps q"
        using wf_fs_plain_below [OF wf1, of S q] dir_at_node [OF stageD(6) [OF walk(5)]] q by simp
      ultimately show False
        using root_nested [OF wf1 walk(5) q] wd r [OF that] by simp
    qed
    ultimately show ?thesis by blast
  qed
  then show "confined {D} w w'" "r = None \<Longrightarrow> \<not> prefix S D" by blast+
qed

text \<open>The contract of \<open>ReflinkTree\<close>: it ends, stays below the destination, and mirrors.\<close>

lemma tree_total:
  assumes "wf_fs w" "at w srcRoot S" "at w dstRoot D" "node_at w D = None" "PATH_MAX \<le> fuel"
  shows "\<exists>w' r. ReflinkTree fuel rl w srcRoot dstRoot = Some (w', r)"
proof (cases rule: tree_cases [OF assms(1-4) refl, where fuel = fuel])
  case (1 e)
  then show ?thesis by blast
next
  case (2 ps pd w1 n)
  have "wf_fs w1" using 2(4) by (rule confinedD)
  from root_total [OF this 2(5) assms(5)] 2(6) show ?thesis
    by (auto split: option.splits prod.splits)
qed

lemma tree_correct:
  assumes "wf_fs w" "at w srcRoot S" "at w dstRoot D" "node_at w D = None"
    and "ReflinkTree fuel rl w srcRoot dstRoot = Some (w', r)"
  shows "confined {D} w w'"
    and "r = None \<Longrightarrow> dir_at w S \<and> \<not> prefix S D \<and> mirrored w S w' D"
  using tree_frame [OF assms] tree_post [OF assms(1-4) _ assms(5)] by blast+

end

end
