(* ===== verification/Tree_Success.thy ===== *)
theory Tree_Success
  imports Tree_Nesting
begin

section \<open>When a clone succeeds\<close>

text \<open>
  The contracts of \<open>Tree_Walk\<close> and \<open>Service\<close> allow an error at any time, since any call may
  fail.  Here is the other half: where no call fails, the file system clones, the tree holds
  only directories and files without further hard links, and no path gets too long, the clone
  succeeds.
\<close>

lemma restore_ok:
  "wf_fs w \<Longrightarrow> no_faults w \<Longrightarrow> pending_ok pd D w ds \<Longrightarrow> \<exists>w'. restore_loop w ds = (w', None)"
proof (induction ds arbitrary: w)
  case Nil
  then show ?case by simp
next
  case (Cons d ds)
  then obtain x where x: "at w (pdPath d) (D @ x)" "dir_at w (D @ x)" and rest: "pending_ok pd D w ds"
    by (auto simp: pending_ok_def)
  obtain w1 where c: "os_Chmod w (pdPath d) (pdMode d) = (w1, None)"
    using Chmod_ok [OF Cons.prems(2) x(1) dir_at_node [OF x(2)]] by blast
  note mo = modes_only_chmod(1) [OF Cons.prems(1) c x]
  have "\<exists>w'. restore_loop w1 ds = (w', None)"
    by (rule Cons.IH [OF modes_onlyD(1) [OF mo] no_faults_env [OF Cons.prems(2) modes_onlyD(3) [OF mo]]
          pending_ok_ext [OF rest modes_onlyD(2) [OF mo]]])
  with c show ?case by simp
qed

subsection \<open>A reflinker that succeeds\<close>

locale sure_reflinker = exclusive_reflinker +
  assumes rl_sure: "wf_fs w \<Longrightarrow> no_faults w \<Longrightarrow> at w src s \<Longrightarrow> node_at w s = Some n \<Longrightarrow>
    ntype n = TReg \<Longrightarrow> at w dst d \<Longrightarrow> node_at w d = None \<Longrightarrow> \<exists>w'. rl w src dst mode = (w', None)"

definition clones_all :: "clone_fun \<Rightarrow> bool" where
  "clones_all clone \<longleftrightarrow> clone_contract clone \<and>
     (\<forall>w d s. node_at w d \<noteq> None \<and> node_at w s \<noteq> None \<longrightarrow> snd (clone w d s) = None)"

lemma FileReflinker_sure:
  assumes "clones_all clone"
  shows "sure_reflinker (FileReflinker_Reflink clone)"
proof -
  have cc: "clone_contract clone" using assms by (simp add: clones_all_def)
  show ?thesis
  proof (rule sure_reflinker.intro [OF FileReflinker_exclusive [OF cc]], rule sure_reflinker_axioms.intro)
    fix w src s n dst d mode
    assume *: "wf_fs w" "no_faults w" "at w src s" "node_at w s = Some n" "ntype n = TReg"
      "at w dst d" "node_at w d = None"
    have op: "os_Open w src = Inr s"
      using * by (simp add: os_Open_def find_node_def at_resolve)
    let ?w1 = "put_node w d (new_file w (Perm mode))"
    have cr: "os_CreateExcl w dst (Perm mode) = (?w1, Inr d)"
      using * by (simp add: os_CreateExcl_def free_place_def at_resolve)
    have ds: "d \<noteq> s" using * by auto
    have n1: "node_at ?w1 d = Some (new_file w (Perm mode))" "node_at ?w1 s = Some n"
      using ds * by (simp_all add: fs_simps)
    have "snd (clone ?w1 d s) = None"
      using assms n1 by (auto simp: clones_all_def)
    then obtain w2 where cl: "clone ?w1 d s = (w2, None)" by (metis prod.collapse)
    obtain c where w2: "w2 = put_node ?w1 d ((new_file w (Perm mode))\<lparr>ndata := c\<rparr>)"
      using FileReflinker_body [OF cc ds n1 cl] by blast
    have "fault w2 c = None" for c
      using *(2) w2 by (simp add: no_faults_def fs_simps)
    then show "\<exists>w'. FileReflinker_Reflink clone w src dst mode = (w', None)"
      using w2 by (simp add: FileReflinker_Reflink_def op cr cl file_Chmod_def file_Close_def fs_simps)
  qed
qed

lemma ficlone_all: "clones_all (ficlone (\<lambda>_ _. True))"
  using ficlone.clone_ok [of "\<lambda>_ _. True"] by (auto simp: clones_all_def ficlone_def)

interpretation sure_ficlone: sure_reflinker "FileReflinker_Reflink (ficlone (\<lambda>_ _. True))"
  by (rule FileReflinker_sure [OF ficlone_all])

subsection \<open>The walk\<close>

text \<open>What a tree must be like: no links, no special files, and both sides' paths short enough.\<close>

definition clonable :: "(key \<Rightarrow> node option) \<Rightarrow> string list \<Rightarrow> string list \<Rightarrow> bool" where
  "clonable src ps pd \<longleftrightarrow>
     (\<forall>y n. src y = Some n \<longrightarrow> (ntype n = TDir \<or> ntype n = TReg \<and> nlink n \<le> 1) \<and>
        length (render True (ps @ y)) < PATH_MAX \<and> length (render True (pd @ y)) < PATH_MAX)"

context sure_reflinker
begin

lemma visit_ok:
  assumes inv: "walk_inv src S D w" and st: "stage ps pd S D w x" and ok: "clonable src ps pd" "no_faults w"
    and c: "plain_comp c" "src (x @ [c]) = Some n" and fresh: "node_at w (D @ x @ [c]) = None"
  shows "\<exists>s. visit ps pd (w, ds) (render True (ps @ x @ [c])) isdir None = (s, None)"
proof -
  let ?p = "render True (ps @ x @ [c])" and ?t = "render True (pd @ x @ [c])"
  note st' = stageD [OF st]
  have wf: "wf_fs w" and nS: "node_at w (S @ x @ [c]) = Some n"
    using inv c(2) by (auto simp: walk_inv_def)
  have jp: "?p = Join [render True (ps @ x), c]" and jt: "?t = Join [render True (pd @ x), c]"
    using st' c by (simp_all add: Join_name)
  have neq: "?p \<noteq> render True ps"
    using render_inject [of True "ps @ x @ [c]" ps] st' c by auto
  have rel: "Rel (render True ps) ?p = Inr (render False (x @ [c]))"
    using st' c by (intro Rel_render) auto
  have tgt: "Join [render True pd, render False (x @ [c])] = ?t"
    using st' c by (intro Join_render) auto
  have ty: "ntype n = TDir \<or> ntype n = TReg \<and> nlink n \<le> 1" and len: "length ?p < PATH_MAX" "length ?t < PATH_MAX"
    using ok(1) c(2) by (auto simp: clonable_def)
  have atS: "at w ?p (S @ x @ [c])"
    unfolding jp using at_child [OF at_leads [OF st'(3)] c(1) st'(5)] len(1) nS ty jp by auto
  have atD: "at w ?t (D @ x @ [c])"
    unfolding jt using at_child [OF at_leads [OF st'(4)] c(1) st'(6)] len(2) fresh jt by auto
  have info: "os_Lstat w ?p = Inr n" by (rule Lstat_ok [OF ok(2) atS nS])
  note v = tree_visit_def [of rl "render True ps" "render True pd"]
  from ty show ?thesis
  proof
    assume d: "ntype n = TDir"
    obtain w1 where "os_Mkdir w ?t temporaryDirectoryMode = (w1, None)"
      using Mkdir_ok [OF ok(2) atD fresh] by blast
    with d show ?thesis by (simp add: v neq info rel tgt)
  next
    assume f: "ntype n = TReg \<and> nlink n \<le> 1"
    then obtain w1 where "rl w ?p ?t (Perm (Mode n)) = (w1, None)"
      using rl_sure [OF wf ok(2) atS nS _ atD fresh] by blast
    with f show ?thesis by (simp add: v neq info rel tgt RejectHardlink_def)
  qed
qed

lemma walkEntries_ok:
  assumes one: "\<And>w ds c d1 w' ds' r. walk_inv src S D w \<Longrightarrow> stage ps pd S D w x \<Longrightarrow> no_faults w \<Longrightarrow>
      plain_comp c \<Longrightarrow> src (x @ [c]) = Some d1 \<Longrightarrow> node_at w (D @ x @ [c]) = None \<Longrightarrow>
      walkDir fuel (visit ps pd) (w, ds) (render True (ps @ x @ [c])) (IsDir d1) =
        Some ((w', ds'), r) \<Longrightarrow> r = None"
    and "walk_inv src S D w" "stage ps pd S D w x" "no_faults w" "distinct cs"
    and "\<forall>c \<in> set cs. plain_comp c \<and> src (x @ [c]) \<noteq> None \<and> node_at w (D @ x @ [c]) = None"
    and "walkEntries fuel (visit ps pd) (w, ds) (render True (ps @ x))
      (map (\<lambda>c. (c, the (src (x @ [c])))) cs) = Some ((w', ds'), r)"
  shows "r = None"
  using assms(2-)
proof (induction cs arbitrary: w ds)
  case Nil
  then show ?case by simp
next
  case (Cons c cs)
  then obtain d1 where c: "plain_comp c" "src (x @ [c]) = Some d1" "node_at w (D @ x @ [c]) = None"
    by auto
  have "plain_comps (ps @ x)" using Cons.prems(2) by (simp add: stage_def)
  then have path: "Join [render True (ps @ x), c] = render True (ps @ x @ [c])"
    using c(1) by (simp add: Join_name)
  from Cons.prems(6) c(2) path obtain w1 ds1 r1 where
      wd: "walkDir fuel (visit ps pd) (w, ds) (render True (ps @ x @ [c])) (IsDir d1) =
        Some ((w1, ds1), r1)"
    by (auto split: option.splits)
  note r1 = one [OF Cons.prems(1-3) c wd]
  have p1: "walk_post src pd D {x @ [c]} w ds w1 ds1 r1"
    by (rule walkDir_post [OF Cons.prems(1,2) c wd])
  then have conf: "confined {D @ x @ [c]} w w1" by (auto simp: walk_post_def)
  have fresh: "node_at w1 (D @ x @ [c']) = None" if "c' \<in> set cs" for c'
    using confinedD(4) [OF conf, of "D @ x @ [c']"] that Cons.prems(4,5) by auto
  have inv: "walk_inv src S D w1"
    by (rule walk_inv_confined [OF Cons.prems(1)]) (use p1 in \<open>unfold walk_post_def, blast\<close>)
  have st: "stage ps pd S D w1 x" using stage_ext [OF Cons.prems(2) confinedD(2) [OF conf]] .
  have nf: "no_faults w1" by (rule no_faults_env [OF Cons.prems(3) confinedD(3) [OF conf]])
  have "walkEntries fuel (visit ps pd) (w1, ds1) (render True (ps @ x))
      (map (\<lambda>c. (c, the (src (x @ [c])))) cs) = Some ((w', ds'), r)"
    using Cons.prems(6) c(2) path wd r1 by simp
  from Cons.IH [OF inv st nf _ _ this] fresh Cons.prems(4,5) show ?case by simp
qed

lemma walkDir_ok:
  assumes ok: "clonable src ps pd"
  shows "walk_inv src S D w \<Longrightarrow> stage ps pd S D w x \<Longrightarrow> no_faults w \<Longrightarrow> plain_comp c \<Longrightarrow>
   src (x @ [c]) = Some d1 \<Longrightarrow> node_at w (D @ x @ [c]) = None \<Longrightarrow>
   walkDir fuel (visit ps pd) (w, ds) (render True (ps @ x @ [c])) (IsDir d1) =
     Some ((w', ds'), r) \<Longrightarrow> r = None"
proof (induction fuel arbitrary: w ds x c d1 w' ds' r)
  case 0
  then show ?case by simp
next
  case (Suc fuel)
  obtain w1 ds1 r1 where v: "visit ps pd (w, ds) (render True (ps @ x @ [c])) (IsDir d1) None =
      ((w1, ds1), r1)" by (metis prod_cases3 surj_pair)
  have r1: "r1 = None" using visit_ok [OF Suc.prems(1,2) ok Suc.prems(3-6), of ds "IsDir d1"] v by auto
  note wd = Suc.prems(7) [unfolded walkDir.simps v, simplified]
  from Suc.prems(1,2,4-6) v show ?case
  proof (cases rule: visit_entry)
    case (stop e)
    with r1 show ?thesis by simp
  next
    case cloned
    with wd show ?thesis by simp
  next
    case made
    have conf: "confined ((@) D ` {x @ [c]}) w w1" using made(3) by simp
    note inv1 = walk_inv_confined [OF Suc.prems(1) conf]
    then have wf1: "wf_fs w1" and src1: "\<And>y. src y = node_at w1 (S @ y)"
      by (auto simp: walk_inv_def)
    have nf: "no_faults w1" by (rule no_faults_env [OF Suc.prems(3) confinedD(3) [OF conf]])
    let ?cs = "child_names w1 (S @ x @ [c])"
    have at1: "at w1 (render True (ps @ x @ [c])) (S @ x @ [c])" "dir_at w1 (S @ x @ [c])"
      using made(4) by (simp_all add: stage_def)
    obtain es where rd: "os_ReadDir w1 (render True (ps @ x @ [c])) = Inr es"
      using ReadDir_ok [OF nf at1] by blast
    from ReadDir_at [OF rd at1(1)]
    have es: "es = map (\<lambda>c'. (c', the (src ((x @ [c]) @ [c'])))) ?cs" by (simp add: src1)
    have each: "\<forall>c' \<in> set ?cs. plain_comp c' \<and> src ((x @ [c]) @ [c']) \<noteq> None \<and>
        node_at w1 (D @ (x @ [c]) @ [c']) = None"
      using made(5) wf_fs_child [OF wf1, of "S @ x @ [c]"] by (fastforce simp: src1)
    have we: "walkEntries fuel (visit ps pd) (w1, ds1) (render True (ps @ (x @ [c])))
        (map (\<lambda>c'. (c', the (src ((x @ [c]) @ [c'])))) ?cs) = Some ((w', ds'), r)"
      using wd made rd by (simp add: es)
    show ?thesis
      by (rule walkEntries_ok [OF _ inv1 made(4) nf child_names_distinct each we])
        (use Suc.IH [of _ "x @ [c]"] in auto)
  qed
qed

lemma root_ok:
  assumes wf: "wf_fs w" and ps: "plain_comps ps" "at w (render True ps) S" "dir_at w S"
    and pd: "plain_comps pd" "at w (render True pd) D" "node_at w D = None" and SD: "S \<parallel> D"
    and ok: "clonable (\<lambda>y. node_at w (S @ y)) ps pd" "no_faults w"
    and mk: "w1 = put_node w D (new_dir w D temporaryDirectoryMode)"
    and run: "WalkDir fuel (visit ps pd) (w1, ds0) (render True ps) = Some ((w2, ds), r)"
  shows "r = None"
proof -
  let ?src = "\<lambda>y. node_at w (S @ y)"
  note start = walk_start [OF wf ps pd SD mk]
  have wf1: "wf_fs w1" and src1: "\<And>y. ?src y = node_at w1 (S @ y)"
    using start(2) by (auto simp: walk_inv_def)
  have nf: "no_faults w1" by (rule no_faults_env [OF ok(2) confinedD(3) [OF start(1)]])
  have at1: "at w1 (render True ps) S" "dir_at w1 S" using start(3) by (simp_all add: stage_def)
  obtain n where n: "node_at w1 S = Some n" "ntype n = TDir"
    using at1(2) by (auto simp: dir_at_def split: option.splits)
  obtain es where rd: "os_ReadDir w1 (render True ps) = Inr es" using ReadDir_ok [OF nf at1] by blast
  have "visit ps pd (w1, ds0) (render True ps) True None = ((w1, ds0), None)"
    by (simp add: tree_visit_def)
  with run n rd obtain f where
      we: "walkEntries f (visit ps pd) (w1, ds0) (render True ps) es = Some ((w2, ds), r)"
    by (cases fuel) (simp_all add: WalkDir_def Lstat_ok [OF nf at1(1) n(1)])
  let ?cs = "child_names w1 S"
  have es: "es = map (\<lambda>c. (c, the (?src ([] @ [c])))) ?cs"
    using ReadDir_at [OF rd at1(1)] by (simp add: src1)
  show ?thesis
    by (rule walkEntries_ok [OF walkDir_ok [OF ok(1)] start(2,3) nf child_names_distinct start(5)])
      (use we es in auto)
qed

text \<open>The whole tree: it ends by \<open>tree_total\<close>, and neither half reports an error.\<close>

lemma tree_ok:
  assumes wf: "wf_fs w" and src: "at w (render True ps) S" "plain_comps ps" "dir_at w S"
    and dst: "at w (render True pd) D" "plain_comps pd" "node_at w D = None"
    and apart: "\<not> prefix S D" and ok: "clonable (\<lambda>y. node_at w (S @ y)) ps pd" "no_faults w"
    and fuel: "PATH_MAX \<le> fuel"
  shows "\<exists>w'. ReflinkTree fuel rl w (render True ps) (render True pd) = Some (w', None)"
proof -
  obtain n where n: "node_at w S = Some n" "ntype n = TDir"
    using src(3) by (auto simp: dir_at_def split: option.splits)
  have "\<not> prefix D S" using wf_fs_none [OF wf dst(3)] n by (auto simp: prefix_def)
  with apart have SD: "S \<parallel> D" by (simp add: parallel_def)
  note ls = Lstat_ok [OF ok(2) src(1) n(1)]
  obtain w1 where mk: "os_Mkdir w (render True pd) temporaryDirectoryMode = (w1, None)"
    using Mkdir_ok [OF ok(2) dst(1,3)] by blast
  note w1 = Mkdir_None(2) [OF mk dst(1)]
  let ?ds = "[\<lparr>pdPath = render True pd, pdMode = exactDirectoryMode (Mode n)\<rparr>]"
  obtain w' r where run: "ReflinkTree fuel rl w (render True ps) (render True pd) = Some (w', r)"
    using tree_total [OF wf src(1) dst(1,3) fuel] by blast
  then obtain w2 ds we where wd: "WalkDir fuel (visit ps pd) (w1, ?ds) (render True ps) = Some ((w2, ds), we)"
    by (auto simp: ReflinkTree_def ls n(2) mk Let_def split: option.splits)
  have we: "we = None" by (rule root_ok [OF wf src(2,1,3) dst(2,1,3) SD ok w1 wd])
  have st: "stage ps pd S D w1 []" and c1: "confined {D} w w1"
    using made_root [OF wf src(2,1,3) dst(2,1,3) w1] by simp_all
  have g: "grown pd D w1 ?ds w2 ds" by (rule root_grown [OF confinedD(1) [OF c1] st wd])
  then obtain new where "ds = ?ds @ new" "pending_ok pd D w2 new" and c2: "confined {D} w1 w2"
    unfolding grown_def by blast
  moreover have "pending_ok pd D w2 ?ds"
    using pending_ok_ext [OF pending_ok_stage [OF st] grownD(2) [OF g]] by simp
  ultimately have "pending_ok pd D w2 ds" by (simp only: pending_ok_append)
  moreover have "no_faults w2"
    by (rule no_faults_env [OF no_faults_env [OF ok(2) confinedD(3) [OF c1]] confinedD(3) [OF c2]])
  ultimately obtain w3 where "restoreDirectoryModes w2 ds = (w3, None)"
    using restore_ok [OF grownD(1) [OF g], of pd D "rev ds"] by (auto simp: restoreDirectoryModes_def)
  with run wd we show ?thesis by (simp add: ReflinkTree_def ls n(2) mk Let_def)
qed

end

end
