(* ===== verification/Share_Probe.thy ===== *)
theory Share_Probe
  imports Temp_File Tree_Success
begin

section \<open>The probe of the share root at start-up (internal/service)\<close>

text \<open>
  \<open>ValidateShareRoot\<close> checks that the root is a directory, creates a file below it, and clones it
  to a second name that it reserved and gave up again.  The deferred function removes whatever of
  the two files is left.  \<open>wd\<close> is \<open>os.Getwd\<close>; \<open>rnd1\<close> and \<open>rnd2\<close> are the random names that
  \<open>os.CreateTemp\<close> tries for the two files.
\<close>

definition normalizeShareRoot :: "go_error + string \<Rightarrow> string \<Rightarrow> go_error + string" where
  "normalizeShareRoot wd root =
     (if root = [] then Inl (ErrorString ''share root is required'')
      else case Abs wd root of
             Inl err \<Rightarrow> Inl (WrapErr (''resolve share root: '' @ error_msg err) [err])
           | Inr absRoot \<Rightarrow> Inr (Clean absRoot))"

definition probe_src_prefix :: string where "probe_src_prefix = ''.vreflinkd-startup-probe-src-''"
definition probe_dst_prefix :: string where "probe_dst_prefix = ''.vreflinkd-startup-probe-dst-''"

definition not_writable :: "string \<Rightarrow> go_error \<Rightarrow> go_error" where
  "not_writable root err =
     WrapErr (''share root '' @ Quote root @ '' is not writable: '' @ error_msg err) [err]"

definition prepare_error :: "string \<Rightarrow> go_error \<Rightarrow> go_error" where
  "prepare_error root err =
     WrapErr (''prepare share root probe in '' @ Quote root @ '': '' @ error_msg err) [err]"

definition unsupported_error :: "string \<Rightarrow> go_error \<Rightarrow> go_error" where
  "unsupported_error root err =
     WrapErr (''share root '' @ Quote root @ '' does not support reflink: '' @ error_msg err) [err]"

definition probe_failed :: "string \<Rightarrow> go_error \<Rightarrow> go_error" where
  "probe_failed root err =
     WrapErr (''share root '' @ Quote root @ '' failed reflink probe: '' @ error_msg err) [err]"

definition probe_verdict :: "string \<Rightarrow> go_error \<Rightarrow> go_error" where
  "probe_verdict root err =
     (if (case AsCoded err of Some (c, m) \<Rightarrow> c = CodeEOPNOTSUPP | None \<Rightarrow> False)
      then unsupported_error root err
      else if CodeFromError (Some err) = CodeEOPNOTSUPP then unsupported_error root err
      else probe_failed root err)"

text \<open>The steps after the source was created, with the value of \<open>dstPath\<close> at the return.\<close>

definition probe_steps ::
  "(nat \<Rightarrow> u32) \<Rightarrow> reflink_fun \<Rightarrow> string \<Rightarrow> string \<Rightarrow> key \<Rightarrow> fsys \<Rightarrow> fsys \<times> string \<times> go_error option" where
  "probe_steps rnd2 rl root srcPath src w =
     (case file_Write w srcPath src ''probe'' of
        (w1, Some err) \<Rightarrow> (w1, [], Some (prepare_error root err))
      | (w1, None) \<Rightarrow>
          (case file_Close w1 srcPath of
             Some err \<Rightarrow> (w1, [], Some (prepare_error root err))
           | None \<Rightarrow>
               (case os_CreateTemp rnd2 w1 root probe_dst_prefix of
                  (w2, Inl err) \<Rightarrow> (w2, [], Some (not_writable root err))
                | (w2, Inr (dstPath, dst)) \<Rightarrow>
                    (case file_Close w2 dstPath of
                       Some err \<Rightarrow> (w2, dstPath, Some (prepare_error root err))
                     | None \<Rightarrow>
                         (case os_Remove w2 dstPath of
                            (w3, Some err) \<Rightarrow> (w3, dstPath, Some (prepare_error root err))
                          | (w3, None) \<Rightarrow>
                              (case rl w3 srcPath dstPath 0x180 of
                                 (w4, Some err) \<Rightarrow> (w4, dstPath, Some (probe_verdict root err))
                               | (w4, None) \<Rightarrow> (w4, dstPath, None)))))))"

definition probe_cleanup :: "string \<Rightarrow> string \<Rightarrow> fsys \<Rightarrow> fsys" where
  "probe_cleanup srcPath dstPath w =
     (let w1 = fst (os_Remove w srcPath)
      in if dstPath \<noteq> [] then fst (os_Remove w1 dstPath) else w1)"

definition ValidateShareRoot ::
  "(nat \<Rightarrow> u32) \<Rightarrow> (nat \<Rightarrow> u32) \<Rightarrow> clone_fun \<Rightarrow> go_error + string \<Rightarrow> reflink_fun option \<Rightarrow>
    fsys \<Rightarrow> string \<Rightarrow> fsys \<times> go_error option" where
  "ValidateShareRoot rnd1 rnd2 clone wd r_opt w root =
     (case normalizeShareRoot wd root of
        Inl err \<Rightarrow> (w, Some err)
      | Inr rootPath \<Rightarrow>
          (case os_Stat w rootPath of
             Inl err \<Rightarrow> (w, Some
               (if os_IsNotExist err then ErrorString (''share root '' @ Quote rootPath @ '' does not exist'')
                else WrapErr (''stat share root '' @ Quote rootPath @ '': '' @ error_msg err) [err]))
           | Inr info \<Rightarrow>
               if \<not> IsDir info
               then (w, Some (ErrorString (''share root '' @ Quote rootPath @ '' must be a directory'')))
               else
                 let rl = (case r_opt of None \<Rightarrow> FileReflinker_Reflink clone | Some rl \<Rightarrow> rl)
                 in case os_CreateTemp rnd1 w rootPath probe_src_prefix of
                      (w1, Inl err) \<Rightarrow> (w1, Some (not_writable rootPath err))
                    | (w1, Inr (srcPath, src)) \<Rightarrow>
                        (case probe_steps rnd2 rl rootPath srcPath src w1 of
                           (w2, dstPath, err) \<Rightarrow> (probe_cleanup srcPath dstPath w2, err))))"

subsection \<open>The root\<close>

lemma normalizeShareRoot_Inr:
  assumes "normalizeShareRoot wd root = Inr p" "case wd of Inl e \<Rightarrow> True | Inr d \<Rightarrow> IsAbs d"
  shows "\<exists>ps. plain_comps ps \<and> p = render True ps"
proof -
  have "\<exists>a. IsAbs a \<and> p = Clean a"
    using assms by (auto simp: normalizeShareRoot_def Abs_def split: if_splits sum.splits
        intro: IsAbs_Join)
  then show ?thesis using abs_comps_plain Clean_abs by metis
qed

lemma Stat_leads:
  assumes "os_Stat w (render True ps) = Inr n" "plain_comps ps" "IsDir n"
  shows "\<exists>k. leads w (render True ps) k \<and> dir_at w k"
proof -
  from assms obtain k where k: "resolve w (render True ps) True = Inr k" "node_at w k = Some n"
    by (auto simp: os_Stat_def guarded_def find_node_def split: option.splits sum.splits prod.splits)
  then obtain b where "length (render True ps) < PATH_MAX" "namei w MAXSYMLINKS [] ps True = Inr (k, b)"
    unfolding resolve_render [OF assms(2)] by (auto split: if_splits sum.splits)
  then have "leads w (render True ps) k" using assms(2) by (auto simp: leads_def)
  with assms(3) k(2) show ?thesis by (auto simp: dir_at_def)
qed

lemma probe_prefixes:
  "sep \<notin> set probe_src_prefix" "2 < length probe_src_prefix"
  "sep \<notin> set probe_dst_prefix" "2 < length probe_dst_prefix"
  by (simp_all add: probe_src_prefix_def probe_dst_prefix_def)

subsection \<open>No trace\<close>

lemma only_temps_weaken:
  "only_temps w k (X - {q}) w' \<Longrightarrow> q = k @ [c] \<Longrightarrow> plain_comp c \<Longrightarrow> node_at w q = None \<Longrightarrow>
   only_temps w k (insert q X) w'"
  unfolding only_temps_def by (cases "q \<in> X") auto

lemma only_temps_place:
  "only_temps w k X w' \<Longrightarrow> q \<in> X \<Longrightarrow> (\<exists>c. q = k @ [c] \<and> plain_comp c) \<and> node_at w q = None"
  by (simp add: only_temps_def)

context reflinker
begin

lemma rl_temps:
  assumes "wf_fs w" "only_temps w k X w1" "at w srcPath src" "src \<in> X" "node_at w1 src \<noteq> None"
    and "at w dstPath d" "d \<in> X" "node_at w1 d = None" "rl w1 srcPath dstPath m = (w2, r)"
  shows "only_temps w k X w2"
proof -
  obtain n where n: "node_at w1 src = Some n" using assms(5) by blast
  with assms(2,4) have t: "ntype n = TReg" by (auto simp: only_temps_def)
  note a = only_temps_wf [OF assms(2,1)] assms(9) only_temps_at [OF assms(2,1,4,3)] n t
    only_temps_at [OF assms(2,1,7,6)] assms(8)
  show ?thesis
    using assms(2,7) rl_env [OF a] rl_others [OF a] rl_place [OF a]
    unfolding only_temps_def same_env_def by (metis (no_types))
qed

text \<open>However the steps end, all that is left is the two temporary files.\<close>

lemma probe_steps_temps:
  assumes "wf_fs w" "leads w (render True ps) k" "plain_comps ps"
    and ot: "only_temps w k {src} w1" "at w srcPath src" "node_at w1 src = Some n"
    and rm: "\<And>p. fault w (SysRemove p) = None"
    and run: "probe_steps rnd2 rl (render True ps) srcPath src w1 = (w2, dstPath, r)"
  shows "if dstPath = [] then only_temps w k {src} w2
    else \<exists>d. d \<noteq> src \<and> at w dstPath d \<and> only_temps w k {d, src} w2"
proof -
  obtain w1a r1 where wr: "file_Write w1 srcPath src ''probe'' = (w1a, r1)" by fastforce
  note w1a = only_temps_Write [OF ot(1) _ ot(3) wr]
  show ?thesis
  proof (cases "r1 = None \<and> file_Close w1a srcPath = None")
    case False
    with run wr w1a(1) show ?thesis by (auto simp: probe_steps_def split: option.splits)
  next
    case True
    obtain w2a x where cr: "os_CreateTemp rnd2 w1a (render True ps) probe_dst_prefix = (w2a, x)" by fastforce
    note c = only_temps_CreateTemp [OF w1a(1) assms(2,3) probe_prefixes(3,4) cr]
    show ?thesis
    proof (cases x)
      case (Inl e)
      with True run wr cr c w1a(1) show ?thesis by (auto simp: probe_steps_def)
    next
      case (Inr f)
      then obtain dp d where f: "x = Inr (dp, d)" by (cases f) simp
      with c have d: "only_temps w k {d, src} w2a" "at w dp d" "node_at w1a d = None" by auto
      have ne: "dp \<noteq> []" using d(2) by (auto simp: at_def)
      have ds: "d \<noteq> src" using d(3) w1a(2) True by auto
      obtain w3 r3 where re: "os_Remove w2a dp = (w3, r3)" by fastforce
      have w3: "only_temps w k {src} w3"
        using only_temps_Remove [OF d(1) assms(1) _ d(2) rm] re ds by (simp add: insert_Diff_if)
      obtain c' where place: "d = k @ [c']" "plain_comp c'" "node_at w d = None"
        using only_temps_place [OF d(1)] by auto
      have w3': "only_temps w k {d, src} w3"
        using only_temps_weaken [OF _ place] w3 ds by simp
      have free: "node_at w3 d = None" using only_temps_same [OF w3] ds place(3) by simp
      show ?thesis
      proof (cases "file_Close w2a dp = None \<and> r3 = None")
        case False
        with True run wr cr f re w3' d ne ds show ?thesis
          by (auto simp: probe_steps_def split: option.splits)
      next
        case ok: True
        obtain w4 r4 where rl: "rl w3 srcPath dp 0x180 = (w4, r4)" by fastforce
        have "node_at w2a src = node_at w1a src" "node_at w1a src \<noteq> None"
        proof -
          show "node_at w1a src \<noteq> None" using w1a(2) True by simp
          show "node_at w2a src = node_at w1a src"
            using c f ds by (simp add: fs_simps)
        qed
        moreover have "node_at w3 src = node_at w2a src"
          using re ok ds only_temps_at [OF d(1) assms(1) _ d(2)] by (auto simp: os_Remove_def guarded_def
            find_node_def at_resolve fs_simps split: option.splits sum.splits if_splits)
        ultimately have "only_temps w k {d, src} w4"
          using rl_temps [OF assms(1) w3' ot(2) _ _ d(2) _ free rl] by simp
        with True ok run wr cr f re rl d ne ds show ?thesis
          by (auto simp: probe_steps_def split: option.splits)
      qed
    qed
  qed
qed

lemma probe_no_trace:
  assumes "wf_fs w" "\<And>p. fault w (SysRemove p) = None"
    and "ValidateShareRoot rnd1 rnd2 clone (cwd w) (Some rl) w root = (w', r)"
  shows "same_env w w'" "node_at w' q = node_at w q"
proof -
  have "same_env w w' \<and> (\<forall>q. node_at w' q = node_at w q)"
  proof (cases "\<exists>rp info. normalizeShareRoot (cwd w) root = Inr rp \<and> os_Stat w rp = Inr info \<and> IsDir info")
    case False
    then have "w' = w"
      using assms(3) by (auto simp: ValidateShareRoot_def split: sum.splits if_splits)
    then show ?thesis by simp
  next
    case True
    then obtain rp info where root: "normalizeShareRoot (cwd w) root = Inr rp" "os_Stat w rp = Inr info"
        "IsDir info" by blast
    have "case cwd w of Inl e \<Rightarrow> True | Inr d \<Rightarrow> IsAbs d" using assms(1) by (simp add: wf_fs_def)
    then obtain ps where ps: "plain_comps ps" "rp = render True ps"
      using normalizeShareRoot_Inr [OF root(1)] by blast
    obtain k where k: "leads w (render True ps) k" "dir_at w k"
      using Stat_leads [OF root(2) [unfolded ps(2)] ps(1) root(3)] by blast
    obtain w1 x where cr: "os_CreateTemp rnd1 w (render True ps) probe_src_prefix = (w1, x)" by fastforce
    note c = only_temps_CreateTemp [OF only_temps_refl [OF k(2)] k(1) ps(1) probe_prefixes(1,2) cr]
    show ?thesis
    proof (cases x)
      case (Inl e)
      with c root ps cr assms(3) show ?thesis by (auto simp: ValidateShareRoot_def)
    next
      case (Inr f)
      then obtain sp src where f: "x = Inr (sp, src)" by (cases f) simp
      with c have s: "only_temps w k {src} w1" "at w sp src" "node_at w1 src = Some (new_file w 0x180)"
        by (auto simp: fs_simps)
      obtain w2 dp r2 where st: "probe_steps rnd2 rl (render True ps) sp src w1 = (w2, dp, r2)"
        by (metis prod_cases3)
      have w': "w' = probe_cleanup sp dp w2"
        using assms(3) root ps cr f st by (auto simp: ValidateShareRoot_def)
      note t = probe_steps_temps [OF assms(1) k(1) ps(1) s assms(2) st]
      have "only_temps w k {} w'"
      proof (cases "dp = []")
        case True
        with t have "only_temps w k {src} w2" by simp
        from only_temps_Remove [OF this assms(1) _ s(2) assms(2)] True show ?thesis
          by (simp add: w' probe_cleanup_def)
      next
        case False
        with t obtain d where d: "d \<noteq> src" "at w dp d" "only_temps w k {d, src} w2" by auto
        have "only_temps w k {d} (fst (os_Remove w2 sp))"
          using only_temps_Remove [OF d(3) assms(1) _ s(2) assms(2)] d(1) by (simp add: insert_Diff_if)
        from only_temps_Remove [OF this assms(1) _ d(2) assms(2)] False show ?thesis
          by (simp add: w' probe_cleanup_def)
      qed
      then show ?thesis by (simp add: only_temps_def)
    qed
  qed
  then show "same_env w w'" "node_at w' q = node_at w q" by simp_all
qed

end

subsection \<open>A usable root\<close>

lemma probe_names_differ: "probe_src_prefix @ x \<noteq> probe_dst_prefix @ y"
  by (simp add: probe_src_prefix_def probe_dst_prefix_def)

text \<open>
  \<open>probe_room\<close>: the root is a directory under a path that leaves room for the names of the two
  files, and no entry of it has such a name.
\<close>

definition probe_room :: "fsys \<Rightarrow> string \<Rightarrow> bool" where
  "probe_room w root \<longleftrightarrow> root \<noteq> [] \<and>
     (\<exists>ps k. plain_comps ps \<and> Abs (cwd w) root = Inr (render True ps) \<and> leads w (render True ps) k \<and>
        dir_at w k \<and> length (render True ps) + 40 < PATH_MAX \<and>
        (\<forall>n. node_at w (k @ [probe_src_prefix @ show_nat n]) = None \<and>
             node_at w (k @ [probe_dst_prefix @ show_nat n]) = None))"

context sure_reflinker
begin

lemma probe_steps_ok:
  assumes "wf_fs w" "no_faults w" "leads w (render True ps) k" "plain_comps ps" "dir_at w k"
    and "only_temps w k {src} w1" "at w srcPath src" "node_at w1 src = Some n"
    and "src = k @ [probe_src_prefix @ t]" "length (render True ps) + 40 < PATH_MAX"
    and free: "\<And>n. node_at w (k @ [probe_dst_prefix @ show_nat n]) = None"
  shows "\<exists>w2 dp. probe_steps rnd2 rl (render True ps) srcPath src w1 = (w2, dp, None)"
proof -
  have nf: "fault w1 c = None" for c
    using only_temps_fault [OF assms(6)] assms(2) by (simp add: no_faults_def)
  let ?n = "n\<lparr>ndata := ndata n @ ''probe''\<rparr>"
  have wr: "file_Write w1 srcPath src ''probe'' = (put_node w1 src ?n, None)"
    using assms(8) nf by (simp add: file_Write_def)
  note w1a = only_temps_Write [OF assms(6) _ assms(8) wr]
  have nfa: "fault (put_node w1 src ?n) c = None" for c using nf by (simp add: fs_simps)
  have "node_at (put_node w1 src ?n) (k @ [probe_dst_prefix @ show_nat m]) = None" for m
    using only_temps_same [OF w1a(1)] free [of m] assms(9) probe_names_differ [of t "show_nat m"] by auto
  moreover note ext = only_temps_ext [OF w1a(1) [OF singletonI]]
  ultimately obtain w2 f where cr: "os_CreateTemp rnd2 (put_node w1 src ?n) (render True ps) probe_dst_prefix =
      (w2, Inr f)"
    using CreateTemp_ok [OF leads_ext [OF assms(3,5) ext] assms(4) fs_ext_dir [OF ext assms(5)]
        probe_prefixes(3,4) nfa] length_temp [OF assms(4) probe_prefixes(3,4), of 29] assms(10)
    by (force simp: probe_dst_prefix_def)
  obtain dp d where f: "f = (dp, d)" by fastforce
  from only_temps_CreateTemp [OF w1a(1) [OF singletonI] assms(3,4) probe_prefixes(3,4) cr] f
  have d: "only_temps w k {d, src} w2" "at w dp d" "node_at (put_node w1 src ?n) d = None"
      "w2 = put_node (put_node w1 src ?n) d (new_file (put_node w1 src ?n) 0x180)" by auto
  have ds: "d \<noteq> src" using d(3) by (auto simp: fs_simps)
  have nf2: "fault w2 c = None" for c
    using only_temps_fault [OF d(1)] assms(2) by (simp add: no_faults_def)
  have re: "os_Remove w2 dp = (del_node w2 d, None)"
    using Remove_file [OF only_temps_at [OF d(1) assms(1) _ d(2)]] nf2 d(4)
    by (simp add: fs_simps new_file_def)
  have w3: "only_temps w k {d, src} (del_node w2 d)"
    using d(1) by (auto simp: only_temps_def fs_simps same_env_def)
  have "ntype n = TReg" using assms(6,8) by (simp add: only_temps_def)
  moreover have "no_faults (del_node w2 d)" using nf2 by (simp add: no_faults_def fs_simps)
  ultimately obtain w4 where "rl (del_node w2 d) srcPath dp 0x180 = (w4, None)"
    using rl_sure [OF only_temps_wf [OF w3 assms(1)] _ only_temps_at [OF w3 assms(1) _ assms(7)] _ _
        only_temps_at [OF w3 assms(1) _ d(2)]] d(4) ds
    by (fastforce simp: fs_simps)
  with wr cr f re nfa nf2 show ?thesis
    by (simp add: probe_steps_def file_Close_def)
qed

lemma probe_ok:
  assumes "wf_fs w" "no_faults w" "probe_room w root"
  shows "\<exists>w'. ValidateShareRoot rnd1 rnd2 clone (cwd w) (Some rl) w root = (w', None)"
proof -
  from assms(3) obtain ps k where *: "root \<noteq> []" "plain_comps ps" "Abs (cwd w) root = Inr (render True ps)"
      "leads w (render True ps) k" "dir_at w k" "length (render True ps) + 40 < PATH_MAX"
    and free: "\<And>n. node_at w (k @ [probe_src_prefix @ show_nat n]) = None"
      "\<And>n. node_at w (k @ [probe_dst_prefix @ show_nat n]) = None"
    by (auto simp: probe_room_def)
  have root: "normalizeShareRoot (cwd w) root = Inr (render True ps)"
    using * by (simp add: normalizeShareRoot_def plain_imp_normal)
  obtain i where i: "os_Stat w (render True ps) = Inr i" "IsDir i"
    using *(4,5) assms(2)
    by (auto simp: os_Stat_def find_node_def leads_resolve dir_at_def split: option.splits)
  have nf: "fault w c = None" for c using assms(2) by (simp add: no_faults_def)
  obtain w1 f where cr: "os_CreateTemp rnd1 w (render True ps) probe_src_prefix = (w1, Inr f)"
    using CreateTemp_ok [OF *(4,2,5) probe_prefixes(1,2) nf free(1)]
      length_temp [OF *(2) probe_prefixes(1,2), of 29] *(6) by (force simp: probe_src_prefix_def)
  obtain sp src where f: "f = (sp, src)" by fastforce
  from only_temps_CreateTemp [OF only_temps_refl [OF *(5)] *(4,2) probe_prefixes(1,2) cr] f
  have s: "only_temps w k {src} w1" "at w sp src" "node_at w1 src = Some (new_file w 0x180)"
    by (auto simp: fs_simps)
  from CreateTemp_result [OF *(4,2,5) probe_prefixes(1,2) cr] f obtain t where
    "src = k @ [probe_src_prefix @ t]" by auto
  from probe_steps_ok [OF assms(1,2) *(4,2,5) s this *(6) free(2)] obtain w2 dp where
    "probe_steps rnd2 rl (render True ps) sp src w1 = (w2, dp, None)" by blast
  with root i cr f show ?thesis by (simp add: ValidateShareRoot_def)
qed

end

end
