(* ===== verification/Service.thy ===== *)
theory Service
  imports Tree_Nesting
begin

section \<open>Executing a request (internal/service)\<close>

text \<open>
  \<open>service.go\<close>: \<open>Service.Execute\<close> validates a request, resolves its two paths below the share
  root and clones a file or a tree.  \<open>sj\<close> is \<open>securejoin.SecureJoin\<close>, \<open>clone\<close> is
  \<open>reflink.Reflink\<close>, both third-party; \<open>fuel\<close> bounds the depth of a tree walk.
\<close>

record Service =
  Root :: string
  Reflinker :: "reflink_fun option"

definition New :: "string \<Rightarrow> clone_fun \<Rightarrow> Service" where
  "New root clone = \<lparr>Root = root, Reflinker = Some (FileReflinker_Reflink clone)\<rparr>"

definition Service_reflinker :: "clone_fun \<Rightarrow> Service \<Rightarrow> reflink_fun" where
  "Service_reflinker clone s =
     (case Reflinker s of Some rl \<Rightarrow> rl | None \<Rightarrow> FileReflinker_Reflink clone)"

definition reflinkSingle ::
  "clone_fun \<Rightarrow> securejoin \<Rightarrow> Service \<Rightarrow> fsys \<Rightarrow> string \<Rightarrow> string \<Rightarrow> fsys \<times> go_error option" where
  "reflinkSingle clone sj s w srcRel dstRel =
     (case ResolveSource sj w (Root s) srcRel of
        Inl err \<Rightarrow> (w, Some err)
      | Inr (srcPath, srcInfo) \<Rightarrow>
          (case RequireRegularFile srcInfo of
             Some err \<Rightarrow> (w, Some err)
           | None \<Rightarrow>
               (case RejectHardlink srcInfo of
                  Some err \<Rightarrow> (w, Some err)
                | None \<Rightarrow>
                    (case ResolveDestination sj w (Root s) dstRel of
                       Inl err \<Rightarrow> (w, Some err)
                     | Inr (dstPath, parentPath) \<Rightarrow>
                         Service_reflinker clone s w srcPath dstPath (Perm (Mode srcInfo))))))"

definition reflinkTree ::
  "nat \<Rightarrow> clone_fun \<Rightarrow> securejoin \<Rightarrow> Service \<Rightarrow> fsys \<Rightarrow> string \<Rightarrow> string \<Rightarrow>
    (fsys \<times> go_error option) option" where
  "reflinkTree fuel clone sj s w srcRel dstRel =
     (case ResolveSource sj w (Root s) srcRel of
        Inl err \<Rightarrow> Some (w, Some err)
      | Inr (srcPath, srcInfo) \<Rightarrow>
          (case RequireDirectory srcInfo of
             Some err \<Rightarrow> Some (w, Some err)
           | None \<Rightarrow>
               (case ResolveDestination sj w (Root s) dstRel of
                  Inl err \<Rightarrow> Some (w, Some err)
                | Inr (dstPath, parentPath) \<Rightarrow>
                    ReflinkTree fuel (Service_reflinker clone s) w srcPath dstPath)))"

definition Execute ::
  "nat \<Rightarrow> clone_fun \<Rightarrow> securejoin \<Rightarrow> Service \<Rightarrow> fsys \<Rightarrow> Request \<Rightarrow>
    (fsys \<times> go_error option) option" where
  "Execute fuel clone sj s w req =
     (case validate_Request req of
        Some err \<Rightarrow> Some (w, Some err)
      | None \<Rightarrow>
          if Recursive req then reflinkTree fuel clone sj s w (Src req) (Dst req)
          else Some (reflinkSingle clone sj s w (Src req) (Dst req)))"

subsection \<open>The contract of a request\<close>

text \<open>
  \<open>placed w root rel k\<close>: below the share root \<open>root\<close>, the relative path \<open>rel\<close> denotes the
  place \<open>k\<close>.  \<open>effect w root req w' r\<close> is what a request may do: nothing, or clone from the
  place of its source to the free place of its destination.
\<close>

definition placed :: "fsys \<Rightarrow> string \<Rightarrow> string \<Rightarrow> key \<Rightarrow> bool" where
  "placed w root rel k \<longleftrightarrow> contained rel \<and>
     (\<exists>rp R. normalizeRoot (cwd w) root = Inr rp \<and> leads w rp R \<and> k = R @ rel_comps rel)"

definition effect :: "fsys \<Rightarrow> string \<Rightarrow> Request \<Rightarrow> fsys \<Rightarrow> go_error option \<Rightarrow> bool" where
  "effect w root req w' r \<longleftrightarrow>
     w' = w \<and> r \<noteq> None \<or>
     (\<exists>s d. placed w root (Src req) s \<and> placed w root (Dst req) d \<and>
        node_at w s \<noteq> None \<and> node_at w d = None \<and> dir_at w (butlast d) \<and> confined {d} w w' \<and>
        (r = None \<longrightarrow> \<not> prefix s d \<and> mirrored w s w' d))"

lemma effectI_error: "effect w root req w (Some e)"
  by (simp add: effect_def)

lemma placed_unique: "placed w root rel k \<Longrightarrow> placed w root rel k' \<Longrightarrow> k = k'"
  by (auto simp: placed_def dest!: leads_resolve)

lemma ResolveSource_placed:
  assumes "ResolveSource sj w root rel = Inr (p, info)" "ntype info \<noteq> TSymlink"
    and "securejoin_contract sj" "wf_fs w"
  obtains k where "placed w root rel k" "at w p k" "node_at w k = Some info"
  using ResolveSource_Inr [OF assms] unfolding placed_def by blast

lemma ResolveDestination_placed:
  assumes "ResolveDestination sj w root rel = Inr (p, pp)" "securejoin_contract sj" "wf_fs w"
  obtains k where "placed w root rel k" "at w p k" "node_at w k = None" "dir_at w (butlast k)"
proof -
  from ResolveDestination_Inr [OF assms] obtain rp R ds c where
      *: "normalizeRoot (cwd w) root = Inr rp" "contained rel" "leads w rp R" "rel_comps rel = ds @ [c]"
      "dir_at w (R @ ds)" "at w p (R @ ds @ [c])" "node_at w (R @ ds @ [c]) = None" by blast
  then have "placed w root rel (R @ ds @ [c])" unfolding placed_def by auto
  moreover have "butlast (R @ ds @ [c]) = R @ ds" by (simp add: butlast_append)
  ultimately show ?thesis using that * by metis
qed

lemma RequireRegularFile_None: "RequireRegularFile n = None \<longleftrightarrow> ntype n = TReg"
  by (auto simp: RequireRegularFile_def)

lemma RequireDirectory_None: "RequireDirectory n = None \<longleftrightarrow> ntype n = TDir"
  by (auto simp: RequireDirectory_def)

lemma RejectHardlink_None: "RejectHardlink n = None \<longleftrightarrow> nlink n \<le> 1"
  by (auto simp: RejectHardlink_def)

context exclusive_reflinker
begin

lemma rl_confined:
  assumes "wf_fs w" "rl w src dst mode = (w', r)" "at w src s" "node_at w s = Some n"
    "ntype n = TReg" "at w dst d" "node_at w d = None"
  shows "confined {d} w w'"
  using assms(1) rl_env [OF assms] assms(6,7) rl_others [OF assms] by (rule confined_one)

text \<open>A cloned file is a mirror of its source: nothing lies below either.\<close>

lemma rl_mirrored:
  assumes "wf_fs w" "rl w src dst (Perm (Mode n)) = (w', None)" "at w src s" "node_at w s = Some n"
    "ntype n = TReg" "nlink n \<le> 1" "at w dst d" "node_at w d = None"
  shows "\<not> prefix s d" "mirrored w s w' d"
proof -
  have below: "node_at w (s @ y) = None" if "y \<noteq> []" for y
    using wf_fs_prefix [OF assms(1) _ that, of s] assms(4,5)
    by (cases "node_at w (s @ y)") (auto simp: dir_at_def)
  from at_free_split [OF assms(7,8,1)] obtain q c where q: "d = q @ [c]" "dir_at w q" by blast
  show "\<not> prefix s d"
  proof
    assume "prefix s d"
    moreover have "s \<noteq> d" using assms(4,8) by auto
    ultimately have "prefix s q" using q(1) by (simp add: prefix_snoc)
    then obtain y where "q = s @ y" by (auto simp: prefix_def)
    with q(2) below [of y] assms(4,5) show False by (cases "y = []") (auto simp: dir_at_def)
  qed
  have "rel_option mirror_node (node_at w (s @ y)) (node_at w' (d @ y))" for y
  proof (cases "y = []")
    case True
    with rl_exact [OF assms(1-5,7,8)] assms(4-6) show ?thesis by (simp add: mirror_node_def)
  next
    case False
    with below [OF False] rl_others [OF assms(1-5,7,8), of "d @ y"] wf_fs_none [OF assms(1,8), of y]
    show ?thesis by simp
  qed
  then show "mirrored w s w' d" by (simp add: mirrored_def)
qed

lemma single_effect:
  assumes "Service_reflinker clone s = rl" "securejoin_contract sj" "wf_fs w"
    and run: "reflinkSingle clone sj s w (Src req) (Dst req) = (w', r)"
  shows "effect w (Root s) req w' r"
proof (cases "\<exists>p info p' pp. ResolveSource sj w (Root s) (Src req) = Inr (p, info) \<and>
    ntype info = TReg \<and> nlink info \<le> 1 \<and> ResolveDestination sj w (Root s) (Dst req) = Inr (p', pp)")
  case False
  then have "w' = w \<and> r \<noteq> None"
    using run by (auto simp: reflinkSingle_def RequireRegularFile_def RejectHardlink_def
        split: sum.splits if_splits)
  then show ?thesis by (simp add: effect_def)
next
  case True
  then obtain p info p' pp where
      src: "ResolveSource sj w (Root s) (Src req) = Inr (p, info)" "ntype info = TReg" "nlink info \<le> 1"
      and dst: "ResolveDestination sj w (Root s) (Dst req) = Inr (p', pp)" by blast
  have "RequireRegularFile info = None" "RejectHardlink info = None"
    using src by (simp_all add: RequireRegularFile_None RejectHardlink_None)
  then have rl: "rl w p p' (Perm (Mode info)) = (w', r)"
    using run src dst assms(1) by (simp add: reflinkSingle_def)
  obtain k where k: "placed w (Root s) (Src req) k" "at w p k" "node_at w k = Some info"
    using ResolveSource_placed [OF src(1) _ assms(2,3)] src(2) by auto
  obtain d where d: "placed w (Root s) (Dst req) d" "at w p' d" "node_at w d = None"
      "dir_at w (butlast d)"
    using ResolveDestination_placed [OF dst assms(2,3)] .
  have "confined {d} w w'" by (rule rl_confined [OF assms(3) rl k(2,3) src(2) d(2,3)])
  moreover have "\<not> prefix k d \<and> mirrored w k w' d" if "r = None"
    using rl_mirrored [OF assms(3) rl [unfolded that] k(2,3) src(2,3) d(2,3)] by blast
  ultimately show ?thesis unfolding effect_def using k d by blast
qed

lemma tree_effect:
  assumes "Service_reflinker clone s = rl" "securejoin_contract sj" "wf_fs w"
    and run: "reflinkTree fuel clone sj s w (Src req) (Dst req) = Some (w', r)"
  shows "effect w (Root s) req w' r"
proof (cases "\<exists>p info p' pp. ResolveSource sj w (Root s) (Src req) = Inr (p, info) \<and>
    ntype info = TDir \<and> ResolveDestination sj w (Root s) (Dst req) = Inr (p', pp)")
  case False
  then have "w' = w \<and> r \<noteq> None"
    using run by (auto simp: reflinkTree_def RequireDirectory_def split: sum.splits if_splits)
  then show ?thesis by (simp add: effect_def)
next
  case True
  then obtain p info p' pp where
      src: "ResolveSource sj w (Root s) (Src req) = Inr (p, info)" "ntype info = TDir"
      and dst: "ResolveDestination sj w (Root s) (Dst req) = Inr (p', pp)" by blast
  then have rt: "ReflinkTree fuel rl w p p' = Some (w', r)"
    using run assms(1) by (simp add: reflinkTree_def RequireDirectory_None [THEN iffD2])
  obtain k where k: "placed w (Root s) (Src req) k" "at w p k" "node_at w k = Some info"
    using ResolveSource_placed [OF src(1) _ assms(2,3)] src(2) by auto
  obtain d where d: "placed w (Root s) (Dst req) d" "at w p' d" "node_at w d = None"
      "dir_at w (butlast d)"
    using ResolveDestination_placed [OF dst assms(2,3)] .
  from tree_correct [OF assms(3) k(2) d(2,3) rt] k d show ?thesis
    unfolding effect_def by blast
qed

lemma execute_effect:
  assumes "Service_reflinker clone s = rl" "securejoin_contract sj" "wf_fs w"
    and run: "Execute fuel clone sj s w req = Some (w', r)"
  shows "effect w (Root s) req w' r"
proof (cases "validate_Request req")
  case None
  with run single_effect [OF assms(1-3)] tree_effect [OF assms(1-3)] show ?thesis
    by (simp add: Execute_def split: if_splits)
next
  case (Some e)
  with run have "w' = w" "r = Some e" by (auto simp: Execute_def)
  then show ?thesis by (simp add: effectI_error)
qed

lemma execute_total:
  assumes "Service_reflinker clone s = rl" "securejoin_contract sj" "wf_fs w" "PATH_MAX \<le> fuel"
  shows "\<exists>w' r. Execute fuel clone sj s w req = Some (w', r)"
proof -
  have "\<exists>w' r. reflinkTree fuel clone sj s w src dst = Some (w', r)" for src dst
  proof (cases "\<exists>p info p' pp. ResolveSource sj w (Root s) src = Inr (p, info) \<and>
      ntype info = TDir \<and> ResolveDestination sj w (Root s) dst = Inr (p', pp)")
    case False
    then show ?thesis
      by (auto simp: reflinkTree_def RequireDirectory_None split: sum.splits option.splits)
  next
    case True
    then obtain p info p' pp where src: "ResolveSource sj w (Root s) src = Inr (p, info)"
        "ntype info = TDir" and dst: "ResolveDestination sj w (Root s) dst = Inr (p', pp)" by blast
    obtain k where k: "at w p k" using ResolveSource_placed [OF src(1) _ assms(2,3)] src(2) by auto
    obtain d where d: "at w p' d" "node_at w d = None"
      using ResolveDestination_placed [OF dst assms(2,3)] .
    from tree_total [OF assms(3) k d assms(4)] src dst assms(1) show ?thesis
      by (simp add: reflinkTree_def RequireDirectory_None [THEN iffD2])
  qed
  then show ?thesis
    by (cases "reflinkSingle clone sj s w (Src req) (Dst req)")
      (auto simp: Execute_def split: option.splits)
qed

end

text \<open>The daemon's service: the clone is the third-party call behind \<open>FileReflinker\<close>.\<close>

lemma New_reflinker [simp]: "Service_reflinker clone (New root clone) = FileReflinker_Reflink clone"
  by (simp add: New_def Service_reflinker_def)

lemma Root_New [simp]: "Root (New root clone) = root"
  by (simp add: New_def)

lemma Execute_effect:
  assumes "clone_contract clone" "securejoin_contract sj" "wf_fs w"
    and "Execute fuel clone sj (New root clone) w req = Some (w', r)"
  shows "effect w root req w' r"
  using exclusive_reflinker.execute_effect [OF FileReflinker_exclusive [OF assms(1)] New_reflinker
      assms(2,3,4)] by simp

lemma Execute_total:
  assumes "clone_contract clone" "securejoin_contract sj" "wf_fs w" "PATH_MAX \<le> fuel"
  shows "\<exists>w' r. Execute fuel clone sj (New root clone) w req = Some (w', r)"
  using exclusive_reflinker.execute_total [OF FileReflinker_exclusive [OF assms(1)] New_reflinker
      assms(2,3,4)] .

end
