(* ===== verification/Example.thy ===== *)
theory Example
  imports Service
begin

section \<open>A concrete host\<close>

text \<open>
  A small state that the witnesses of the properties evaluate: the share root \<open>/s\<close> with a file
  \<open>a\<close> and a directory \<open>d\<close> that holds a file \<open>f\<close>, a join that does no more than joining, and the
  kernel's clone.
\<close>

definition ex_file :: "FileMode \<Rightarrow> bytes \<Rightarrow> node" where
  "ex_file m d = \<lparr>ntype = TReg, nperm = m, ndata = d, nlink = 1\<rparr>"

definition ex_dir :: "FileMode \<Rightarrow> node" where
  "ex_dir m = \<lparr>ntype = TDir, nperm = m, ndata = [], nlink = 2\<rparr>"

definition ex_fs :: fsys where
  "ex_fs = \<lparr>nodes = [([], ex_dir 0x1ED), ([''s''], ex_dir 0x1ED), ([''s'', ''a''], ex_file 0x1A4 ''data''),
     ([''s'', ''d''], ex_dir 0x1C5), ([''s'', ''d'', ''f''], ex_file 0x180 ''more'')],
     cwd = Inr ''/'', umask = 0x12, fault = (\<lambda>_. None)\<rparr>"

definition ex_sj :: securejoin where
  "ex_sj w rp rel = Inr (Join [rp, rel])"

definition ex_clone :: clone_fun where
  "ex_clone = ficlone (\<lambda>_ _. True)"

definition ex_request :: "bool \<Rightarrow> string \<Rightarrow> string \<Rightarrow> Request" where
  "ex_request recursive src dst = \<lparr>Version = 1, Op = ''reflink'', Recursive = recursive,
     Src = src, Dst = dst, Token = []\<rparr>"

lemma ex_clone_contract: "clone_contract ex_clone"
  unfolding ex_clone_def by (rule ficlone.clone_ok)

lemma ex_sj_contract: "securejoin_contract ex_sj"
  by (simp add: securejoin_contract_def ex_sj_def)

lemma ex_node_at: "node_at ex_fs k = map_of (nodes ex_fs) k"
  by (simp add: node_at_def)

lemma ex_wf: "wf_fs ex_fs"
  unfolding wf_fs_def
proof (intro conjI allI impI)
  show "dir_at ex_fs []" by (simp add: dir_at_def node_at_def ex_fs_def ex_dir_def)
  fix k :: key and c
  assume "node_at ex_fs (k @ [c]) \<noteq> None"
  then have "(k, c) \<in> {([], ''s''), ([''s''], ''a''), ([''s''], ''d''), ([''s'', ''d''], ''f'')}"
    by (auto simp: node_at_def ex_fs_def append_eq_Cons_conv split: if_splits)
  then show "plain_comp c" "dir_at ex_fs k"
    by (auto simp: plain_comp_def dir_at_def node_at_def ex_fs_def ex_dir_def)
qed (simp_all add: ex_fs_def IsAbs_def has_prefix_iff)

end
