(* ===== verification/Service_Success.thy ===== *)
theory Service_Success
  imports Service Tree_Success
begin

section \<open>Requests that succeed\<close>

text \<open>
  The resolution of both paths where no call fails and no component below the root is a link,
  and with \<open>Tree_Success\<close> the requests that must succeed.
\<close>

text \<open>What \<open>validate.go\<close> relies on from \<open>securejoin.SecureJoin\<close> for success: without links it joins.\<close>

definition securejoin_joins :: "securejoin \<Rightarrow> bool" where
  "securejoin_joins sj \<longleftrightarrow>
     (\<forall>w root cs. IsAbs root \<and> Clean root = root \<and> plain_comps cs \<and> no_link_below w root cs \<longrightarrow>
        sj w root (render False cs) = Inr (Join [root, render False cs]))"

lemma securejoin_joins_contract: "securejoin_joins sj \<Longrightarrow> securejoin_contract sj"
  by (fastforce simp: securejoin_joins_def securejoin_contract_def)

text \<open>A place below a directory that a path leads to.\<close>

lemma dir_below:
  "wf_fs w \<Longrightarrow> leads w (render True ps) R \<Longrightarrow> plain_comps ps \<Longrightarrow> dir_at w (R @ cs) \<Longrightarrow> plain_comps cs \<Longrightarrow>
   length (render True (ps @ cs)) < PATH_MAX \<Longrightarrow> leads w (render True (ps @ cs)) (R @ cs)"
proof (induction cs rule: rev_induct)
  case Nil
  then show ?case by simp
next
  case (snoc c cs)
  have c: "plain_comp c" "plain_comps cs" using snoc.prems(5) by simp_all
  have d: "dir_at w (R @ cs)"
    using wf_fs_prefix [OF snoc.prems(1), of "R @ cs" "[c]"] dir_at_node [OF snoc.prems(4)] by simp
  have len: "length (render True (ps @ cs)) < PATH_MAX"
    using snoc.prems(6) length_render_grows [OF c(1), of "ps @ cs"] by simp
  have j: "Join [render True (ps @ cs), c] = render True (ps @ cs @ [c])"
    using snoc.prems(3) c by (simp add: Join_name)
  have "at w (Join [render True (ps @ cs), c]) ((R @ cs) @ [c])"
    using snoc.IH [OF snoc.prems(1-3) d c(2) len] c(1) d snoc.prems(4,6)
    by (intro at_child) (auto simp: j dir_at_def)
  then show ?case unfolding j by (simp add: at_leads)
qed

lemma at_below:
  assumes "wf_fs w" "leads w (render True ps) R" "plain_comps ps" "plain_comps cs" "cs \<noteq> []"
    and "dir_at w (R @ butlast cs)" "length (render True (ps @ cs)) < PATH_MAX"
    and "\<And>n. node_at w (R @ cs) = Some n \<Longrightarrow> ntype n \<noteq> TSymlink"
  shows "at w (render True (ps @ cs)) (R @ cs)"
proof -
  obtain ds c where cs: "cs = ds @ [c]" using assms(5) by (cases cs rule: rev_cases) auto
  have c: "plain_comp c" "plain_comps ds" using assms(4) cs by simp_all
  have j: "Join [render True (ps @ ds), c] = render True (ps @ ds @ [c])"
    using assms(3) c by (simp add: Join_name)
  have "length (render True (ps @ ds)) < PATH_MAX"
    using assms(7) length_render_grows [OF c(1), of "ps @ ds"] cs by simp
  with assms cs c have "leads w (render True (ps @ ds)) (R @ ds)" by (intro dir_below) simp_all
  then have "at w (Join [render True (ps @ ds), c]) ((R @ ds) @ [c])"
    using c(1) assms(6-8) cs by (intro at_child) (simp_all add: j)
  then show ?thesis by (simp add: j cs)
qed

text \<open>The component check passes along directories.\<close>

lemma reject_loop_ok:
  "wf_fs w \<Longrightarrow> no_faults w \<Longrightarrow> leads w (render True ps) R \<Longrightarrow> plain_comps ps \<Longrightarrow> plain_comps cs \<Longrightarrow>
   cs \<noteq> [] \<Longrightarrow> dir_at w (R @ butlast cs) \<Longrightarrow> length (render True (ps @ cs)) < PATH_MAX \<Longrightarrow>
   (case node_at w (R @ cs) of None \<Rightarrow> allow | Some n \<Rightarrow> ntype n \<noteq> TSymlink) \<Longrightarrow>
   reject_loop w (render True ps) cs allow msg = None"
proof (induction cs arbitrary: ps R)
  case Nil
  then show ?case by simp
next
  case (Cons c cs)
  have c: "plain_comp c" "plain_comps cs" using Cons.prems(5) by simp_all
  have dR: "dir_at w R"
    using wf_fs_prefix [OF Cons.prems(1), of R "butlast (c # cs)"] dir_at_node [OF Cons.prems(7)] Cons.prems(7)
    by (cases "cs = []") auto
  have j: "Join [render True ps, c] = render True (ps @ [c])" using Cons.prems(4) c by (simp add: Join_name)
  have "length (render True (ps @ [c])) \<le> length (render True ((ps @ [c]) @ cs))"
    using length_render_append [of "ps @ [c]" cs] by (cases "cs = []") auto
  then have len: "length (render True (ps @ [c])) < PATH_MAX" using Cons.prems(8) by simp
  have f: "find_node w (Join [render True ps, c]) False =
      (case node_at w (R @ [c]) of None \<Rightarrow> Inl ENOENT | Some n \<Rightarrow> Inr (R @ [c], n))"
    using find_child [OF Cons.prems(3) c(1) dR] len j by simp
  show ?case
  proof (cases "cs = []")
    case True
    with f Cons.prems(2,9) show ?thesis
      by (auto simp: Let_def os_Lstat_def path_error_def os_IsNotExist_def underlyingError_def
          split: option.splits)
  next
    case False
    then have d: "dir_at w (R @ c # butlast cs)" using Cons.prems(7) by simp
    have dc: "dir_at w (R @ [c])"
      using wf_fs_prefix [OF Cons.prems(1), of "R @ [c]" "butlast cs"] dir_at_node [OF d] d
      by (cases "butlast cs = []") auto
    then obtain n where n: "node_at w (R @ [c]) = Some n" "ntype n = TDir"
      by (auto simp: dir_at_def split: option.splits)
    then have at1: "at w (render True (ps @ [c])) (R @ [c])"
      using at_child [OF Cons.prems(3) c(1) dR] len j by auto
    have "reject_loop w (render True (ps @ [c])) cs allow msg = None"
      using Cons.IH [OF Cons.prems(1,2) at_leads [OF at1] _ c(2) False] d Cons.prems(4,8,9) c by simp
    with n show ?thesis by (simp add: Let_def j Lstat_ok [OF Cons.prems(2) at1 n(1)])
  qed
qed

text \<open>Both resolutions, on a root that a clean absolute path leads to.\<close>

lemma resolvePath_ok:
  assumes "leads w root R" "contained rel" "rel_comps rel = cs" "securejoin_joins sj"
    and "no_link_below w root cs"
  obtains ps where "plain_comps ps" "root = render True ps"
    "resolvePath sj w root rel = Inr (root, render False cs, render True (ps @ cs))"
proof -
  from assms(1) obtain ps where ps: "plain_comps ps" "root = render True ps" by (auto simp: leads_def)
  have cs: "plain_comps cs" using assms(2,3) by (simp add: contained_def)
  have "normalizeRoot (cwd w) root = Inr root"
    using ps by (simp add: normalizeRoot_abs plain_imp_normal)
  moreover have "NormalizeRelative rel = Inr (render False cs)"
    using assms(2,3) by (simp add: NormalizeRelative_Inr)
  moreover have "sj w root (render False cs) = Inr (render True (ps @ cs))"
    using assms(4,5) ps cs Join_render [of ps cs] by (simp add: securejoin_joins_def plain_imp_normal)
  ultimately show ?thesis using that ps by (simp add: resolvePath_def)
qed

lemma check_ok:
  assumes "wf_fs w" "no_faults w" "leads w (render True ps) R" "plain_comps ps" "contained rel"
    "rel_comps rel = cs" "cs \<noteq> []" "dir_at w (R @ butlast cs)" "length (render True (ps @ cs)) < PATH_MAX"
    and "case node_at w (R @ cs) of None \<Rightarrow> allow | Some n \<Rightarrow> ntype n \<noteq> TSymlink"
  shows "rejectSymlinkComponents w (render True ps) (render False cs) allow msg = None"
    and "no_link_below w (render True ps) cs"
proof -
  have cs: "plain_comps cs" using assms(5,6) by (simp add: contained_def)
  have r: "reject_loop w (render True ps) cs allow msg = None"
    by (rule reject_loop_ok [OF assms(1-4) cs assms(7-10)])
  have "split_on sep (FromSlash (render False cs)) = cs"
    using split_contained [of rel] assms(5-7) by simp
  moreover have "render False cs \<noteq> ''.''"
    using render_dot_iff [of cs] assms(7) cs by (simp add: plain_imp_normal)
  ultimately show "rejectSymlinkComponents w (render True ps) (render False cs) allow msg = None"
    using r by (simp add: rejectSymlinkComponents_def)
  show "no_link_below w (render True ps) cs"
    by (rule reject_loop_no_link [OF r assms(4) cs assms(1)])
qed

text \<open>
  \<open>names w root rel k\<close>: below the root, \<open>rel\<close> names the entry \<open>k\<close> of an existing directory, by a
  path that is short enough.
\<close>

definition names :: "fsys \<Rightarrow> string \<Rightarrow> string \<Rightarrow> key \<Rightarrow> bool" where
  "names w root rel k \<longleftrightarrow> contained rel \<and> rel_comps rel \<noteq> [] \<and>
     length (Join [root, Clean rel]) < PATH_MAX \<and>
     (\<exists>R. at w root R \<and> k = R @ rel_comps rel \<and> dir_at w (butlast k))"

lemma namesE:
  assumes "names w root rel k"
  obtains ps R where "plain_comps ps" "root = render True ps" "at w root R"
    "contained rel" "k = R @ rel_comps rel" "rel_comps rel \<noteq> []" "plain_comps (rel_comps rel)"
    "dir_at w (R @ butlast (rel_comps rel))" "length (render True (ps @ rel_comps rel)) < PATH_MAX"
    "Join [root, Clean rel] = render True (ps @ rel_comps rel)"
proof -
  from assms obtain R where R: "at w root R" "k = R @ rel_comps rel" "dir_at w (butlast k)"
    and n: "contained rel" "rel_comps rel \<noteq> []" "length (Join [root, Clean rel]) < PATH_MAX"
    by (auto simp: names_def)
  from R(1) obtain ps where ps: "plain_comps ps" "root = render True ps" by (auto simp: at_def)
  have cs: "plain_comps (rel_comps rel)" using n(1) by (simp add: contained_def)
  have "Clean rel = render False (rel_comps rel)"
    using n(1) by (simp add: contained_def Clean_relative rel_comps_def)
  then have "Join [root, Clean rel] = render True (ps @ rel_comps rel)"
    using ps cs by (simp add: Join_render)
  then show ?thesis using that [of ps R] ps R n cs by (simp add: butlast_append)
qed

lemma ResolveSource_ok:
  assumes "names w root rel k" "node_at w k = Some n" "ntype n \<noteq> TSymlink"
    and "securejoin_joins sj" "wf_fs w" "no_faults w"
  shows "\<exists>p. ResolveSource sj w root rel = Inr (p, n) \<and> at w p k \<and> p = Join [root, Clean rel]"
proof -
  from assms(1) obtain ps R where *: "plain_comps ps" "root = render True ps" "at w root R"
    "contained rel" "k = R @ rel_comps rel" "rel_comps rel \<noteq> []" "plain_comps (rel_comps rel)"
    "dir_at w (R @ butlast (rel_comps rel))" "length (render True (ps @ rel_comps rel)) < PATH_MAX"
    "Join [root, Clean rel] = render True (ps @ rel_comps rel)"
    by (rule namesE)
  note ck = check_ok [where allow = False,
      OF assms(5,6) at_leads [OF *(3) [unfolded *(2)]] *(1,4) refl *(6,8,9)]
  have c: "case node_at w (R @ rel_comps rel) of None \<Rightarrow> False | Some n \<Rightarrow> ntype n \<noteq> TSymlink"
    using assms(2,3) *(5) by simp
  obtain ps' where "root = render True ps'" "plain_comps ps'"
      and rp: "resolvePath sj w root rel = Inr (root, render False (rel_comps rel), render True (ps' @ rel_comps rel))"
    using resolvePath_ok [OF at_leads [OF *(3)] *(4) refl assms(4)] ck(2) [OF c] *(2) by blast
  then have ps': "ps' = ps" using *(1,2) render_inject [of True ps' ps] by simp
  have a: "at w (render True (ps @ rel_comps rel)) k"
    unfolding *(5) using assms(2,3) *(5)
    by (intro at_below [OF assms(5) at_leads [OF *(3) [unfolded *(2)]] *(1,7,6,8,9)]) simp_all
  with rp ps' ck(1) [OF c] *(2,10) show ?thesis
    by (simp add: ResolveSource_def Lstat_ok [OF assms(6) a assms(2)])
qed

lemma ResolveDestination_ok:
  assumes "names w root rel k" "node_at w k = None"
    and "securejoin_joins sj" "wf_fs w" "no_faults w"
  shows "\<exists>p pp. ResolveDestination sj w root rel = Inr (p, pp) \<and> at w p k \<and> p = Join [root, Clean rel]"
proof -
  let ?cs = "rel_comps rel"
  from assms(1) obtain ps R where *: "plain_comps ps" "root = render True ps" "at w root R"
    "contained rel" "k = R @ ?cs" "?cs \<noteq> []" "plain_comps ?cs"
    "dir_at w (R @ butlast ?cs)" "length (render True (ps @ ?cs)) < PATH_MAX"
    "Join [root, Clean rel] = render True (ps @ ?cs)"
    by (rule namesE)
  note ck = check_ok [where allow = True,
      OF assms(4,5) at_leads [OF *(3) [unfolded *(2)]] *(1,4) refl *(6,8,9)]
  have c: "case node_at w (R @ ?cs) of None \<Rightarrow> True | Some n \<Rightarrow> ntype n \<noteq> TSymlink"
    using assms(2) *(5) by simp
  obtain ps' where "root = render True ps'" "plain_comps ps'"
      and rp: "resolvePath sj w root rel = Inr (root, render False ?cs, render True (ps' @ ?cs))"
    using resolvePath_ok [OF at_leads [OF *(3)] *(4) refl assms(3)] ck(2) [OF c] *(2) by blast
  then have ps': "ps' = ps" using *(1,2) render_inject [of True ps' ps] by simp
  have a: "at w (render True (ps @ ?cs)) k"
    unfolding *(5) using assms(2) *(5)
    by (intro at_below [OF assms(4) at_leads [OF *(3) [unfolded *(2)]] *(1,7,6,8,9)]) simp_all
  have missing: "\<exists>e. os_Lstat w (render True (ps @ ?cs)) = Inl e \<and> os_IsNotExist e"
    using a assms(2,5)
    by (simp add: os_Lstat_def find_node_def at_resolve path_error_def os_IsNotExist_def underlyingError_def)
  have pb: "plain_comps (butlast ?cs)" using *(7) by (auto simp: plain_comps_def list_all_iff dest: in_set_butlastD)
  have dir: "Dir (FromSlash (render False ?cs)) = render False (butlast ?cs)"
    using *(7) by (simp add: FromSlash_def Dir_render)
  have sj: "sj w root (render False (butlast ?cs)) = Inr (render True (ps @ butlast ?cs))"
    using assms(3) no_link_below_butlast [OF ck(2) [OF c]] pb *(1,2) Join_render [of ps "butlast ?cs"]
    by (simp add: securejoin_joins_def plain_imp_normal)
  obtain d where d: "node_at w (R @ butlast ?cs) = Some d" "ntype d = TDir"
    using *(8) by (auto simp: dir_at_def split: option.splits)
  have lenb: "length (render True (ps @ butlast ?cs)) < PATH_MAX"
  proof -
    obtain ds c where "?cs = ds @ [c]" "plain_comp c"
      using *(6,7) by (cases ?cs rule: rev_cases) auto
    with *(9) length_render_grows [of c "ps @ ds"] show ?thesis by simp
  qed
  have "at w (render True (ps @ butlast ?cs)) (R @ butlast ?cs)"
  proof (cases "butlast ?cs = []")
    case True
    with *(2,3) show ?thesis by simp
  next
    case False
    have "dir_at w (R @ butlast (butlast ?cs))"
      using wf_fs_prefix [OF assms(4), of "R @ butlast (butlast ?cs)" "[last (butlast ?cs)]"] d(1) False
      by simp
    with False d lenb show ?thesis
      by (intro at_below [OF assms(4) at_leads [OF *(3) [unfolded *(2)]] *(1) pb]) simp_all
  qed
  then have ld: "os_Lstat w (render True (ps @ butlast ?cs)) = Inr d"
    using d(1) by (rule Lstat_ok [OF assms(5)])
  show ?thesis
    using rp ps' ck(1) [OF c] *(2,10) missing dir sj ld d(2) a
    by (auto simp: ResolveDestination_def Let_def)
qed

subsection \<open>Execute\<close>

text \<open>
  \<open>tree_fits w k src dst\<close>: every entry at and below \<open>k\<close> is a directory or a regular file without
  further hard links, and its path below either root is short enough.
\<close>

definition tree_fits :: "fsys \<Rightarrow> key \<Rightarrow> string \<Rightarrow> string \<Rightarrow> bool" where
  "tree_fits w k src dst \<longleftrightarrow>
     (\<forall>y n. node_at w (k @ y) = Some n \<longrightarrow>
        (ntype n = TDir \<or> ntype n = TReg \<and> nlink n \<le> 1) \<and>
        length src + length (render True y) < PATH_MAX \<and> length dst + length (render True y) < PATH_MAX)"

lemma length_render_le: "length (render True (ps @ y)) \<le> length (render True ps) + length (render True y)"
  by (cases "ps = []"; cases "y = []") (simp_all add: render_def join_with_append)

lemma tree_fits_clonable:
  "tree_fits w k (render True ps) (render True pd) \<Longrightarrow> clonable (\<lambda>y. node_at w (k @ y)) ps pd"
  unfolding tree_fits_def clonable_def by (meson le_less_trans length_render_le)

context sure_reflinker
begin

lemma single_ok:
  assumes "Service_reflinker clone s = rl" "securejoin_joins sj" "wf_fs w" "no_faults w"
    and "names w (Root s) (Src req) k" "node_at w k = Some n" "ntype n = TReg" "nlink n \<le> 1"
    and "names w (Root s) (Dst req) d" "node_at w d = None"
  shows "\<exists>w'. reflinkSingle clone sj s w (Src req) (Dst req) = (w', None)"
proof -
  obtain p where p: "ResolveSource sj w (Root s) (Src req) = Inr (p, n)" "at w p k"
    using ResolveSource_ok [OF assms(5,6) _ assms(2-4)] assms(7) by auto
  obtain p' pp where p': "ResolveDestination sj w (Root s) (Dst req) = Inr (p', pp)" "at w p' d"
    using ResolveDestination_ok [OF assms(9,10,2-4)] by blast
  obtain w' where "rl w p p' (Perm (Mode n)) = (w', None)"
    using rl_sure [OF assms(3,4) p(2) assms(6,7) p'(2) assms(10)] by blast
  then show ?thesis
    using p(1) p'(1) assms(1,7,8)
    by (simp add: reflinkSingle_def RequireRegularFile_None [THEN iffD2] RejectHardlink_None [THEN iffD2])
qed

lemma tree_request_ok:
  assumes "Service_reflinker clone s = rl" "securejoin_joins sj" "wf_fs w" "no_faults w"
    and "names w (Root s) (Src req) k" "dir_at w k"
    and "names w (Root s) (Dst req) d" "node_at w d = None"
    and "\<not> prefix k d"
    and "tree_fits w k (Join [Root s, Clean (Src req)]) (Join [Root s, Clean (Dst req)])"
    and "PATH_MAX \<le> fuel"
  shows "\<exists>w'. reflinkTree fuel clone sj s w (Src req) (Dst req) = Some (w', None)"
proof -
  obtain n where n: "node_at w k = Some n" "ntype n = TDir"
    using assms(6) by (auto simp: dir_at_def split: option.splits)
  obtain p where p: "ResolveSource sj w (Root s) (Src req) = Inr (p, n)" "at w p k"
      "p = Join [Root s, Clean (Src req)]"
    using ResolveSource_ok [OF assms(5) n(1) _ assms(2-4)] n(2) by auto
  obtain p' pp where p': "ResolveDestination sj w (Root s) (Dst req) = Inr (p', pp)" "at w p' d"
      "p' = Join [Root s, Clean (Dst req)]"
    using ResolveDestination_ok [OF assms(7,8,2-4)] by blast
  from p(2) obtain ps where ps: "plain_comps ps" "p = render True ps" by (auto simp: at_def)
  from p'(2) obtain pd where pd: "plain_comps pd" "p' = render True pd" by (auto simp: at_def)
  have "clonable (\<lambda>y. node_at w (k @ y)) ps pd"
    using assms(10) p(3) p'(3) ps pd by (intro tree_fits_clonable) simp
  then obtain w' where "ReflinkTree fuel rl w p p' = Some (w', None)"
    using tree_ok [OF assms(3) _ ps(1) assms(6) _ pd(1) assms(8,9) _ assms(4,11)] p(2) p'(2) ps(2) pd(2)
    by auto
  then show ?thesis
    using p(1) p'(1) assms(1) n(2) by (simp add: reflinkTree_def RequireDirectory_None [THEN iffD2])
qed

end

end
