(* ===== verification/Service_Properties.thy ===== *)
theory Service_Properties
  imports Example Service_Success
begin

section \<open>What a request does to the host\<close>

text \<open>
  The properties of \<open>Service.Execute\<close>, of \<open>FileReflinker.Reflink\<close> and of
  \<open>Walker.ReflinkTree\<close> as the daemon composes them, with witnesses on the host of \<open>Example\<close>.
\<close>

definition ex_run :: "Request \<Rightarrow> (fsys \<times> go_error option) option" where
  "ex_run req = Execute PATH_MAX ex_clone ex_sj (New ''/s'' ex_clone) ex_fs req"

lemmas ex_hyps = ex_clone_contract ex_sj_contract ex_wf

lemma ex_run_file: "\<exists>w'. ex_run (ex_request False ''a'' ''b'') = Some (w', None)"
proof -
  have "map_option snd (ex_run (ex_request False ''a'' ''b'')) = Some None" by code_simp
  then show ?thesis by auto
qed

lemma ex_run_tree: "\<exists>w'. ex_run (ex_request True ''d'' ''e'') = Some (w', None)"
proof -
  have "map_option snd (ex_run (ex_request True ''d'' ''e'')) = Some None" by code_simp
  then show ?thesis by auto
qed

subsection \<open>Requests\<close>

text \<open>C1: \<open>Execute\<close> implements its contract on every host state, whatever calls fail: either
  nothing changed and an error is returned, or the request's two paths denote places below the
  share root, the destination free in an existing directory, and everything that changed lies at
  or below the destination; and when no error is returned, the destination is a mirror of the
  source (types, data and permissions of every file and directory below it).\<close>

theorem execute_refines:
  assumes "clone_contract clone" "securejoin_contract sj" "wf_fs w"
    and "Execute fuel clone sj (New root clone) w req = Some (w', r)"
  shows "effect w root req w' r"
  using Execute_effect [OF assms] .

theorem execute_refines_witness:
  "\<exists>w'. ex_run (ex_request True ''d'' ''e'') = Some (w', None) \<and>
     effect ex_fs ''/s'' (ex_request True ''d'' ''e'') w' None"
  using execute_refines [OF ex_hyps] ex_run_tree unfolding ex_run_def by blast

text \<open>C5: Every request ends.  The depth of a tree walk is bounded by the longest path the system
  accepts, even when the destination lies inside the source and the walk enters its own copy.\<close>

theorem execute_ends:
  assumes "clone_contract clone" "securejoin_contract sj" "wf_fs w" "PATH_MAX \<le> fuel"
  shows "\<exists>w' r. Execute fuel clone sj (New root clone) w req = Some (w', r)"
  using Execute_total [OF assms] .

theorem execute_ends_witness:
  "\<exists>w' r. Execute 5000 ex_clone ex_sj (New ''/s'' ex_clone) ex_fs (ex_request True ''d'' ''d/x'') = Some (w', r)"
  using execute_ends [OF ex_hyps, of 5000] by (simp add: PATH_MAX_def)

text \<open>C4: No request, successful or not, changes or removes anything that existed before it, and
  whatever it creates lies at or below the place its destination denotes under the share root.\<close>

theorem execute_keeps:
  assumes "clone_contract clone" "securejoin_contract sj" "wf_fs w"
    and "Execute fuel clone sj (New root clone) w req = Some (w', r)"
  shows "(\<forall>q n. node_at w q = Some n \<longrightarrow> node_at w' q = Some n) \<and>
    (\<forall>q. node_at w' q \<noteq> node_at w q \<longrightarrow> (\<exists>d. placed w root (Dst req) d \<and> prefix d q)) \<and> wf_fs w'"
proof -
  from Execute_effect [OF assms]
  consider "w' = w" | d where "placed w root (Dst req) d" "node_at w d = None" "confined {d} w w'"
    unfolding effect_def by blast
  then show ?thesis
  proof cases
    case 1
    with assms(3) show ?thesis by simp
  next
    case (2 d)
    have same: "node_at w' q = node_at w q" if "\<not> prefix d q" for q
      using confinedD(4) [OF 2(3), of q] that by simp
    have "node_at w' q = Some n" if n: "node_at w q = Some n" for q n
    proof -
      have "\<not> prefix d q"
        using wf_fs_none [OF assms(3) 2(2)] n by (auto simp: prefix_def)
      with same n show ?thesis by simp
    qed
    moreover have "\<exists>d. placed w root (Dst req) d \<and> prefix d q" if "node_at w' q \<noteq> node_at w q" for q
      using that same 2(1) by blast
    ultimately show ?thesis using confinedD(1) [OF 2(3)] by blast
  qed
qed

theorem execute_keeps_witness:
  "\<exists>w'. ex_run (ex_request False ''a'' ''b'') = Some (w', None) \<and> wf_fs w' \<and>
     node_at w' [''s'', ''a''] = Some (ex_file 0x1A4 ''data'')"
proof -
  obtain w' where r: "ex_run (ex_request False ''a'' ''b'') = Some (w', None)"
    using ex_run_file by blast
  have "node_at ex_fs [''s'', ''a''] = Some (ex_file 0x1A4 ''data'')" by code_simp
  with execute_keeps [OF ex_hyps r [unfolded ex_run_def]] r show ?thesis by blast
qed

text \<open>C19: A request that fails validation changes nothing and is refused with \<open>EINVAL\<close> or \<open>EPERM\<close>.\<close>

theorem execute_invalid:
  assumes "\<not> (Request_Validate req = None \<and> contained (Src req) \<and> contained (Dst req))"
  shows "\<exists>e c m. Execute fuel clone sj s w req = Some (w, Some e) \<and>
    ResponseFromError (Some e) = FailureResponse c m \<and> c \<in> {CodeEINVAL, CodeEPERM}"
proof -
  from assms obtain e where e: "validate_Request req = Some e"
    using validate_Request_None [of req] by (cases "validate_Request req") auto
  from validate_Request_code [OF e] obtain c m where "e = NewError c m" "c \<in> {CodeEINVAL, CodeEPERM}"
    by auto
  with e show ?thesis by (auto simp: Execute_def ResponseFromError_def)
qed

theorem execute_invalid_witness:
  "\<exists>e c m. ex_run (ex_request False ''../etc'' ''b'') = Some (ex_fs, Some e) \<and>
    ResponseFromError (Some e) = FailureResponse c m \<and> c \<in> {CodeEINVAL, CodeEPERM}"
proof -
  have "\<not> (Request_Validate (ex_request False ''../etc'' ''b'') = None \<and>
      contained (Src (ex_request False ''../etc'' ''b'')) \<and> contained (Dst (ex_request False ''../etc'' ''b'')))"
    by code_simp
  then show ?thesis unfolding ex_run_def by (rule execute_invalid)
qed

subsection \<open>One file\<close>

text \<open>C8: \<open>FileReflinker.Reflink\<close> is all or nothing: with a regular source, a free destination
  and no failure of close or remove, success leaves a file with the source's data and exactly
  the mode asked for at the destination, failure leaves every place as it was.\<close>

theorem FileReflinker_all_or_nothing:
  assumes "clone_contract clone" "wf_fs w" "FileReflinker_Reflink clone w src dst mode = (w', r)"
    and "at w src s" "node_at w s = Some n" "ntype n = TReg" "at w dst d" "node_at w d = None"
    and "fault w (SysClose dst) = None" "fault w (SysRemove dst) = None"
  shows "node_at w' q = (if r = None \<and> q = d
    then Some \<lparr>ntype = TReg, nperm = Perm mode, ndata = ndata n, nlink = 1\<rparr> else node_at w q)"
proof (cases "r = None \<and> q = d")
  case True
  with FileReflinker_result(3) [OF assms(1-8)] show ?thesis by (auto intro: node.equality)
next
  case False
  with FileReflinker_result(2) [OF assms(1-8), of q] FileReflinker_result(3) [OF assms(1-8)] assms(8-10)
  show ?thesis by (cases "q = d") auto
qed

text \<open>C7: A tree clone mirrors its source.  If \<open>ReflinkTree\<close> returns no error, the destination
  has, place by place, what the source had: directories with their permission bits, regular
  files with their data and permission bits, and nothing else; only the destination changed, and
  it does not lie inside the source.\<close>

theorem ReflinkTree_mirrors:
  assumes "clone_contract clone" "wf_fs w" "at w src s" "at w dst d" "node_at w d = None"
    and "ReflinkTree fuel (FileReflinker_Reflink clone) w src dst = Some (w', None)"
  shows "dir_at w s \<and> \<not> prefix s d \<and> mirrored w s w' d \<and> confined {d} w w'"
  using exclusive_reflinker.tree_correct [OF FileReflinker_exclusive [OF assms(1)] assms(2-6)] by simp

text \<open>C12: Cloning a directory into itself always ends, with an error, and changes nothing outside
  the destination.\<close>

theorem ReflinkTree_into_itself:
  assumes "clone_contract clone" "wf_fs w" "at w src s" "at w dst d" "node_at w d = None"
    and "prefix s d" "PATH_MAX \<le> fuel"
  shows "\<exists>w' e. ReflinkTree fuel (FileReflinker_Reflink clone) w src dst = Some (w', Some e) \<and>
    confined {d} w w'"
proof -
  note rl = FileReflinker_exclusive [OF assms(1)]
  obtain w' r where run: "ReflinkTree fuel (FileReflinker_Reflink clone) w src dst = Some (w', r)"
    using exclusive_reflinker.tree_total [OF rl assms(2-5,7)] by blast
  with exclusive_reflinker.tree_correct [OF rl assms(2-5) run] assms(6) show ?thesis
    by (cases r) auto
qed

subsection \<open>Witnesses on the example host\<close>

definition ex_checked :: "string list \<Rightarrow> bool" where
  "ex_checked cs \<longleftrightarrow> plain_comps cs \<and> length (render True cs) < PATH_MAX \<and>
     namei ex_fs MAXSYMLINKS [] cs True = Inr (cs, MAXSYMLINKS) \<and>
     namei ex_fs MAXSYMLINKS [] cs False = Inr (cs, MAXSYMLINKS)"

lemma ex_at: "ex_checked cs \<Longrightarrow> at ex_fs (render True cs) cs"
  by (auto simp: ex_checked_def intro: at_check)

lemma ex_places:
  "at ex_fs ''/s/a'' [''s'', ''a'']" "at ex_fs ''/s/b'' [''s'', ''b'']"
  "at ex_fs ''/s/d'' [''s'', ''d'']" "at ex_fs ''/s/e'' [''s'', ''e'']"
  "at ex_fs ''/s/d/x'' [''s'', ''d'', ''x'']"
proof -
  have "ex_checked [''s'', ''a'']" "ex_checked [''s'', ''b'']" "ex_checked [''s'', ''d'']"
    "ex_checked [''s'', ''e'']" "ex_checked [''s'', ''d'', ''x'']" by code_simp+
  note c = this [THEN ex_at]
  have "render True [''s'', ''a''] = ''/s/a''" "render True [''s'', ''b''] = ''/s/b''"
    "render True [''s'', ''d''] = ''/s/d''" "render True [''s'', ''e''] = ''/s/e''"
    "render True [''s'', ''d'', ''x''] = ''/s/d/x''" by code_simp+
  with c show "at ex_fs ''/s/a'' [''s'', ''a'']" "at ex_fs ''/s/b'' [''s'', ''b'']"
    "at ex_fs ''/s/d'' [''s'', ''d'']" "at ex_fs ''/s/e'' [''s'', ''e'']"
    "at ex_fs ''/s/d/x'' [''s'', ''d'', ''x'']" by simp_all
qed

lemma ex_free: "node_at ex_fs [''s'', ''b''] = None" "node_at ex_fs [''s'', ''e''] = None"
  "node_at ex_fs [''s'', ''d'', ''x''] = None"
  by code_simp+

theorem FileReflinker_all_or_nothing_witness:
  "\<exists>w'. FileReflinker_Reflink ex_clone ex_fs ''/s/a'' ''/s/b'' 0x180 = (w', None) \<and>
     node_at w' [''s'', ''b''] = Some (ex_file 0x180 ''data'')"
proof -
  have "snd (FileReflinker_Reflink ex_clone ex_fs ''/s/a'' ''/s/b'' 0x180) = None" by code_simp
  then obtain w' where r: "FileReflinker_Reflink ex_clone ex_fs ''/s/a'' ''/s/b'' 0x180 = (w', None)"
    by (metis prod.collapse)
  have a: "node_at ex_fs [''s'', ''a''] = Some (ex_file 0x1A4 ''data'')"
    "ntype (ex_file 0x1A4 ''data'') = TReg" "ndata (ex_file 0x1A4 ''data'') = ''data''"
    "fault ex_fs (SysClose ''/s/b'') = None" "fault ex_fs (SysRemove ''/s/b'') = None"
    "Perm 0x180 = 0x180"
    by code_simp+
  from FileReflinker_all_or_nothing [OF ex_clone_contract ex_wf r ex_places(1) a(1,2) ex_places(2)
      ex_free(1) a(4,5), of "[''s'', ''b'']"] r a
  show ?thesis by (simp add: ex_file_def)
qed

theorem ReflinkTree_mirrors_witness:
  "\<exists>w'. ReflinkTree 9 (FileReflinker_Reflink ex_clone) ex_fs ''/s/d'' ''/s/e'' = Some (w', None) \<and>
     mirrored ex_fs [''s'', ''d''] w' [''s'', ''e'']"
proof -
  have "map_option snd (ReflinkTree 9 (FileReflinker_Reflink ex_clone) ex_fs ''/s/d'' ''/s/e'') =
      Some None" by code_simp
  then obtain w' where
      "ReflinkTree 9 (FileReflinker_Reflink ex_clone) ex_fs ''/s/d'' ''/s/e'' = Some (w', None)" by auto
  with ReflinkTree_mirrors [OF ex_clone_contract ex_wf ex_places(3,4) ex_free(2) this] show ?thesis by blast
qed

theorem ReflinkTree_into_itself_witness:
  "\<exists>w' e. ReflinkTree PATH_MAX (FileReflinker_Reflink ex_clone) ex_fs ''/s/d'' ''/s/d/x'' =
      Some (w', Some e)"
  using ReflinkTree_into_itself [OF ex_clone_contract ex_wf ex_places(3,5) ex_free(3), of PATH_MAX]
  by auto

subsection \<open>Requests that must succeed\<close>

text \<open>C25: A valid request for one file succeeds, and by \<open>execute_refines\<close> clones it, whenever the
  source names a regular file without further hard links below the root, the destination names a
  free entry of an existing directory, no system call fails and the file system clones.\<close>

theorem execute_clones_file:
  assumes "clones_all clone" "securejoin_joins sj" "wf_fs w" "no_faults w"
    and "validate_Request req = None" "\<not> Recursive req"
    and "names w root (Src req) k" "node_at w k = Some n" "ntype n = TReg" "nlink n \<le> 1"
    and "names w root (Dst req) d" "node_at w d = None"
  shows "\<exists>w'. Execute fuel clone sj (New root clone) w req = Some (w', None)"
proof -
  note rl = FileReflinker_sure [OF assms(1)]
  have "\<exists>w'. reflinkSingle clone sj (New root clone) w (Src req) (Dst req) = (w', None)"
    by (rule sure_reflinker.single_ok [OF rl _ assms(2-4) _ assms(8-10) _ assms(12)])
      (simp_all add: New_def Service_reflinker_def assms(7,11))
  with assms(5,6) show ?thesis by (simp add: Execute_def)
qed

text \<open>C26: A valid recursive request succeeds, and by \<open>execute_refines\<close> mirrors its source, whenever
  the source names a directory of directories and regular files without further hard links, the
  destination names a free entry of an existing directory outside the source, every path stays
  short enough, no system call fails and the file system clones.\<close>

theorem execute_clones_tree:
  assumes "clones_all clone" "securejoin_joins sj" "wf_fs w" "no_faults w"
    and "validate_Request req = None" "Recursive req"
    and "names w root (Src req) k" "dir_at w k" "names w root (Dst req) d" "node_at w d = None"
    and "\<not> prefix k d"
    and "tree_fits w k (Join [root, Clean (Src req)]) (Join [root, Clean (Dst req)])"
    and "PATH_MAX \<le> fuel"
  shows "\<exists>w'. Execute fuel clone sj (New root clone) w req = Some (w', None)"
proof -
  note rl = FileReflinker_sure [OF assms(1)]
  have "\<exists>w'. reflinkTree fuel clone sj (New root clone) w (Src req) (Dst req) = Some (w', None)"
    by (rule sure_reflinker.tree_request_ok [OF rl _ assms(2-4) _ assms(8) _ assms(10,11) _ assms(13)])
      (use assms in \<open>simp_all add: New_def Service_reflinker_def\<close>)
  with assms(5,6) show ?thesis by (auto simp: Execute_def)
qed

lemma ex_sure: "clones_all ex_clone" "securejoin_joins ex_sj" "no_faults ex_fs"
  using ficlone_all by (simp_all add: ex_clone_def securejoin_joins_def ex_sj_def no_faults_def ex_fs_def)

lemma ex_root: "at ex_fs ''/s'' [''s'']"
proof -
  have "ex_checked [''s'']" "render True [''s''] = ''/s''" by code_simp+
  then show ?thesis using ex_at by metis
qed

lemma ex_names:
  assumes "rel_comps rel = [c]" "contained rel" "length (Join [''/s'', Clean rel]) < PATH_MAX"
  shows "names ex_fs ''/s'' rel [''s'', c]"
  unfolding names_def
proof (intro conjI exI)
  show "dir_at ex_fs (butlast [''s'', c])"
    by (simp add: dir_at_def node_at_def ex_fs_def ex_dir_def)
qed (use assms ex_root in simp_all)

lemma ex_all_names:
  "names ex_fs ''/s'' ''a'' [''s'', ''a'']" "names ex_fs ''/s'' ''b'' [''s'', ''b'']"
  "names ex_fs ''/s'' ''d'' [''s'', ''d'']" "names ex_fs ''/s'' ''e'' [''s'', ''e'']"
proof -
  show "names ex_fs ''/s'' ''a'' [''s'', ''a'']" by (rule ex_names) code_simp+
  show "names ex_fs ''/s'' ''b'' [''s'', ''b'']" by (rule ex_names) code_simp+
  show "names ex_fs ''/s'' ''d'' [''s'', ''d'']" by (rule ex_names) code_simp+
  show "names ex_fs ''/s'' ''e'' [''s'', ''e'']" by (rule ex_names) code_simp+
qed

theorem execute_clones_file_witness:
  "\<exists>w'. Execute 0 ex_clone ex_sj (New ''/s'' ex_clone) ex_fs (ex_request False ''a'' ''b'') = Some (w', None)"
proof (rule execute_clones_file [where d = "[''s'', ''b'']", OF ex_sure(1,2) ex_wf ex_sure(3)])
  show "validate_Request (ex_request False ''a'' ''b'') = None" by code_simp
  show "node_at ex_fs [''s'', ''a''] = Some (ex_file 0x1A4 ''data'')" by code_simp
qed (simp_all add: ex_request_def ex_all_names ex_free ex_file_def)

theorem execute_clones_tree_witness:
  "\<exists>w'. Execute PATH_MAX ex_clone ex_sj (New ''/s'' ex_clone) ex_fs (ex_request True ''d'' ''e'') = Some (w', None)"
proof (rule execute_clones_tree [where d = "[''s'', ''e'']", OF ex_sure(1,2) ex_wf ex_sure(3)])
  show "validate_Request (ex_request True ''d'' ''e'') = None" by code_simp
  show "dir_at ex_fs [''s'', ''d'']" by (simp add: dir_at_def node_at_def ex_fs_def ex_dir_def)
  have l: "length (Join [''/s'', Clean ''d'']) = 4" "length (Join [''/s'', Clean ''e'']) = 4"
    "length (render True []) = 1" "length (render True [''f'']) = 2" by code_simp+
  have "y \<in> {[], [''f'']} \<and> (ntype n = TDir \<or> ntype n = TReg \<and> nlink n \<le> 1)"
    if "node_at ex_fs ([''s'', ''d''] @ y) = Some n" for y n
    using that by (auto simp: node_at_def ex_fs_def ex_dir_def ex_file_def split: if_splits)
  with l show "tree_fits ex_fs [''s'', ''d''] (Join [''/s'', Clean (Src (ex_request True ''d'' ''e''))])
      (Join [''/s'', Clean (Dst (ex_request True ''d'' ''e''))])"
    by (fastforce simp: tree_fits_def ex_request_def PATH_MAX_def)
qed (simp_all add: ex_request_def ex_all_names ex_free prefix_def)

end
