(* ===== verification/Framing.thy ===== *)
theory Framing
  imports Json
begin

section \<open>Frames on the wire (internal/framing)\<close>

text \<open>
  \<open>framing.go\<close>: a frame is a 4-byte big-endian length and that many bytes of JSON.  A reader
  is the bytes that will still arrive and the error that ends them (\<open>io.EOF\<close>, a timeout); a
  writer collects what was written and may fail after some more bytes.  First the JSON form of
  the two protocol records, from their field tags in \<open>protocol.go\<close>.
\<close>

subsection \<open>Marshalling requests and responses\<close>

definition write_field :: "bytes \<Rightarrow> bytes \<Rightarrow> bytes" where
  "write_field name body = write_string name @ CHR '':'' # body"

definition write_object :: "bytes list \<Rightarrow> bytes" where
  "write_object fs = CHR ''{'' # join_with CHR '','' fs @ ''}''"

definition write_bool :: "bool \<Rightarrow> bytes" where
  "write_bool b = (if b then ''true'' else ''false'')"

definition marshal_Request :: "Request \<Rightarrow> bytes" where
  "marshal_Request r = write_object
     ([write_field ''version'' (show_int (Version r)),
       write_field ''op'' (write_string (Op r)),
       write_field ''recursive'' (write_bool (Recursive r)),
       write_field ''src'' (write_string (Src r)),
       write_field ''dst'' (write_string (Dst r))] @
      (if Token r = [] then [] else [write_field ''token'' (write_string (Token r))]))"

definition marshal_ErrorDetail :: "ErrorDetail \<Rightarrow> bytes" where
  "marshal_ErrorDetail d = write_object
     [write_field ''code'' (write_string (Code d)),
      write_field ''message'' (write_string (Message d))]"

definition marshal_Response :: "Response \<Rightarrow> bytes" where
  "marshal_Response r = write_object
     (write_field ''ok'' (write_bool (OK r)) #
      (case Error r of None \<Rightarrow> [] | Some d \<Rightarrow> [write_field ''error'' (marshal_ErrorDetail d)]))"

subsection \<open>Unmarshalling\<close>

text \<open>Names match under simple case folding, which maps two non-ASCII letters to ASCII.\<close>

definition upper :: "char \<Rightarrow> char" where
  "upper c = (if 97 \<le> ord c \<and> ord c \<le> 122 then char_of (ord c - 32) else c)"

function fold_name :: "bytes \<Rightarrow> bytes" where
  "fold_name s =
     (if s = [] then []
      else if take 2 s = [CHR 0xC5, CHR 0xBF] then CHR ''S'' # fold_name (drop 2 s)
      else if take 3 s = [CHR 0xE2, CHR 0x84, CHR 0xAA] then CHR ''K'' # fold_name (drop 3 s)
      else upper (hd s) # fold_name (tl s))"
  by pat_completeness auto
termination by (relation "measure length") (auto simp: neq_Nil_conv)

declare fold_name.simps [simp del]

definition same_name :: "bytes \<Rightarrow> bytes \<Rightarrow> bool" where
  "same_name k name \<longleftrightarrow> fold_name k = fold_name name"

definition digits_value :: "bytes \<Rightarrow> nat" where
  "digits_value ds = foldl (\<lambda>a c. a * 10 + (ord c - 48)) 0 ds"

definition parse_int64 :: "bytes \<Rightarrow> int option" where
  "parse_int64 lit =
     (let neg = (lit \<noteq> [] \<and> hd lit = CHR ''-''); ds = (if neg then tl lit else lit);
          v = (if neg then - int (digits_value ds) else int (digits_value ds))
      in if ds = [] \<or> \<not> list_all is_digit ds then None
         else if - (2 ^ 63) \<le> v \<and> v < 2 ^ 63 then Some v else None)"

definition read_int_field :: "json \<Rightarrow> int \<Rightarrow> int option" where
  "read_int_field v old =
     (case v of JNull \<Rightarrow> Some old | JNum lit \<Rightarrow> parse_int64 lit | _ \<Rightarrow> None)"

definition read_bool_field :: "json \<Rightarrow> bool \<Rightarrow> bool option" where
  "read_bool_field v old = (case v of JNull \<Rightarrow> Some old | JBool b \<Rightarrow> Some b | _ \<Rightarrow> None)"

definition read_string_field :: "json \<Rightarrow> string \<Rightarrow> string option" where
  "read_string_field v old = (case v of JNull \<Rightarrow> Some old | JStr s \<Rightarrow> Some s | _ \<Rightarrow> None)"

fun set_fields :: "('r \<Rightarrow> bytes \<times> json \<Rightarrow> 'r option) \<Rightarrow> 'r \<Rightarrow> (bytes \<times> json) list \<Rightarrow> 'r option" where
  "set_fields f r [] = Some r"
| "set_fields f r (kv # kvs) = (case f r kv of None \<Rightarrow> None | Some r' \<Rightarrow> set_fields f r' kvs)"

definition set_Request :: "Request \<Rightarrow> bytes \<times> json \<Rightarrow> Request option" where
  "set_Request r kv =
     (case kv of (k, v) \<Rightarrow>
        if same_name k ''version''
          then map_option (\<lambda>x. r\<lparr>Version := x\<rparr>) (read_int_field v (Version r))
        else if same_name k ''op'' then map_option (\<lambda>x. r\<lparr>Op := x\<rparr>) (read_string_field v (Op r))
        else if same_name k ''recursive''
          then map_option (\<lambda>x. r\<lparr>Recursive := x\<rparr>) (read_bool_field v (Recursive r))
        else if same_name k ''src'' then map_option (\<lambda>x. r\<lparr>Src := x\<rparr>) (read_string_field v (Src r))
        else if same_name k ''dst'' then map_option (\<lambda>x. r\<lparr>Dst := x\<rparr>) (read_string_field v (Dst r))
        else if same_name k ''token''
          then map_option (\<lambda>x. r\<lparr>Token := x\<rparr>) (read_string_field v (Token r))
        else None)"

definition zero_Request :: Request where
  "zero_Request = \<lparr>Version = 0, Op = [], Recursive = False, Src = [], Dst = [], Token = []\<rparr>"

definition decode_Request :: "json \<Rightarrow> Request option" where
  "decode_Request j =
     (case j of
        JNull \<Rightarrow> Some zero_Request
      | JObj fs \<Rightarrow> set_fields set_Request zero_Request fs
      | _ \<Rightarrow> None)"

definition set_ErrorDetail :: "ErrorDetail \<Rightarrow> bytes \<times> json \<Rightarrow> ErrorDetail option" where
  "set_ErrorDetail d kv =
     (case kv of (k, v) \<Rightarrow>
        if same_name k ''code'' then map_option (\<lambda>x. d\<lparr>Code := x\<rparr>) (read_string_field v (Code d))
        else if same_name k ''message''
          then map_option (\<lambda>x. d\<lparr>Message := x\<rparr>) (read_string_field v (Message d))
        else None)"

text \<open>A pointer field: \<open>null\<close> clears it, an object is read into what it points to.\<close>

definition read_ErrorDetail_field :: "json \<Rightarrow> ErrorDetail option \<Rightarrow> ErrorDetail option option" where
  "read_ErrorDetail_field v old =
     (case v of
        JNull \<Rightarrow> Some None
      | JObj fs \<Rightarrow>
          map_option Some (set_fields set_ErrorDetail
            (case old of None \<Rightarrow> \<lparr>Code = [], Message = []\<rparr> | Some d \<Rightarrow> d) fs)
      | _ \<Rightarrow> None)"

definition set_Response :: "Response \<Rightarrow> bytes \<times> json \<Rightarrow> Response option" where
  "set_Response r kv =
     (case kv of (k, v) \<Rightarrow>
        if same_name k ''ok'' then map_option (\<lambda>x. r\<lparr>OK := x\<rparr>) (read_bool_field v (OK r))
        else if same_name k ''error''
          then map_option (\<lambda>x. r\<lparr>Error := x\<rparr>) (read_ErrorDetail_field v (Error r))
        else None)"

definition decode_Response :: "json \<Rightarrow> Response option" where
  "decode_Response j =
     (case j of
        JNull \<Rightarrow> Some \<lparr>OK = False, Error = None\<rparr>
      | JObj fs \<Rightarrow> set_fields set_Response \<lparr>OK = False, Error = None\<rparr> fs
      | _ \<Rightarrow> None)"

subsection \<open>Readers and writers\<close>

record reader =
  arriving :: bytes
  ending :: go_error

record writer =
  written :: bytes
  wfault :: "(nat \<times> go_error) option"

definition ReadFull :: "reader \<Rightarrow> nat \<Rightarrow> reader \<times> (go_error + bytes)" where
  "ReadFull rd n =
     (if n \<le> length (arriving rd) then (rd\<lparr>arriving := drop n (arriving rd)\<rparr>, Inr (take n (arriving rd)))
      else (rd\<lparr>arriving := []\<rparr>,
        Inl (if arriving rd \<noteq> [] \<and> ending rd = Sentinel IoEOF then Sentinel IoErrUnexpectedEOF
             else ending rd)))"

definition write_bytes :: "writer \<Rightarrow> bytes \<Rightarrow> writer \<times> go_error option" where
  "write_bytes wr p =
     (case wfault wr of
        None \<Rightarrow> (wr\<lparr>written := written wr @ p\<rparr>, None)
      | Some (n, e) \<Rightarrow>
          if length p \<le> n
          then (wr\<lparr>written := written wr @ p, wfault := Some (n - length p, e)\<rparr>, None)
          else (wr\<lparr>written := written wr @ take n p, wfault := Some (0, e)\<rparr>, Some e))"

subsection \<open>Write and Read\<close>

definition MaxPayloadSize :: nat where "MaxPayloadSize = 1048576"

text \<open>\<open>Write\<close> takes the marshalled value: \<open>json.Marshal\<close> never fails on the two records.\<close>

definition Write :: "writer \<Rightarrow> bytes \<Rightarrow> writer \<times> go_error option" where
  "Write wr payload =
     (if length payload > MaxPayloadSize
      then (wr, Some (ErrorString (''frame too large: '' @ show_nat (length payload))))
      else (case write_bytes wr (PutUint32 (of_nat (length payload))) of
              (wr1, Some err) \<Rightarrow> (wr1, Some err)
            | (wr1, None) \<Rightarrow> write_bytes wr1 payload))"

text \<open>
  The error of a payload that is not one JSON value of the expected type.  Its text, which
  depends on the place of the fault, is not modelled.
\<close>

definition json_error :: go_error where "json_error = ErrorString ''invalid JSON''"

definition ReadWithLimit ::
  "(json \<Rightarrow> 'a option) \<Rightarrow> reader \<Rightarrow> u32 \<Rightarrow> reader \<times> (go_error + 'a)" where
  "ReadWithLimit decode rd maxPayload =
     (case ReadFull rd 4 of
        (rd1, Inl err) \<Rightarrow> (rd1, Inl err)
      | (rd1, Inr header) \<Rightarrow>
          let size = Uint32 header in
          if size > maxPayload
          then (rd1, Inl (ErrorString (''frame too large: '' @ show_nat (unat size))))
          else (case ReadFull rd1 (unat size) of
                  (rd2, Inl err) \<Rightarrow> (rd2, Inl err)
                | (rd2, Inr payload) \<Rightarrow>
                    (case (case read_json payload of None \<Rightarrow> None | Some j \<Rightarrow> decode j) of
                       None \<Rightarrow> (rd2, Inl json_error)
                     | Some v \<Rightarrow> (rd2, Inr v))))"

definition Read :: "(json \<Rightarrow> 'a option) \<Rightarrow> reader \<Rightarrow> reader \<times> (go_error + 'a)" where
  "Read decode rd = ReadWithLimit decode rd (of_nat MaxPayloadSize)"

end
