(* ===== verification/Wire.thy ===== *)
theory Wire
  imports Framing
begin

section \<open>What is written is read back (framing and JSON)\<close>

text \<open>
  The round trip of \<open>framing.Write\<close> and \<open>framing.Read\<close> on requests and responses: strings
  (escapes and UTF-8), integers, objects, the two records, and the frame around them.
\<close>

subsection \<open>Strings\<close>

lemma ord_char_of [simp]: "n < 256 \<Longrightarrow> ord (char_of n) = n"
  by (simp add: ord_def)

lemma char_of_ord [simp]: "char_of (ord c) = c"
  by (simp add: ord_def)

lemma ord_less [simp]: "ord c < 256"
  by (simp add: ord_def)

lemma ord_inject [simp]: "ord c = ord d \<longleftrightarrow> c = d"
  by (simp add: ord_def)

lemma ord_consts [simp]: "ord quote = 34" "ord backslash = 92"
  by (simp_all add: ord_def quote_def backslash_def)

lemma utf8_size_append:
  assumes "utf8_size s \<noteq> 0"
  shows "utf8_size (take (utf8_size s) s @ t) = utf8_size s"
proof (cases s)
  case Nil
  with assms show ?thesis by simp
next
  case (Cons a r)
  consider "ord a < 0x80" | "\<not> ord a < 0x80" "in_range 0xC2 0xDF a"
    | "\<not> ord a < 0x80" "\<not> in_range 0xC2 0xDF a" "in_range 0xE0 0xEF a"
    | "\<not> ord a < 0x80" "\<not> in_range 0xC2 0xDF a" "\<not> in_range 0xE0 0xEF a"
    by blast
  then show ?thesis
  proof cases
    case 1
    then show ?thesis by (simp add: Cons)
  next
    case 2
    with assms show ?thesis by (cases r) (simp_all add: Cons split: if_splits)
  next
    case 3
    with assms obtain b c r' where "r = b # c # r'"
      by (auto simp: Cons split: list.splits)
    with 3 assms show ?thesis by (simp add: Cons split: if_splits)
  next
    case 4
    with assms obtain b c d r' where r: "r = b # c # d # r'" and a: "in_range 0xF0 0xF4 a"
      by (auto simp: Cons split: list.splits if_split_asm)
    with 4 assms show ?thesis by (simp add: Cons split: if_splits)
  qed
qed

lemma utf8_size_ascii: "ord c < 128 \<Longrightarrow> utf8_size (c # s) = 1"
  by simp

declare utf8_size.simps [simp del]

lemma unhex_hex_digit: "n < 16 \<Longrightarrow> unhex (hex_digit n) = Some n"
  by (auto simp: unhex_def hex_digit_def)

lemma unhex_0 [simp]: "unhex (CHR ''0'') = Some 0"
  by (simp add: unhex_def ord_def)

text \<open>One step of reading undoes one step of writing.\<close>

lemma unquote_via_step:
  assumes "s \<noteq> []" "hd s \<noteq> quote" "unquote_step s = Some (chunk, rest)" "length rest < length s"
  shows "unquote s = map_option (apfst ((@) chunk)) (unquote rest)"
  by (subst unquote.simps) (use assms in \<open>auto split: option.splits\<close>)

lemma unquote_escaped:
  assumes "unquote_escape s = Some (chunk, rest)" "length rest \<le> length s"
  shows "unquote (backslash # s) = map_option (apfst ((@) chunk)) (unquote rest)"
  using assms by (intro unquote_via_step)
    (auto simp: unquote_step_def quote_def backslash_def)

lemma unquote_escape_byte:
  assumes "ord c < 128"
  shows "unquote (escape_byte c @ t) = map_option (apfst (Cons c)) (unquote t)"
proof -
  have cons: "(@) [c] = Cons c" by auto
  consider "c = quote \<or> c = backslash"
    | "ord c = 8 \<or> ord c = 12 \<or> ord c = 10 \<or> ord c = 13 \<or> ord c = 9"
    | "c \<noteq> quote" "c \<noteq> backslash" "ord c \<notin> {8, 12, 10, 13, 9}"
      "ord c < 32 \<or> c = CHR ''<'' \<or> c = CHR ''>'' \<or> c = CHR ''&''"
    | "c \<noteq> quote" "c \<noteq> backslash" "\<not> (ord c < 32 \<or> c = CHR ''<'' \<or> c = CHR ''>'' \<or> c = CHR ''&'')"
    by blast
  then show ?thesis
  proof cases
    case 1
    then have "unquote_escape (c # t) = Some ([c], t)" by (auto simp: unquote_escape_def)
    from unquote_escaped [OF this] 1 show ?thesis by (auto simp: escape_byte_def cons)
  next
    case 2
    then obtain n :: nat where n: "n \<in> {8, 12, 10, 13, 9}" "c = char_of n"
      using char_of_ord [of c] by (metis insert_iff)
    then have nq: "c \<noteq> quote" "c \<noteq> backslash" by (auto simp flip: ord_inject)
    obtain e where e: "escape_byte c = [backslash, e]" "unquote_escape (e # t) = Some ([c], t)"
      using n nq by (auto simp: escape_byte_def unquote_escape_def) (auto simp: quote_def backslash_def)
    from unquote_escaped [OF e(2)] e(1) show ?thesis by (simp add: cons)
  next
    case 3
    let ?h = "''u00'' @ [hex_digit (ord c div 16), hex_digit (ord c mod 16)]"
    have "getu4 (tl ?h @ t) = Some (ord c)"
      using assms by (simp add: unhex_hex_digit less_mult_imp_div_less)
    then have "unquote_escape (?h @ t) = Some ([c], t)"
      using assms by (simp add: unquote_escape_def quote_def backslash_def encode_rune_def)
    from unquote_escaped [OF this] 3 show ?thesis by (simp add: escape_byte_def cons)
  next
    case 4
    then have "unquote_step (c # t) = Some ([c], t)"
      using assms by (simp add: unquote_step_def utf8_size_ascii)
    from unquote_via_step [OF _ _ this] 4 show ?thesis by (auto simp: escape_byte_def cons)
  qed
qed

lemma unquote_escape_u:
  "getu4 s = Some r \<Longrightarrow> r < 0xD800 \<Longrightarrow> unquote_escape (CHR ''u'' # s) = Some (encode_rune r, drop 4 s)"
  by (simp add: unquote_escape_def quote_def backslash_def)

lemma getu4_separators: "getu4 (''2028'' @ t) = Some 0x2028" "getu4 (''2029'' @ t) = Some 0x2029"
  by (simp_all add: unhex_def ord_def)

lemma encode_separators:
  "encode_rune 0x2028 = [CHR 0xE2, CHR 0x80, CHR 0xA8]"
  "encode_rune 0x2029 = [CHR 0xE2, CHR 0x80, CHR 0xA9]"
  by (simp_all add: encode_rune_def char_of_eq_iff take_bit_eq_mod)

lemma unquote_separators:
  "unquote (backslash # ''u2028'' @ t) = map_option (apfst ((@) [CHR 0xE2, CHR 0x80, CHR 0xA8])) (unquote t)"
  "unquote (backslash # ''u2029'' @ t) = map_option (apfst ((@) [CHR 0xE2, CHR 0x80, CHR 0xA9])) (unquote t)"
  using unquote_escaped [OF unquote_escape_u [OF getu4_separators(1) [of t]]]
    unquote_escaped [OF unquote_escape_u [OF getu4_separators(2) [of t]]]
  by (simp_all add: encode_separators)

lemma unquote_escape_step:
  assumes "s \<noteq> []" "utf8_size s \<noteq> 0" "escape_step s = (out, rest)"
  shows "unquote (out @ t) = map_option (apfst ((@) (take (utf8_size s) s))) (unquote t)"
    and "rest = drop (utf8_size s) s"
proof -
  obtain c s' where s: "s = c # s'" using assms(1) by (cases s) auto
  let ?k = "utf8_size s"
  have "unquote (out @ t) = map_option (apfst ((@) (take ?k s))) (unquote t) \<and> rest = drop ?k s"
  proof (cases "ord c < 128")
    case True
    then have "?k = 1" by (simp add: s utf8_size_ascii)
    moreover have "(@) [c] = Cons c" by auto
    ultimately show ?thesis
      using assms(3) unquote_escape_byte [OF True, of t] True by (auto simp: s escape_step_def Let_def)
  next
    case big: False
    consider "take ?k s = [CHR 0xE2, CHR 0x80, CHR 0xA8]" | "take ?k s = [CHR 0xE2, CHR 0x80, CHR 0xA9]"
      | "out = take ?k s" "rest = drop ?k s"
      using assms(2,3) big by (auto simp: s escape_step_def Let_def split: if_splits)
    then show ?thesis
    proof cases
      case 1
      with assms(2,3) big unquote_separators(1) [of t] show ?thesis
        by (auto simp: s escape_step_def Let_def)
    next
      case 2
      with assms(2,3) big unquote_separators(2) [of t] show ?thesis
        by (auto simp: s escape_step_def Let_def)
    next
      case 3
      have out: "out = c # take (?k - 1) s'" using 3(1) assms(2) by (cases ?k) (simp_all add: s)
      have len: "length out = ?k" using 3(1) utf8_size_le [of s] by simp
      have hd: "hd (out @ t) = c" by (simp add: out)
      moreover have "utf8_size (out @ t) = ?k"
        using utf8_size_append [OF assms(2), of t] by (simp only: 3(1))
      moreover have "c \<noteq> backslash" "\<not> ord c < 32" using big by auto
      ultimately have "unquote_step (out @ t) = Some (out, t)"
        using len assms(2) by (simp add: unquote_step_def)
      moreover have "hd (out @ t) \<noteq> quote" using big hd by auto
      ultimately have "unquote (out @ t) = map_option (apfst ((@) out)) (unquote t)"
        by (intro unquote_via_step) (auto simp: out)
      with 3 show ?thesis by simp
    qed
  qed
  then show "unquote (out @ t) = map_option (apfst ((@) (take ?k s))) (unquote t)"
    and "rest = drop ?k s" by blast+
qed

lemma unquote_escape: "valid_utf8 s \<Longrightarrow> unquote (escape s @ quote # t) = Some (s, t)"
proof (induction s rule: escape.induct)
  case (1 s)
  show ?case
  proof (cases "s = []")
    case True
    then show ?thesis by (simp add: escape.simps unquote.simps)
  next
    case False
    obtain out rest where st: "escape_step s = (out, rest)" by fastforce
    from "1.prems" False have v: "utf8_size s \<noteq> 0" "valid_utf8 (drop (utf8_size s) s)"
      by (simp_all add: valid_utf8.simps [of s] split: if_splits)
    note step = unquote_escape_step [OF False v(1) st]
    have "escape s = out @ escape rest" using False st by (simp add: escape.simps [of s])
    with "1.IH" [OF False st [symmetric]] v(2) step show ?thesis by simp
  qed
qed

subsection \<open>Numbers\<close>

lemma digit_char_digit: "d < 10 \<Longrightarrow> is_digit (digit_char d)" "d < 10 \<Longrightarrow> ord (digit_char d) = 48 + d"
  by (simp_all add: is_digit_def digit_char_def)

lemma show_nat_digits: "list_all is_digit (show_nat n)"
proof (induction n rule: show_nat.induct)
  case (1 n)
  then show ?case by (subst show_nat.simps) (auto simp: digit_char_digit)
qed

lemma show_nat_value: "digits_value (show_nat n) = n"
proof (induction n rule: show_nat.induct)
  case (1 n)
  show ?case
  proof (cases "n < 10")
    case True
    then show ?thesis by (subst show_nat.simps) (simp add: digits_value_def digit_char_digit)
  next
    case False
    with 1 show ?thesis
      by (subst show_nat.simps) (simp add: digits_value_def digit_char_digit)
  qed
qed

lemma show_nat_hd: "hd (show_nat n) = CHR ''0'' \<longleftrightarrow> n = 0"
proof (induction n rule: show_nat.induct)
  case (1 n)
  show ?case
  proof (cases "n < 10")
    case True
    then have "ord (hd (show_nat n)) = 48 + n"
      by (subst show_nat.simps) (simp add: digit_char_digit)
    then have "hd (show_nat n) = CHR ''0'' \<longleftrightarrow> 48 + n = ord (CHR ''0'')" by (metis ord_inject)
    then show ?thesis by (simp add: ord_def)
  next
    case False
    with 1 show ?thesis by (subst show_nat.simps) (simp add: hd_append)
  qed
qed

lemma show_nat_0: "show_nat 0 = ''0''"
  by (subst show_nat.simps) (simp add: digit_char_def char_of_eq_iff)

text \<open>What may follow a value in an object.\<close>

definition delim :: "bytes \<Rightarrow> bool" where
  "delim t \<longleftrightarrow> t \<noteq> [] \<and> (hd t = CHR '','' \<or> hd t = CHR ''}'')"

lemma delim_simps [simp]: "delim (CHR '','' # t)" "delim (CHR ''}'' # t)"
  by (simp_all add: delim_def)

lemma delimD:
  assumes "delim t"
  shows "takeWhile is_digit t = []" "dropWhile is_digit t = t" "scan_frac t = Some ([], t)"
    "scan_exp t = Some ([], t)"
proof -
  obtain c r where t: "t = c # r" "c = CHR '','' \<or> c = CHR ''}''"
    using assms by (cases t) (auto simp: delim_def)
  then have "\<not> is_digit c" by (auto simp: is_digit_def ord_def)
  with t show "takeWhile is_digit t = []" "dropWhile is_digit t = t" "scan_frac t = Some ([], t)"
    "scan_exp t = Some ([], t)"
    by (auto simp: scan_frac_def scan_exp_def)
qed

lemma digits_append:
  "list_all is_digit ds \<Longrightarrow> delim t \<Longrightarrow> digits (ds @ t) = (ds, t)"
  by (simp add: digits_def list_all_iff takeWhile_append2 dropWhile_append2 delimD)

lemma scan_int_show: "delim t \<Longrightarrow> scan_int (show_nat n @ t) = Some (show_nat n, t)"
  using show_nat_hd [of n] digits_append [OF show_nat_digits, of t n]
  by (cases "n = 0") (auto simp: scan_int_def show_nat_0)

lemma scan_number_show: "delim t \<Longrightarrow> scan_number (show_int i @ t) = Some (show_int i, t)"
proof -
  assume d: "delim t"
  have "is_digit (hd (show_nat n))" for n
    using show_nat_digits [of n] by (cases "show_nat n") auto
  moreover have "\<not> is_digit (CHR ''-'')" by (simp add: is_digit_def ord_def)
  ultimately have "hd (show_nat n) \<noteq> CHR ''-''" for n by metis
  with d show ?thesis
    by (auto simp: scan_number_def scan_sign_def show_int_def scan_int_show delimD)
qed

lemma parse_int64_show:
  assumes "- (2 ^ 63) \<le> i" "i < 2 ^ 63"
  shows "parse_int64 (show_int i) = Some i"
proof -
  have hd: "is_digit (hd (show_nat n))" for n
    using show_nat_digits [of n] by (cases "show_nat n") auto
  moreover have "\<not> is_digit (CHR ''-'')" by (simp add: is_digit_def ord_def)
  ultimately have "hd (show_nat n) \<noteq> CHR ''-''" for n by metis
  with assms show ?thesis
    by (auto simp: parse_int64_def show_int_def show_nat_digits show_nat_value Let_def)
qed

subsection \<open>Objects\<close>

text \<open>\<open>reads n body v\<close>: where a delimiter follows, \<open>n\<close> units of fuel read \<open>v\<close> off \<open>body\<close>.\<close>

definition reads :: "nat \<Rightarrow> bytes \<Rightarrow> json \<Rightarrow> bool" where
  "reads n body v \<longleftrightarrow> (\<forall>f t. n \<le> f \<longrightarrow> delim t \<longrightarrow> read_value f (body @ t) = Some (v, t))"

lemma skip_ws_simps [simp]:
  "skip_ws (quote # s) = quote # s" "skip_ws (CHR '':'' # s) = CHR '':'' # s"
  "skip_ws (CHR ''{'' # s) = CHR ''{'' # s" "skip_ws (CHR '','' # s) = CHR '','' # s"
  "skip_ws (CHR ''}'' # s) = CHR ''}'' # s" "skip_ws (CHR ''t'' # s) = CHR ''t'' # s"
  "skip_ws (CHR ''f'' # s) = CHR ''f'' # s" "skip_ws [] = []"
  by (simp_all add: skip_ws_def is_ws_def quote_def ord_def)

lemma quote_neq [simp]:
  "CHR ''{'' \<noteq> quote" "CHR ''t'' \<noteq> quote" "CHR ''f'' \<noteq> quote" "CHR ''}'' \<noteq> quote"
  "CHR '','' \<noteq> quote" "CHR '':'' \<noteq> quote" "quote \<noteq> CHR ''}''" "quote \<noteq> CHR ''{''"
  by (simp_all add: quote_def)

lemma reads_mono: "reads n body v \<Longrightarrow> n \<le> m \<Longrightarrow> reads m body v"
  by (auto simp: reads_def)

lemma reads_string: "valid_utf8 s \<Longrightarrow> reads (Suc 0) (write_string s) (JStr s)"
  unfolding reads_def
proof (intro allI impI)
  fix f :: nat and t assume "valid_utf8 s" "Suc 0 \<le> f"
  then show "read_value f (write_string s @ t) = Some (JStr s, t)"
    by (cases f) (simp_all add: write_string_def unquote_escape)
qed

lemma reads_bool: "reads (Suc 0) (write_bool b) (JBool b)"
  unfolding reads_def
proof (intro allI impI)
  fix f :: nat and t assume "Suc 0 \<le> f"
  then show "read_value f (write_bool b @ t) = Some (JBool b, t)"
    by (cases f) (simp_all add: write_bool_def)
qed

lemma reads_int: "reads (Suc 0) (show_int i) (JNum (show_int i))"
  unfolding reads_def
proof (intro allI impI)
  fix f :: nat and t assume f: "Suc 0 \<le> f" and t: "delim t"
  obtain c r where cr: "show_int i = c # r" by (cases "show_int i") (auto simp: show_int_def split: if_splits)
  have "is_digit c \<or> c = CHR ''-''"
    using cr show_nat_digits [of "nat i"] by (auto simp: show_int_def split: if_splits)
  then have "c \<noteq> quote" "c \<noteq> CHR ''{''" "c \<noteq> CHR ''[''" "c \<noteq> CHR ''t''" "c \<noteq> CHR ''f''" "c \<noteq> CHR ''n''"
    "\<not> is_ws c"
    by (auto simp: is_digit_def is_ws_def ord_def quote_def)
  with f cr scan_number_show [OF t, of i]
  show "read_value f (show_int i @ t) = Some (JNum (show_int i), t)"
    by (cases f) (simp_all add: skip_ws_def)
qed

text \<open>The fields of an object, written in a row.\<close>

type_synonym field = "bytes \<times> bytes \<times> json"

abbreviation field_text :: "field \<Rightarrow> bytes" where
  "field_text \<equiv> \<lambda>(k, body, v). write_field k body"

abbreviation field_value :: "field \<Rightarrow> bytes \<times> json" where
  "field_value \<equiv> \<lambda>(k, body, v). (k, v)"

definition good_fields :: "nat \<Rightarrow> field list \<Rightarrow> bool" where
  "good_fields n fs \<longleftrightarrow> (\<forall>(k, body, v) \<in> set fs. valid_utf8 k \<and> reads n body v)"

lemma good_fields_simps [simp]:
  "good_fields n []"
  "good_fields n ((k, body, v) # fs) \<longleftrightarrow> valid_utf8 k \<and> reads n body v \<and> good_fields n fs"
  by (auto simp: good_fields_def)

lemma read_fields_written:
  "good_fields n fs \<Longrightarrow> fs \<noteq> [] \<Longrightarrow> n + length fs \<le> f \<Longrightarrow>
   read_fields f (join_with CHR '','' (map field_text fs) @ ''}'' @ t) = Some (map field_value fs, t)"
proof (induction fs arbitrary: f)
  case Nil
  then show ?case by simp
next
  case (Cons x fs)
  obtain k body v where x: "x = (k, body, v)" by (cases x)
  from Cons.prems x have k: "valid_utf8 k" and b: "reads n body v" and fs: "good_fields n fs" by simp_all
  obtain f' where f: "f = Suc f'" "n + length fs \<le> f'" using Cons.prems(3) by (cases f) auto
  have body: "read_value f' (body @ s) = Some (v, s)" if "delim s" for s
    using b f(2) that by (simp add: reads_def)
  show ?case
  proof (cases "fs = []")
    case True
    with f body k show ?thesis by (simp add: x write_field_def write_string_def unquote_escape)
  next
    case False
    have "join_with CHR '','' (map field_text (x # fs)) @ ''}'' @ t =
        quote # escape k @ quote # CHR '':'' # body @ CHR '','' #
          join_with CHR '','' (map field_text fs) @ ''}'' @ t"
      using False by (simp add: x join_with_Cons write_field_def write_string_def)
    with False f body k Cons.IH [OF fs False f(2)] show ?thesis by (simp add: x unquote_escape)
  qed
qed

lemma reads_object:
  assumes "good_fields n fs" "fs \<noteq> []"
  shows "reads (Suc (n + length fs)) (write_object (map field_text fs)) (JObj (map field_value fs))"
  unfolding reads_def
proof (intro allI impI)
  fix f t assume f: "Suc (n + length fs) \<le> f"
  then obtain f' where f': "f = Suc f'" "n + length fs \<le> f'" by (cases f) auto
  obtain r where r: "join_with CHR '','' (map field_text fs) = quote # r"
    using assms(2) by (cases fs; cases "tl fs")
      (auto simp: join_with_Cons write_field_def write_string_def split: prod.splits)
  from read_fields_written [OF assms f'(2), of t] r
  show "read_value f (write_object (map field_text fs) @ t) = Some (JObj (map field_value fs), t)"
    by (simp add: f' write_object_def)
qed

text \<open>A whole payload.\<close>

lemma read_json_object:
  assumes "good_fields n fs" "fs \<noteq> []" "n + length fs \<le> 2 * length (write_object (map field_text fs))"
  shows "read_json (write_object (map field_text fs)) = Some (JObj (map field_value fs))"
proof -
  let ?s = "write_object (map field_text fs)"
  obtain r where r: "join_with CHR '','' (map field_text fs) = quote # r"
    using assms(2) by (cases fs; cases "tl fs")
      (auto simp: join_with_Cons write_field_def write_string_def split: prod.splits)
  from read_fields_written [OF assms, of "[]"] r
  have "read_value (Suc (2 * length ?s)) ?s = Some (JObj (map field_value fs), [])"
    by (simp add: write_object_def)
  then show ?thesis by (simp add: read_json_def)
qed

subsection \<open>The two records\<close>

lemma fold_names [simp]:
  "fold_name ''version'' = ''VERSION''" "fold_name ''op'' = ''OP''"
  "fold_name ''recursive'' = ''RECURSIVE''" "fold_name ''src'' = ''SRC''"
  "fold_name ''dst'' = ''DST''" "fold_name ''token'' = ''TOKEN''"
  "fold_name ''ok'' = ''OK''" "fold_name ''error'' = ''ERROR''"
  "fold_name ''code'' = ''CODE''" "fold_name ''message'' = ''MESSAGE''"
  by code_simp+

lemma names_utf8 [simp]:
  "valid_utf8 ''version''" "valid_utf8 ''op''" "valid_utf8 ''recursive''" "valid_utf8 ''src''"
  "valid_utf8 ''dst''" "valid_utf8 ''token''" "valid_utf8 ''ok''" "valid_utf8 ''error''"
  "valid_utf8 ''code''" "valid_utf8 ''message''"
  by code_simp+

text \<open>What JSON can carry unchanged: UTF-8 strings, and a version of 64 bits.\<close>

definition wire_Request :: "Request \<Rightarrow> bool" where
  "wire_Request r \<longleftrightarrow> - (2 ^ 63) \<le> Version r \<and> Version r < 2 ^ 63 \<and>
     valid_utf8 (Op r) \<and> valid_utf8 (Src r) \<and> valid_utf8 (Dst r) \<and> valid_utf8 (Token r)"

definition wire_Response :: "Response \<Rightarrow> bool" where
  "wire_Response r \<longleftrightarrow>
     (case Error r of None \<Rightarrow> True | Some d \<Rightarrow> valid_utf8 (Code d) \<and> valid_utf8 (Message d))"

definition Request_fields :: "Request \<Rightarrow> field list" where
  "Request_fields r =
     [(''version'', show_int (Version r), JNum (show_int (Version r))),
      (''op'', write_string (Op r), JStr (Op r)),
      (''recursive'', write_bool (Recursive r), JBool (Recursive r)),
      (''src'', write_string (Src r), JStr (Src r)),
      (''dst'', write_string (Dst r), JStr (Dst r))] @
     (if Token r = [] then [] else [(''token'', write_string (Token r), JStr (Token r))])"

lemma marshal_Request_fields: "marshal_Request r = write_object (map field_text (Request_fields r))"
  by (simp add: marshal_Request_def Request_fields_def)

lemma read_marshal_Request:
  assumes "wire_Request r"
  shows "read_json (marshal_Request r) = Some (JObj (map field_value (Request_fields r)))"
    and "decode_Request (JObj (map field_value (Request_fields r))) = Some r"
proof -
  have good: "good_fields (Suc 0) (Request_fields r)"
    using assms by (auto simp: wire_Request_def Request_fields_def reads_string reads_bool reads_int)
  have len: "Suc 0 + length (Request_fields r) \<le> 2 * length (write_object (map field_text (Request_fields r)))"
    by (simp add: Request_fields_def write_object_def write_field_def write_string_def)
  show "read_json (marshal_Request r) = Some (JObj (map field_value (Request_fields r)))"
    unfolding marshal_Request_fields
    by (rule read_json_object [OF good _ len]) (simp add: Request_fields_def)
  show "decode_Request (JObj (map field_value (Request_fields r))) = Some r"
    using assms by (cases r)
      (simp add: decode_Request_def Request_fields_def set_Request_def same_name_def read_int_field_def
        read_string_field_def read_bool_field_def parse_int64_show wire_Request_def zero_Request_def)
qed

definition ErrorDetail_fields :: "ErrorDetail \<Rightarrow> field list" where
  "ErrorDetail_fields d =
     [(''code'', write_string (Code d), JStr (Code d)),
      (''message'', write_string (Message d), JStr (Message d))]"

definition Response_fields :: "Response \<Rightarrow> field list" where
  "Response_fields r =
     (''ok'', write_bool (OK r), JBool (OK r)) #
     (case Error r of None \<Rightarrow> []
      | Some d \<Rightarrow> [(''error'', marshal_ErrorDetail d, JObj (map field_value (ErrorDetail_fields d)))])"

lemma marshal_Response_fields: "marshal_Response r = write_object (map field_text (Response_fields r))"
  by (simp add: marshal_Response_def Response_fields_def split: option.splits)

lemma reads_ErrorDetail:
  assumes "valid_utf8 (Code d)" "valid_utf8 (Message d)"
  shows "reads 4 (marshal_ErrorDetail d) (JObj (map field_value (ErrorDetail_fields d)))"
proof -
  have "marshal_ErrorDetail d = write_object (map field_text (ErrorDetail_fields d))"
    by (simp add: marshal_ErrorDetail_def ErrorDetail_fields_def)
  moreover have "good_fields (Suc 0) (ErrorDetail_fields d)"
    using assms by (simp add: ErrorDetail_fields_def reads_string)
  ultimately show ?thesis
    using reads_object [of "Suc 0" "ErrorDetail_fields d"]
    by (simp add: ErrorDetail_fields_def numeral_eq_Suc)
qed

lemma read_marshal_Response:
  assumes "wire_Response r"
  shows "read_json (marshal_Response r) = Some (JObj (map field_value (Response_fields r)))"
    and "decode_Response (JObj (map field_value (Response_fields r))) = Some r"
proof -
  have "reads 4 (write_bool b) (JBool b)" for b using reads_bool by (rule reads_mono) simp
  then have good: "good_fields 4 (Response_fields r)"
    using assms by (auto simp: wire_Response_def Response_fields_def reads_ErrorDetail split: option.splits)
  have len: "4 + length (Response_fields r) \<le> 2 * length (write_object (map field_text (Response_fields r)))"
    by (simp add: Response_fields_def write_object_def write_field_def write_string_def split: option.splits)
  show "read_json (marshal_Response r) = Some (JObj (map field_value (Response_fields r)))"
    unfolding marshal_Response_fields
    by (rule read_json_object [OF good _ len]) (simp add: Response_fields_def)
  show "decode_Response (JObj (map field_value (Response_fields r))) = Some r"
    by (cases r; cases "Error r")
      (simp_all add: decode_Response_def Response_fields_def set_Response_def same_name_def
        read_bool_field_def read_ErrorDetail_field_def ErrorDetail_fields_def set_ErrorDetail_def
        read_string_field_def)
qed

subsection \<open>Frames\<close>

definition frame :: "bytes \<Rightarrow> bytes" where
  "frame payload = PutUint32 (of_nat (length payload)) @ payload"

lemma Write_frame:
  "wfault wr = None \<Longrightarrow> length payload \<le> MaxPayloadSize \<Longrightarrow>
   Write wr payload = (wr\<lparr>written := written wr @ frame payload\<rparr>, None)"
  by (simp add: Write_def write_bytes_def frame_def)

text \<open>A write that reports success has written exactly one frame, whatever the writer does.\<close>

lemma write_bytes_None:
  "write_bytes wr p = (wr', None) \<Longrightarrow> written wr' = written wr @ p"
  by (auto simp: write_bytes_def split: option.splits prod.splits if_splits)

lemma Write_None:
  assumes "Write wr payload = (wr', None)"
  shows "written wr' = written wr @ frame payload" "length payload \<le> MaxPayloadSize"
  using assms by (auto simp: Write_def frame_def dest!: write_bytes_None
      split: if_splits prod.splits option.splits)

lemma Read_frame:
  assumes "length payload \<le> MaxPayloadSize"
  shows "Read decode \<lparr>arriving = frame payload @ rest, ending = e\<rparr> =
    (\<lparr>arriving = rest, ending = e\<rparr>,
     case (case read_json payload of None \<Rightarrow> None | Some j \<Rightarrow> decode j) of
       None \<Rightarrow> Inl json_error | Some v \<Rightarrow> Inr v)"
proof -
  let ?n = "of_nat (length payload) :: u32"
  have n: "unat ?n = length payload"
    using assms by (simp add: MaxPayloadSize_def unsigned_of_nat take_bit_nat_eq_self_iff)
  have "\<not> ?n > of_nat MaxPayloadSize"
    using assms n by (simp add: word_less_nat_alt MaxPayloadSize_def)
  then show ?thesis
    by (simp add: Read_def ReadWithLimit_def ReadFull_def frame_def n split: option.splits)
qed

lemma Read_Request_frame:
  assumes "wire_Request r" "length (marshal_Request r) \<le> MaxPayloadSize"
  shows "Read decode_Request \<lparr>arriving = frame (marshal_Request r) @ rest, ending = e\<rparr> =
    (\<lparr>arriving = rest, ending = e\<rparr>, Inr r)"
  by (simp add: Read_frame [OF assms(2)] read_marshal_Request [OF assms(1)])

lemma Read_Response_frame:
  assumes "wire_Response r" "length (marshal_Response r) \<le> MaxPayloadSize"
  shows "Read decode_Response \<lparr>arriving = frame (marshal_Response r) @ rest, ending = e\<rparr> =
    (\<lparr>arriving = rest, ending = e\<rparr>, Inr r)"
  by (simp add: Read_frame [OF assms(2)] read_marshal_Response [OF assms(1)])

subsection \<open>Properties\<close>

lemma ReadFull_Inr:
  "ReadFull r n = (r', Inr b) \<Longrightarrow> arriving r = b @ arriving r' \<and> length b = n \<and> ending r' = ending r"
  by (auto simp: ReadFull_def split: if_splits)

lemma ReadFull_Inl: "ReadFull r n = (r', Inl e) \<Longrightarrow> arriving r' = [] \<and> length (arriving r) < n"
  by (auto simp: ReadFull_def split: if_splits)

lemma ReadFull_taken: "ReadFull r n = (r', x) \<Longrightarrow> \<exists>c. arriving r = c @ arriving r' \<and> length c \<le> n"
  by (cases x) (auto dest!: ReadFull_Inr ReadFull_Inl)

lemma Max_u32: "unat (of_nat MaxPayloadSize :: u32) = MaxPayloadSize"
  by (simp add: MaxPayloadSize_def)

definition ex_wire_request :: Request where
  "ex_wire_request = \<lparr>Version = 2, Op = ''reflink'', Recursive = True, Src = ''a <b>'',
     Dst = [CHR 0xC3, CHR 0xA9], Token = ''s3cret''\<rparr>"

definition ex_wire_response :: Response where
  "ex_wire_response = FailureResponse CodeENOENT ''source not found''"

definition empty_writer :: writer where "empty_writer = \<lparr>written = [], wfault = None\<rparr>"

lemma written_empty: "written empty_writer = []"
  by (simp add: empty_writer_def)

lemma ex_wire_small:
  "length (marshal_Request ex_wire_request) \<le> MaxPayloadSize"
  "length (marshal_Response ex_wire_response) \<le> MaxPayloadSize"
proof -
  have "length (marshal_Request ex_wire_request) \<le> 500" by code_simp
  then show "length (marshal_Request ex_wire_request) \<le> MaxPayloadSize" by (simp add: MaxPayloadSize_def)
  have "length (marshal_Response ex_wire_response) \<le> 500" by code_simp
  then show "length (marshal_Response ex_wire_response) \<le> MaxPayloadSize" by (simp add: MaxPayloadSize_def)
qed

lemma ex_wire_ok: "wire_Request ex_wire_request" "wire_Response ex_wire_response"
  by (simp_all add: wire_Request_def wire_Response_def ex_wire_request_def ex_wire_response_def
      FailureResponse_def) code_simp+

lemma ex_wire_written:
  "Write empty_writer (marshal_Request ex_wire_request) =
     (\<lparr>written = frame (marshal_Request ex_wire_request), wfault = None\<rparr>, None)"
  "Write empty_writer (marshal_Response ex_wire_response) =
     (\<lparr>written = frame (marshal_Response ex_wire_response), wfault = None\<rparr>, None)"
  using ex_wire_small by (simp_all add: Write_frame empty_writer_def)

text \<open>A request written to a connection is read back unchanged by the other end, with what
  follows it left in place, provided its strings are UTF-8 and its version a Go integer.\<close>

theorem request_roundtrip:
  assumes "wire_Request r" "Write wr (marshal_Request r) = (wr', None)"
  shows "\<exists>f. written wr' = written wr @ f \<and>
    Read decode_Request \<lparr>arriving = f @ rest, ending = e\<rparr> = (\<lparr>arriving = rest, ending = e\<rparr>, Inr r)"
  using Write_None [OF assms(2)] Read_Request_frame [OF assms(1)] by blast

theorem request_roundtrip_witness:
  "\<exists>f. written (fst (Write empty_writer (marshal_Request ex_wire_request))) = f \<and>
    Read decode_Request \<lparr>arriving = f @ ''x'', ending = Sentinel IoEOF\<rparr> =
      (\<lparr>arriving = ''x'', ending = Sentinel IoEOF\<rparr>, Inr ex_wire_request)"
  using request_roundtrip [OF ex_wire_ok(1) ex_wire_written(1), of "''x''" "Sentinel IoEOF"]
  by (simp add: ex_wire_written written_empty)

text \<open>A response written to a connection is read back unchanged by the other end.\<close>

theorem response_roundtrip:
  assumes "wire_Response r" "Write wr (marshal_Response r) = (wr', None)"
  shows "\<exists>f. written wr' = written wr @ f \<and>
    Read decode_Response \<lparr>arriving = f @ rest, ending = e\<rparr> = (\<lparr>arriving = rest, ending = e\<rparr>, Inr r)"
  using Write_None [OF assms(2)] Read_Response_frame [OF assms(1)] by blast

theorem response_roundtrip_witness:
  "\<exists>f. written (fst (Write empty_writer (marshal_Response ex_wire_response))) = f \<and>
    Read decode_Response \<lparr>arriving = f @ ''x'', ending = Sentinel IoEOF\<rparr> =
      (\<lparr>arriving = ''x'', ending = Sentinel IoEOF\<rparr>, Inr ex_wire_response)"
  using response_roundtrip [OF ex_wire_ok(2) ex_wire_written(2), of "''x''" "Sentinel IoEOF"]
  by (simp add: ex_wire_written written_empty)



text \<open>C23: \<open>Read\<close> takes at most one frame of the largest size off the connection, and when it
  succeeds it took exactly one well-formed frame whose payload decodes to the result.\<close>

theorem Read_one_frame:
  assumes "Read decode rd = (rd', r)"
  shows "(\<exists>c. arriving rd = c @ arriving rd' \<and> length c \<le> 4 + MaxPayloadSize) \<and>
    (\<forall>v. r = Inr v \<longrightarrow> (\<exists>payload j. length payload \<le> MaxPayloadSize \<and>
       arriving rd = frame payload @ arriving rd' \<and> read_json payload = Some j \<and> decode j = Some v))"
proof (cases "ReadFull rd 4")
  case (Pair rd1 x)
  show ?thesis
  proof (cases x)
    case (Inl e)
    with Pair assms have "rd' = rd1" "r = Inl e" by (auto simp: Read_def ReadWithLimit_def)
    with ReadFull_taken [OF Pair] show ?thesis by fastforce
  next
    case (Inr header)
    note h = ReadFull_Inr [OF Pair [unfolded Inr]]
    show ?thesis
    proof (cases "Uint32 header > of_nat MaxPayloadSize")
      case True
      with Pair Inr assms have "rd' = rd1" "\<exists>e. r = Inl e" by (auto simp: Read_def ReadWithLimit_def)
      with h show ?thesis by auto
    next
      case False
      then have small: "unat (Uint32 header) \<le> MaxPayloadSize"
        using Max_u32 by (simp add: word_le_nat_alt not_less)
      obtain rd2 y where rf: "ReadFull rd1 (unat (Uint32 header)) = (rd2, y)" by fastforce
      have rd': "rd' = rd2"
        using assms Pair Inr False rf
        by (auto simp: Read_def ReadWithLimit_def split: sum.splits option.splits)
      obtain c where c: "arriving rd1 = c @ arriving rd2" "length c \<le> unat (Uint32 header)"
        using ReadFull_taken [OF rf] by blast
      have "\<exists>c. arriving rd = c @ arriving rd' \<and> length c \<le> 4 + MaxPayloadSize"
        using h c small rd' by (intro exI [of _ "header @ c"]) simp
      moreover have "\<exists>payload j. length payload \<le> MaxPayloadSize \<and>
         arriving rd = frame payload @ arriving rd' \<and> read_json payload = Some j \<and> decode j = Some v"
        if "r = Inr v" for v
      proof -
        from assms Pair Inr False rf that obtain payload j where
            y: "y = Inr payload" "read_json payload = Some j" "decode j = Some v"
          by (auto simp: Read_def ReadWithLimit_def split: sum.splits option.splits)
        note p = ReadFull_Inr [OF rf [unfolded y(1)]]
        have "PutUint32 (of_nat (length payload)) = header"
          using p h PutUint32_Uint32 [of header] by simp
        then show ?thesis using p h y rd' small by (auto simp: frame_def)
      qed
      ultimately show ?thesis by blast
    qed
  qed
qed

theorem Read_one_frame_witness:
  "\<exists>payload j. length payload \<le> MaxPayloadSize \<and>
     frame (marshal_Request ex_wire_request) @ ''x'' = frame payload @ ''x'' \<and>
     read_json payload = Some j \<and> decode_Request j = Some ex_wire_request"
  using Read_one_frame [OF Read_Request_frame [OF ex_wire_ok(1) ex_wire_small(1), of "''x''" "Sentinel IoEOF"]]
  by auto

end
