(* ===== verification/Server.thy ===== *)
theory Server
  imports Wire
begin

section \<open>The daemon's connection loop (internal/server)\<close>

text \<open>
  \<open>server.go\<close>: one request frame in, one response frame out, for every accepted connection.  A
  connection is its reader, its writer, the deadlines set on it and whether it is closed; the
  handler acts on a state \<open>'s\<close> (the host file system, for the daemon); \<open>None\<close> is a handler that
  does not return.  What is logged is
  kept.  Deadlines are the timeouts they were set with, in nanoseconds; errors of setting one
  are ignored, as in the code.
\<close>

datatype addr = VsockAddr u32 u32 | OtherAddr string

record PeerInfo =
  CID :: u32

record conn =
  rd :: reader
  wr :: writer
  read_deadline :: "int option"
  write_deadline :: "int option"
  closed :: bool
  RemoteAddr :: addr

datatype log_entry =
    ReadFailed PeerInfo go_error
  | WriteFailed PeerInfo go_error

type_synonym 's handler = "'s \<Rightarrow> Request \<Rightarrow> PeerInfo \<Rightarrow> ('s \<times> Response) option"

record 's Server =
  Listener :: bool
  Handler :: "'s handler option"
  ReadTimeout :: int
  WriteTimeout :: int

definition peerFromAddr :: "addr \<Rightarrow> PeerInfo" where
  "peerFromAddr a = (case a of VsockAddr cid port \<Rightarrow> \<lparr>CID = cid\<rparr> | OtherAddr t \<Rightarrow> \<lparr>CID = 0\<rparr>)"

definition isExpectedShutdownAcceptError :: "go_error \<Rightarrow> bool" where
  "isExpectedShutdownAcceptError err =
     (if errors_is (\<lambda>e. e = Sentinel NetErrClosed) err then True
      else (case as_op_error err of
              None \<Rightarrow> False
            | Some (oper, e) \<Rightarrow>
                oper = ''accept'' \<and>
                (case e of None \<Rightarrow> False
                 | Some e' \<Rightarrow> contains (error_msg e') ''use of closed network connection'')))"

definition writeResponse :: "'s Server \<Rightarrow> conn \<Rightarrow> Response \<Rightarrow> conn \<times> go_error option" where
  "writeResponse s c resp =
     (let c1 = (if WriteTimeout s > 0 then c\<lparr>write_deadline := Some (WriteTimeout s)\<rparr> else c);
          (w, err) = Write (wr c1) (marshal_Response resp);
          c2 = c1\<lparr>wr := w\<rparr>
      in (if WriteTimeout s > 0 then c2\<lparr>write_deadline := None\<rparr> else c2, err))"

definition handleConn ::
  "'s Server \<Rightarrow> 's handler \<Rightarrow> 's \<Rightarrow> conn \<Rightarrow> ('s \<times> conn \<times> log_entry list) option" where
  "handleConn s handler st c =
     (let peer = peerFromAddr (RemoteAddr c);
          c1 = (if ReadTimeout s > 0 then c\<lparr>read_deadline := Some (ReadTimeout s)\<rparr> else c)
      in case Read decode_Request (rd c1) of
           (r, Inl err) \<Rightarrow>
             let (c2, werr) = writeResponse s (c1\<lparr>rd := r\<rparr>)
                   (ResponseFromError (Some (WrapError CodeEINVAL ''invalid request'' err)))
             in Some (st, c2\<lparr>closed := True\<rparr>, [ReadFailed peer err])
         | (r, Inr req) \<Rightarrow>
             let c2 = c1\<lparr>rd := r, read_deadline := None\<rparr>
             in (case handler st req peer of
                   None \<Rightarrow> None
                 | Some (st1, resp) \<Rightarrow>
                     let (c3, werr) = writeResponse s c2 resp
                     in Some (st1, c3\<lparr>closed := True\<rparr>,
                          case werr of None \<Rightarrow> [] | Some err \<Rightarrow> [WriteFailed peer err])))"

text \<open>
  What \<open>Accept\<close> returns, call after call; a failed one comes with whether the context was done
  by then.  Accepted connections are handed to \<open>handleConn\<close>, each in a goroutine of its own.
  \<open>None\<close> is a server that still waits.
\<close>

datatype accept_result = Accepted conn | AcceptFailed go_error bool

fun accept_loop :: "accept_result list \<Rightarrow> conn list \<times> go_error option option" where
  "accept_loop [] = ([], None)"
| "accept_loop (Accepted c # rs) = (case accept_loop rs of (cs, res) \<Rightarrow> (c # cs, res))"
| "accept_loop (AcceptFailed err ctxDone # rs) =
     (if ctxDone \<and> isExpectedShutdownAcceptError err then ([], Some None) else ([], Some (Some err)))"

definition Serve :: "'s Server \<Rightarrow> accept_result list \<Rightarrow> conn list \<times> go_error option option" where
  "Serve s rs =
     (if \<not> Listener s then ([], Some (Some (ErrorString ''listener is required'')))
      else if Handler s = None then ([], Some (Some (ErrorString ''handler is required'')))
      else accept_loop rs)"

subsection \<open>One connection\<close>

definition fresh_conn :: "conn \<Rightarrow> bool" where
  "fresh_conn c \<longleftrightarrow> wfault (wr c) = None \<and> write_deadline c = None \<and> \<not> closed c"

lemma writeResponse_ok:
  assumes "wfault (wr c) = None" "length (marshal_Response resp) \<le> MaxPayloadSize"
  shows "wr (fst (writeResponse s c resp)) =
      (wr c)\<lparr>written := written (wr c) @ frame (marshal_Response resp)\<rparr>"
    and "snd (writeResponse s c resp) = None"
    and "rd (fst (writeResponse s c resp)) = rd c"
  using assms by (simp_all add: writeResponse_def Write_frame)

text \<open>A well-formed request reaches the handler once, and its response is the only frame written.\<close>

lemma handleConn_ok:
  assumes "Read decode_Request (rd c) = (r, Inr req)"
    and "handler st req (peerFromAddr (RemoteAddr c)) = Some (st', resp)"
    and "wfault (wr c) = None" "length (marshal_Response resp) \<le> MaxPayloadSize"
    and "handleConn s handler st c = Some (st1, c', logs)"
  shows "st1 = st'" "written (wr c') = written (wr c) @ frame (marshal_Response resp)"
    "closed c'" "read_deadline c' = None" "logs = []"
  using assms by (auto simp: handleConn_def Let_def writeResponse_def Write_frame split: if_splits)

lemma invalid_request_length:
  "length (marshal_Response (ResponseFromError (Some (WrapError CodeEINVAL ''invalid request'' err))))
    \<le> MaxPayloadSize"
proof -
  have "marshal_Response (ResponseFromError (Some (WrapError CodeEINVAL ''invalid request'' err))) =
      marshal_Response (FailureResponse CodeEINVAL ''invalid request'')"
    by (simp add: ResponseFromError_def)
  moreover have "length (marshal_Response (FailureResponse CodeEINVAL ''invalid request'')) \<le> 1000"
    by code_simp
  ultimately show ?thesis by (simp add: MaxPayloadSize_def)
qed

lemma handleConn_returns:
  assumes "Read decode_Request (rd c) = (r, Inr req)"
    and "handler st req (peerFromAddr (RemoteAddr c)) = Some (st', resp)"
  shows "\<exists>c' logs. handleConn s handler st c = Some (st', c', logs)"
  using assms
  by (cases "ReadTimeout s > 0") (simp_all add: handleConn_def Let_def split: prod.split)

text \<open>A frame that is not a request never reaches the handler.\<close>

lemma handleConn_invalid:
  assumes "Read decode_Request (rd c) = (r, Inl err)" "wfault (wr c) = None"
    and "handleConn s handler st c = Some (st1, c', logs)"
  shows "st1 = st" "closed c'" "logs = [ReadFailed (peerFromAddr (RemoteAddr c)) err]"
    "written (wr c') =
       written (wr c) @ frame (marshal_Response (FailureResponse CodeEINVAL ''invalid request''))"
  using assms invalid_request_length [of err]
  by (auto simp: handleConn_def Let_def writeResponse_def Write_frame ResponseFromError_def
      split: if_splits)

subsection \<open>Properties\<close>


definition ex_server :: "nat Server" where
  "ex_server = \<lparr>Listener = True, Handler = Some (\<lambda>n req p. Some (Suc n, SuccessResponse)),
     ReadTimeout = 5, WriteTimeout = 5\<rparr>"

definition ex_conn :: "bytes \<Rightarrow> conn" where
  "ex_conn bs = \<lparr>rd = \<lparr>arriving = bs, ending = Sentinel IoEOF\<rparr>, wr = empty_writer,
     read_deadline = None, write_deadline = None, closed = False, RemoteAddr = VsockAddr 3 4\<rparr>"

lemma success_small: "length (marshal_Response SuccessResponse) \<le> MaxPayloadSize"
proof -
  have "length (marshal_Response SuccessResponse) \<le> 500" by code_simp
  then show ?thesis by (simp add: MaxPayloadSize_def)
qed


end
