(* ===== verification/Auth.thy ===== *)
theory Auth
  imports Go_Strings Go_Error
begin

section \<open>Token maps (internal/auth)\<close>

text \<open>
  \<open>tokens.go\<close>: the table from bearer tokens to host identities.  A \<open>*TokenMap\<close> is an option
  (\<open>None\<close> for the nil map), its table a map; the loop over the entries carries the index for
  the error messages.
\<close>

record Identity =
  idName :: string
  UID :: u32
  GID :: u32
  Groups :: "u32 list"

record Entry =
  entName :: string
  entToken :: string
  entUID :: "u32 option"
  entGID :: "u32 option"
  entGroups :: "u32 list"

type_synonym TokenMap = "string \<rightharpoonup> Identity"

text \<open>\<open>seen\<close> is the set of groups already kept.\<close>

fun normalizeGroups_loop :: "u32 \<Rightarrow> u32 set \<Rightarrow> u32 list \<Rightarrow> u32 list" where
  "normalizeGroups_loop primaryGID seen [] = []"
| "normalizeGroups_loop primaryGID seen (grp # grps) =
     (if grp = primaryGID then normalizeGroups_loop primaryGID seen grps
      else if grp \<in> seen then normalizeGroups_loop primaryGID seen grps
      else grp # normalizeGroups_loop primaryGID (insert grp seen) grps)"

definition normalizeGroups :: "u32 list \<Rightarrow> u32 \<Rightarrow> u32 list" where
  "normalizeGroups groups primaryGID =
     (if groups = [] then [] else normalizeGroups_loop primaryGID {} groups)"

definition entry_error :: "string \<Rightarrow> nat \<Rightarrow> string \<Rightarrow> go_error" where
  "entry_error source index field =
     ErrorString (''parse '' @ source @ '': tokens['' @ show_nat index @ ''].'' @ field @ '' is required'')"

definition duplicate_error :: "string \<Rightarrow> nat \<Rightarrow> go_error" where
  "duplicate_error source index =
     ErrorString (''parse '' @ source @ '': duplicate token at tokens['' @ show_nat index @ '']'')"

fun token_entries_loop :: "string \<Rightarrow> nat \<Rightarrow> TokenMap \<Rightarrow> Entry list \<Rightarrow> go_error + TokenMap" where
  "token_entries_loop source index identities [] = Inr identities"
| "token_entries_loop source index identities (entry # entries) =
     (let token = TrimSpace (entToken entry) in
      if token = [] then Inl (entry_error source index ''token'')
      else (case entUID entry of
        None \<Rightarrow> Inl (entry_error source index ''uid'')
      | Some uid \<Rightarrow> (case entGID entry of
          None \<Rightarrow> Inl (entry_error source index ''gid'')
        | Some gid \<Rightarrow>
            if identities token \<noteq> None then Inl (duplicate_error source index)
            else token_entries_loop source (Suc index)
              (identities(token \<mapsto> \<lparr>idName = TrimSpace (entName entry), UID = uid, GID = gid,
                 Groups = normalizeGroups (entGroups entry) gid\<rparr>)) entries)))"

definition NewTokenMapFromEntries :: "string \<Rightarrow> Entry list \<Rightarrow> go_error + TokenMap option" where
  "NewTokenMapFromEntries source entries =
     (if entries = [] then Inr None
      else let source = (if TrimSpace source = [] then ''token map'' else source) in
        case token_entries_loop source 0 Map.empty entries of
          Inl e \<Rightarrow> Inl e
        | Inr m \<Rightarrow> Inr (Some m))"

definition NewTokenMap :: "(string \<times> Identity) list \<Rightarrow> TokenMap" where
  "NewTokenMap entries =
     map_of (map (\<lambda>(token, identity).
       (token, identity\<lparr>Groups := normalizeGroups (Groups identity) (GID identity)\<rparr>)) entries)"

definition Resolve :: "TokenMap option \<Rightarrow> string \<Rightarrow> Identity option" where
  "Resolve m token = (case m of None \<Rightarrow> None | Some identities \<Rightarrow> identities token)"

subsection \<open>Group lists\<close>

text \<open>The groups kept are the input's without the primary group, each once, in first-seen order.\<close>

lemma normalizeGroups_loop_set:
  "set (normalizeGroups_loop g seen gs) = set gs - insert g seen"
  by (induction gs arbitrary: seen) auto

lemma normalizeGroups_loop_distinct: "distinct (normalizeGroups_loop g seen gs)"
  by (induction gs arbitrary: seen) (auto simp: normalizeGroups_loop_set)

lemma normalizeGroups_loop_subseq: "subseq (normalizeGroups_loop g seen gs) gs"
  by (induction gs arbitrary: seen) auto

lemma normalizeGroups_loop_id:
  "distinct gs \<Longrightarrow> set gs \<inter> insert g seen = {} \<Longrightarrow> normalizeGroups_loop g seen gs = gs"
  by (induction gs arbitrary: seen) auto

lemma normalizeGroups_set [simp]: "set (normalizeGroups gs g) = set gs - {g}"
  by (simp add: normalizeGroups_def normalizeGroups_loop_set)

lemma normalizeGroups_distinct [simp]: "distinct (normalizeGroups gs g)"
  by (simp add: normalizeGroups_def normalizeGroups_loop_distinct)

lemma normalizeGroups_id: "distinct gs \<Longrightarrow> g \<notin> set gs \<Longrightarrow> normalizeGroups gs g = gs"
  by (simp add: normalizeGroups_def normalizeGroups_loop_id)

lemma normalizeGroups_idem [simp]: "normalizeGroups (normalizeGroups gs g) g = normalizeGroups gs g"
  by (simp add: normalizeGroups_id)

subsection \<open>The table built from the entries\<close>

definition valid_entry :: "Entry \<Rightarrow> bool" where
  "valid_entry e \<longleftrightarrow> TrimSpace (entToken e) \<noteq> [] \<and> entUID e \<noteq> None \<and> entGID e \<noteq> None"

definition entry_identity :: "Entry \<Rightarrow> Identity" where
  "entry_identity e =
     \<lparr>idName = TrimSpace (entName e), UID = the (entUID e), GID = the (entGID e),
      Groups = normalizeGroups (entGroups e) (the (entGID e))\<rparr>"

definition entry_key :: "Entry \<Rightarrow> string" where
  "entry_key e = TrimSpace (entToken e)"

lemma token_entries_loop_Inr:
  "token_entries_loop src i m es = Inr m' \<longleftrightarrow>
     list_all valid_entry es \<and> distinct (map entry_key es) \<and>
     (\<forall>e \<in> set es. m (entry_key e) = None) \<and>
     m' = m ++ map_of (map (\<lambda>e. (entry_key e, entry_identity e)) es)"
proof (induction es arbitrary: i m)
  case Nil
  then show ?case by auto
next
  case (Cons e es)
  show ?case
  proof (cases "valid_entry e \<and> m (entry_key e) = None")
    case True
    let ?m = "m(entry_key e \<mapsto> entry_identity e)"
    let ?t = "map_of (map (\<lambda>e. (entry_key e, entry_identity e)) es)"
    have step: "token_entries_loop src i m (e # es) = token_entries_loop src (Suc i) ?m es"
      using True by (auto simp: valid_entry_def entry_key_def entry_identity_def Let_def)
    have free: "(\<forall>x \<in> set es. ?m (entry_key x) = None) \<longleftrightarrow>
        entry_key e \<notin> entry_key ` set es \<and> (\<forall>x \<in> set es. m (entry_key x) = None)"
      by (simp add: fun_upd_def image_iff) (metis option.distinct(1))
    have upd: "?m ++ ?t = m ++ ?t(entry_key e \<mapsto> entry_identity e)"
      if "entry_key e \<notin> entry_key ` set es"
      using that by (simp add: map_add_upd_left dom_map_of_conv_image_fst image_image)
    have "token_entries_loop src i m (e # es) = Inr m' \<longleftrightarrow>
        list_all valid_entry es \<and> distinct (map entry_key es) \<and>
        entry_key e \<notin> entry_key ` set es \<and> (\<forall>x \<in> set es. m (entry_key x) = None) \<and>
        m' = ?m ++ ?t"
      by (simp only: step Cons.IH free) blast
    also have "\<dots> \<longleftrightarrow> list_all valid_entry es \<and> distinct (map entry_key es) \<and>
        entry_key e \<notin> entry_key ` set es \<and> (\<forall>x \<in> set es. m (entry_key x) = None) \<and>
        m' = m ++ ?t(entry_key e \<mapsto> entry_identity e)"
      using upd by auto
    finally show ?thesis
      using True by (simp del: token_entries_loop.simps add: fun_upd_def) blast
  next
    case False
    then show ?thesis
      by (auto simp: valid_entry_def entry_key_def Let_def split: option.splits)
  qed
qed

lemma NewTokenMapFromEntries_Inr:
  "NewTokenMapFromEntries src es = Inr r \<longleftrightarrow>
     (if es = [] then r = None
      else list_all valid_entry es \<and> distinct (map entry_key es) \<and>
        r = Some (map_of (map (\<lambda>e. (entry_key e, entry_identity e)) es)))"
proof (cases "es = []")
  case True
  then show ?thesis by (auto simp: NewTokenMapFromEntries_def)
next
  case False
  define src' where "src' = (if TrimSpace src = [] then ''token map'' else src)"
  have "NewTokenMapFromEntries src es = Inr r \<longleftrightarrow>
      (\<exists>m. token_entries_loop src' 0 Map.empty es = Inr m \<and> r = Some m)"
    using False
    by (cases "token_entries_loop src' 0 Map.empty es")
      (auto simp: NewTokenMapFromEntries_def src'_def [symmetric] Let_def)
  with False show ?thesis by (auto simp: token_entries_loop_Inr)
qed

subsection \<open>Properties\<close>

text \<open>The groups of an identity are the configured ones without the primary group, each
  once, in the order of their first mention.\<close>

theorem normalizeGroups_spec:
  "set (normalizeGroups gs g) = set gs - {g} \<and> distinct (normalizeGroups gs g) \<and>
   subseq (normalizeGroups gs g) gs"
  by (simp add: normalizeGroups_loop_subseq normalizeGroups_def normalizeGroups_loop_set
      normalizeGroups_loop_distinct)

text \<open>C21: The token table accepts exactly the entry lists where every entry has a token, a uid
  and a gid and no two trimmed tokens are equal, and then resolves a token exactly to the
  identity of the entry that configured it; an empty list configures no table.\<close>

theorem token_table_spec:
  "((\<exists>r. NewTokenMapFromEntries src es = Inr r) \<longleftrightarrow>
      list_all valid_entry es \<and> distinct (map entry_key es)) \<and>
   (NewTokenMapFromEntries src es = Inr None \<longleftrightarrow> es = []) \<and>
   (NewTokenMapFromEntries src es = Inr r \<longrightarrow>
      (Resolve r t = Some i \<longleftrightarrow> (\<exists>e. e \<in> set es \<and> entry_key e = t \<and> entry_identity e = i)))"
proof (intro conjI)
  show "(\<exists>r. NewTokenMapFromEntries src es = Inr r) \<longleftrightarrow>
      list_all valid_entry es \<and> distinct (map entry_key es)"
    by (cases "es = []") (simp_all add: NewTokenMapFromEntries_Inr)
  show "NewTokenMapFromEntries src es = Inr None \<longleftrightarrow> es = []"
    by (simp add: NewTokenMapFromEntries_Inr)
  have "map_of (map (\<lambda>e. (entry_key e, entry_identity e)) es) t = Some i \<longleftrightarrow>
      (\<exists>e. e \<in> set es \<and> entry_key e = t \<and> entry_identity e = i)"
    if "distinct (map entry_key es)"
    using that by (subst map_of_eq_Some_iff) (auto simp: comp_def)
  then show "NewTokenMapFromEntries src es = Inr r \<longrightarrow>
      (Resolve r t = Some i \<longleftrightarrow> (\<exists>e. e \<in> set es \<and> entry_key e = t \<and> entry_identity e = i))"
    by (auto simp: NewTokenMapFromEntries_Inr Resolve_def split: if_splits)
qed

definition ex_entry :: Entry where
  "ex_entry = \<lparr>entName = '' ann'', entToken = ''tok '', entUID = Some 7, entGID = Some 8,
     entGroups = [8, 9, 9]\<rparr>"

definition ex_identity :: Identity where
  "ex_identity = \<lparr>idName = ''ann'', UID = 7, GID = 8, Groups = [9]\<rparr>"

lemma ex_entry_identity:
  "valid_entry ex_entry" "entry_key ex_entry = ''tok''" "entry_identity ex_entry = ex_identity"
  by code_simp+

theorem token_table_witness:
  "\<exists>r. NewTokenMapFromEntries [] [ex_entry] = Inr r \<and> Resolve r ''tok'' = Some ex_identity"
proof -
  note spec = token_table_spec [of "[]" "[ex_entry]"]
  obtain r where "NewTokenMapFromEntries [] [ex_entry] = Inr r"
    using spec [THEN conjunct1] ex_entry_identity by auto
  then show ?thesis
    using spec [of r "''tok''" ex_identity] ex_entry_identity by auto
qed

end
