(* ===== verification/Config.thy ===== *)
theory Config
  imports Auth Go_Numbers Reflink
begin

section \<open>Configuration (internal/config and internal/logutil)\<close>

text \<open>
  \<open>config.go\<close>: the guest's configuration (defaults, then the TOML file or, when there is none,
  the legacy env file, then the environment) and the daemon's.  The TOML decoder is third-party:
  the parameters \<open>tomlCLI\<close> and \<open>tomlDaemon\<close>.  \<open>dirs\<close> is the result of \<open>os.UserConfigDir\<close>,
  \<open>env\<close> the process environment; files are read from the file system of \<open>File_System\<close>.
  Durations are nanoseconds.
\<close>

record CLI =
  GuestMountRoot :: string
  CLIHostCID :: u32
  VsockPort :: u32
  CLITimeout :: int
  AuthToken :: string

record Daemon =
  ShareRoot :: string
  DaemonVsockPort :: u32
  DaemonReadTimeout :: int
  DaemonWriteTimeout :: int
  LogLevel :: string
  AllowV1Fallback :: bool
  Tokens :: "Entry list"

record cliFile =
  cfVersion :: int
  cfMountRoot :: string
  cfHostCID :: "u32 option"
  cfPort :: "u32 option"
  cfTimeout :: string
  cfToken :: string

record daemonFile =
  dfVersion :: int
  dfShareRoot :: string
  dfPort :: "u32 option"
  dfReadTimeout :: string
  dfWriteTimeout :: string
  dfLogLevel :: string
  dfAllowV1Fallback :: bool
  dfTokens :: "Entry list"

definition defaultMountRoot :: string where "defaultMountRoot = ''/shared''"
definition defaultShareRoot :: string where "defaultShareRoot = ''/srv/labshare''"
definition defaultDaemonConfigPath :: string where
  "defaultDaemonConfigPath = ''/etc/vreflinkd/config.toml''"
definition defaultHostCID :: u32 where "defaultHostCID = 2"
definition defaultPort :: u32 where "defaultPort = 19090"
definition defaultTimeout :: int where "defaultTimeout = 5 * 1000000000"
definition defaultLogLevel :: string where "defaultLogLevel = ''info''"
definition configVersion1 :: int where "configVersion1 = 1"

definition defaultCLIConfig :: CLI where
  "defaultCLIConfig = \<lparr>GuestMountRoot = defaultMountRoot, CLIHostCID = defaultHostCID,
     VsockPort = defaultPort, CLITimeout = defaultTimeout, AuthToken = []\<rparr>"

definition defaultDaemonConfig :: Daemon where
  "defaultDaemonConfig = \<lparr>ShareRoot = defaultShareRoot, DaemonVsockPort = defaultPort,
     DaemonReadTimeout = defaultTimeout, DaemonWriteTimeout = defaultTimeout,
     LogLevel = defaultLogLevel, AllowV1Fallback = False, Tokens = []\<rparr>"

definition cliConfigPath :: "go_error + string \<Rightarrow> go_error + string" where
  "cliConfigPath dirs =
     (case dirs of
        Inl err \<Rightarrow> Inl (WrapErr (''resolve user config directory: '' @ error_msg err) [err])
      | Inr dir \<Rightarrow> Inr (Join [dir, ''vreflink'', ''config.toml'']))"

definition cliLegacyConfigPath :: "go_error + string \<Rightarrow> go_error + string" where
  "cliLegacyConfigPath dirs =
     (case dirs of
        Inl err \<Rightarrow> Inl (WrapErr (''resolve user config directory: '' @ error_msg err) [err])
      | Inr dir \<Rightarrow> Inr (Join [dir, ''vreflink'', ''env'']))"

subsection \<open>The environment\<close>

type_synonym environment = "string \<Rightarrow> string option"

definition stringLookupEnv :: "environment \<Rightarrow> string \<Rightarrow> string \<Rightarrow> string" where
  "stringLookupEnv env key fallback =
     (case env key of None \<Rightarrow> fallback | Some value \<Rightarrow> if value = [] then fallback else value)"

definition uint32LookupEnv :: "environment \<Rightarrow> string \<Rightarrow> u32 \<Rightarrow> u32" where
  "uint32LookupEnv env key fallback =
     (case env key of
        None \<Rightarrow> fallback
      | Some value \<Rightarrow>
          if value = [] then fallback
          else (case ParseUint32 value of Inl err \<Rightarrow> fallback | Inr parsed \<Rightarrow> word_of_int parsed))"

definition durationLookupEnv :: "environment \<Rightarrow> string \<Rightarrow> int \<Rightarrow> int" where
  "durationLookupEnv env key fallback =
     (case env key of
        None \<Rightarrow> fallback
      | Some value \<Rightarrow>
          if value = [] then fallback
          else (case ParseDuration value of Inl err \<Rightarrow> fallback | Inr parsed \<Rightarrow> parsed))"

subsection \<open>The legacy env file\<close>

definition envLineError :: go_error where "envLineError = ErrorString ''expected KEY=value''"

text \<open>\<open>None\<close> is a line without an entry.\<close>

definition parseEnvLine :: "string \<Rightarrow> go_error + (string \<times> string) option" where
  "parseEnvLine line =
     (let line = TrimSpace line in
      if line = [] \<or> has_prefix line ''#'' then Inr None
      else
        let line = (if has_prefix line ''export '' \<or> has_prefix line (''export'' @ [CHR 0x09])
                    then TrimSpace (drop (length ''export'') line) else line);
            name = takeWhile (\<lambda>c. c \<noteq> CHR ''='') line;
            rest = dropWhile (\<lambda>c. c \<noteq> CHR ''='') line
        in if rest = [] then Inl envLineError
           else
             let key = TrimSpace name in
             if key = [] then Inl envLineError
             else if CHR '' '' \<in> set key \<or> CHR 0x09 \<in> set key
               then Inl (ErrorString (''invalid key '' @ Quote key))
             else Inr (Some (key, TrimSpace (tl rest))))"

definition wrap_key :: "string \<Rightarrow> string \<Rightarrow> go_error \<Rightarrow> go_error" where
  "wrap_key key what err = WrapErr (key @ what @ error_msg err) [err]"

definition applyCLILegacyEnvEntry :: "CLI \<Rightarrow> string \<Rightarrow> string \<Rightarrow> go_error + CLI" where
  "applyCLILegacyEnvEntry cfg key value =
     (if key = ''VREFLINK_GUEST_MOUNT_ROOT'' then Inr (cfg\<lparr>GuestMountRoot := value\<rparr>)
      else if key = ''VREFLINK_HOST_CID'' then
        (case ParseUint32 value of
           Inl err \<Rightarrow> Inl (wrap_key key '' must be an unsigned integer: '' err)
         | Inr parsed \<Rightarrow> Inr (cfg\<lparr>CLIHostCID := word_of_int parsed\<rparr>))
      else if key = ''VREFLINK_VSOCK_PORT'' then
        (case ParseUint32 value of
           Inl err \<Rightarrow> Inl (wrap_key key '' must be an unsigned integer: '' err)
         | Inr parsed \<Rightarrow> Inr (cfg\<lparr>VsockPort := word_of_int parsed\<rparr>))
      else if key = ''VREFLINK_CLIENT_TIMEOUT'' then
        (case ParseDuration value of
           Inl err \<Rightarrow> Inl (wrap_key key '' must be a duration: '' err)
         | Inr parsed \<Rightarrow> Inr (cfg\<lparr>CLITimeout := parsed\<rparr>))
      else if key = ''VREFLINK_AUTH_TOKEN'' then Inr (cfg\<lparr>AuthToken := value\<rparr>)
      else Inr cfg)"

text \<open>
  \<open>bufio.Scanner\<close> with its default split: lines end at a newline, lose one carriage return, and
  a line that does not fit the buffer of 64 KiB ends the scan with \<open>bufio.ErrTooLong\<close>.
\<close>

definition drop_cr :: "string \<Rightarrow> string" where
  "drop_cr line = (if line \<noteq> [] \<and> last line = CHR 0x0D then butlast line else line)"

definition scan_lines :: "bytes \<Rightarrow> string list \<times> go_error option" where
  "scan_lines data =
     (let raw = split_on (CHR 0x0A) data;
          raw = (if last raw = [] then butlast raw else raw);
          fits = takeWhile (\<lambda>l. length l < 65536) raw
      in (map drop_cr fits,
          if length fits = length raw then None
          else Some (ErrorString ''bufio.Scanner: token too long'')))"

definition wrap_line :: "string \<Rightarrow> nat \<Rightarrow> go_error \<Rightarrow> go_error" where
  "wrap_line path lineNo err =
     WrapErr (''parse '' @ path @ '':'' @ show_nat lineNo @ '': '' @ error_msg err) [err]"

text \<open>The loop returns the configuration as it was left, which \<open>loadCLI\<close> discards on an error.\<close>

fun env_lines_loop :: "string \<Rightarrow> nat \<Rightarrow> CLI \<Rightarrow> string list \<Rightarrow> CLI \<times> go_error option" where
  "env_lines_loop path lineNo cfg [] = (cfg, None)"
| "env_lines_loop path lineNo cfg (line # lines) =
     (case parseEnvLine line of
        Inl err \<Rightarrow> (cfg, Some (wrap_line path lineNo err))
      | Inr None \<Rightarrow> env_lines_loop path (Suc lineNo) cfg lines
      | Inr (Some (key, value)) \<Rightarrow>
          (case applyCLILegacyEnvEntry cfg key value of
             Inl err \<Rightarrow> (cfg, Some (wrap_line path lineNo err))
           | Inr cfg \<Rightarrow> env_lines_loop path (Suc lineNo) cfg lines))"

definition loadCLILegacyEnvFile :: "fsys \<Rightarrow> string \<Rightarrow> CLI \<Rightarrow> CLI \<times> go_error option" where
  "loadCLILegacyEnvFile w path cfg =
     (case os_Open w path of
        Inl err \<Rightarrow> (cfg, Some err)
      | Inr k \<Rightarrow>
          (case node_at w k of
             None \<Rightarrow> (cfg, Some (path_error ''read'' path EBADF))
           | Some n \<Rightarrow>
               if ntype n = TDir then
                 (cfg, Some (WrapErr (''read '' @ path @ '': '' @
                    error_msg (path_error ''read'' path EISDIR)) [path_error ''read'' path EISDIR]))
               else
                 (case scan_lines (ndata n) of (lines, scanErr) \<Rightarrow>
                    (case env_lines_loop path 1 cfg lines of
                       (cfg1, Some err) \<Rightarrow> (cfg1, Some err)
                     | (cfg1, None) \<Rightarrow>
                         (case scanErr of
                            Some err \<Rightarrow>
                              (cfg1, Some (WrapErr (''read '' @ path @ '': '' @ error_msg err) [err]))
                          | None \<Rightarrow> (cfg1, None))))))"

subsection \<open>The TOML files\<close>

type_synonym 'a toml = "bytes \<Rightarrow> go_error + 'a"

definition decodeTOML :: "'a toml \<Rightarrow> string \<Rightarrow> bytes \<Rightarrow> go_error + 'a" where
  "decodeTOML toml path data =
     (case toml data of
        Inl err \<Rightarrow> Inl (WrapErr (''parse '' @ path @ '': '' @ error_msg err) [err])
      | Inr v \<Rightarrow> Inr v)"

definition version_error :: "string \<Rightarrow> int \<Rightarrow> go_error" where
  "version_error path v =
     ErrorString (''parse '' @ path @ '': unsupported version: '' @ show_int v)"

definition set_trimmed :: "string \<Rightarrow> string \<Rightarrow> string" where
  "set_trimmed value old = (if TrimSpace value \<noteq> [] then TrimSpace value else old)"

definition set_duration :: "string \<Rightarrow> string \<Rightarrow> string \<Rightarrow> int \<Rightarrow> go_error + int" where
  "set_duration path field value old =
     (if TrimSpace value \<noteq> [] then
        (case ParseDuration (TrimSpace value) of
           Inl err \<Rightarrow> Inl (WrapErr (''parse '' @ path @ '': '' @ field @ '' must be a duration: ''
             @ error_msg err) [err])
         | Inr parsed \<Rightarrow> Inr parsed)
      else Inr old)"

definition loadCLITOMLFile ::
  "cliFile toml \<Rightarrow> fsys \<Rightarrow> string \<Rightarrow> CLI \<Rightarrow> go_error + CLI" where
  "loadCLITOMLFile toml w path cfg =
     (case os_ReadFile w path of
        Inl err \<Rightarrow> Inl err
      | Inr data \<Rightarrow>
          (case decodeTOML toml path data of
             Inl err \<Rightarrow> Inl err
           | Inr file \<Rightarrow>
               if cfVersion file \<noteq> configVersion1 then Inl (version_error path (cfVersion file))
               else
                 (case set_duration path ''timeout'' (cfTimeout file) (CLITimeout cfg) of
                    Inl err \<Rightarrow> Inl err
                  | Inr timeout \<Rightarrow>
                      Inr \<lparr>GuestMountRoot = set_trimmed (cfMountRoot file) (GuestMountRoot cfg),
                           CLIHostCID = (case cfHostCID file of None \<Rightarrow> CLIHostCID cfg | Some c \<Rightarrow> c),
                           VsockPort = (case cfPort file of None \<Rightarrow> VsockPort cfg | Some p \<Rightarrow> p),
                           CLITimeout = timeout,
                           AuthToken = cfToken file\<rparr>)))"

definition loadDaemonFile ::
  "daemonFile toml \<Rightarrow> fsys \<Rightarrow> string \<Rightarrow> Daemon \<Rightarrow> go_error + Daemon" where
  "loadDaemonFile toml w path cfg =
     (case os_ReadFile w path of
        Inl err \<Rightarrow>
          Inl (WrapErr (''read daemon config '' @ path @ '': '' @ error_msg err) [err])
      | Inr data \<Rightarrow>
          (case decodeTOML toml path data of
             Inl err \<Rightarrow> Inl err
           | Inr file \<Rightarrow>
               if dfVersion file \<noteq> configVersion1 then Inl (version_error path (dfVersion file))
               else
                 (case set_duration path ''read_timeout'' (dfReadTimeout file) (DaemonReadTimeout cfg) of
                    Inl err \<Rightarrow> Inl err
                  | Inr readTimeout \<Rightarrow>
                 (case set_duration path ''write_timeout'' (dfWriteTimeout file) (DaemonWriteTimeout cfg) of
                    Inl err \<Rightarrow> Inl err
                  | Inr writeTimeout \<Rightarrow>
                      Inr \<lparr>ShareRoot = set_trimmed (dfShareRoot file) (ShareRoot cfg),
                           DaemonVsockPort =
                             (case dfPort file of None \<Rightarrow> DaemonVsockPort cfg | Some p \<Rightarrow> p),
                           DaemonReadTimeout = readTimeout,
                           DaemonWriteTimeout = writeTimeout,
                           LogLevel = set_trimmed (dfLogLevel file) (LogLevel cfg),
                           AllowV1Fallback = dfAllowV1Fallback file,
                           Tokens = dfTokens file\<rparr>))))"

subsection \<open>Loading\<close>

definition overrideFromEnv :: "environment \<Rightarrow> CLI \<Rightarrow> CLI" where
  "overrideFromEnv env cfg =
     \<lparr>GuestMountRoot = stringLookupEnv env ''VREFLINK_GUEST_MOUNT_ROOT'' (GuestMountRoot cfg),
      CLIHostCID = uint32LookupEnv env ''VREFLINK_HOST_CID'' (CLIHostCID cfg),
      VsockPort = uint32LookupEnv env ''VREFLINK_VSOCK_PORT'' (VsockPort cfg),
      CLITimeout = durationLookupEnv env ''VREFLINK_CLIENT_TIMEOUT'' (CLITimeout cfg),
      AuthToken = stringLookupEnv env ''VREFLINK_AUTH_TOKEN'' (AuthToken cfg)\<rparr>"

definition is_not_exist :: "go_error \<Rightarrow> bool" where
  "is_not_exist err = errors_is is_not_exist_target err"

definition loadCLI ::
  "cliFile toml \<Rightarrow> fsys \<Rightarrow> go_error + string \<Rightarrow> environment \<Rightarrow> go_error + CLI" where
  "loadCLI toml w dirs env =
     (let cfg = defaultCLIConfig in
      case cliConfigPath dirs of
        Inl err \<Rightarrow> Inl err
      | Inr configPath \<Rightarrow>
          (case (case loadCLITOMLFile toml w configPath cfg of
                   Inr cfg1 \<Rightarrow> Inr cfg1
                 | Inl err \<Rightarrow>
                     if \<not> is_not_exist err then Inl err
                     else (case cliLegacyConfigPath dirs of
                             Inl legacyErr \<Rightarrow> Inl legacyErr
                           | Inr legacyPath \<Rightarrow>
                               (case loadCLILegacyEnvFile w legacyPath cfg of
                                  (cfg1, None) \<Rightarrow> Inr cfg1
                                | (cfg1, Some err) \<Rightarrow>
                                    if \<not> is_not_exist err then Inl err else Inr cfg1))) of
             Inl err \<Rightarrow> Inl err
           | Inr cfg1 \<Rightarrow> Inr (overrideFromEnv env cfg1)))"

definition loadDaemon :: "daemonFile toml \<Rightarrow> fsys \<Rightarrow> string \<Rightarrow> go_error + Daemon" where
  "loadDaemon toml w path =
     loadDaemonFile toml w (if TrimSpace path = [] then defaultDaemonConfigPath else path)
       defaultDaemonConfig"

text \<open>The exported functions.\<close>

definition LoadCLI :: "cliFile toml \<Rightarrow> fsys \<Rightarrow> go_error + string \<Rightarrow> environment \<Rightarrow> go_error + CLI" where
  "LoadCLI toml w os_UserConfigDir os_LookupEnv = loadCLI toml w os_UserConfigDir os_LookupEnv"

definition DefaultCLI :: CLI where "DefaultCLI = defaultCLIConfig"

definition CLIConfigPath :: "go_error + string \<Rightarrow> go_error + string" where
  "CLIConfigPath os_UserConfigDir = cliConfigPath os_UserConfigDir"

definition LoadDaemon :: "daemonFile toml \<Rightarrow> fsys \<Rightarrow> go_error + Daemon" where
  "LoadDaemon toml w = loadDaemon toml w defaultDaemonConfigPath"

definition LoadDaemonPath :: "daemonFile toml \<Rightarrow> fsys \<Rightarrow> string \<Rightarrow> go_error + Daemon" where
  "LoadDaemonPath toml w path = loadDaemon toml w path"

definition DefaultDaemonConfigPath :: string where "DefaultDaemonConfigPath = defaultDaemonConfigPath"

definition DefaultDaemon :: Daemon where "DefaultDaemon = defaultDaemonConfig"

subsection \<open>Log levels (logutil/logger.go)\<close>

datatype level = LevelDebug | LevelInfo | LevelWarn | LevelError

text \<open>
  \<open>strings.ToLower\<close>, as far as an ASCII result goes: beside the ASCII letters, the Kelvin sign
  and the dotted capital I have an ASCII lower case.
\<close>

definition lower :: "char \<Rightarrow> char" where
  "lower c = (if 65 \<le> ord c \<and> ord c \<le> 90 then char_of (ord c + 32) else c)"

function ToLower :: "string \<Rightarrow> string" where
  "ToLower s =
     (if s = [] then []
      else if take 2 s = [CHR 0xC4, CHR 0xB0] then CHR ''i'' # ToLower (drop 2 s)
      else if take 3 s = [CHR 0xE2, CHR 0x84, CHR 0xAA] then CHR ''k'' # ToLower (drop 3 s)
      else lower (hd s) # ToLower (tl s))"
  by pat_completeness auto
termination by (relation "measure length") (auto simp: neq_Nil_conv)

declare ToLower.simps [simp del]

definition ParseLevel :: "string \<Rightarrow> level" where
  "ParseLevel level =
     (let l = ToLower level in
      if l = ''debug'' then LevelDebug
      else if l = ''warn'' \<or> l = ''warning'' then LevelWarn
      else if l = ''error'' then LevelError
      else LevelInfo)"

end
