(* ===== verification/Daemon_Runtime.thy ===== *)
theory Daemon_Runtime
  imports Service Server Config
begin

section \<open>The daemon (cmd/vreflinkd)\<close>

text \<open>
  \<open>runtime.go\<close> and \<open>main.go\<close>: the executor that decides whether and as whom a request runs,
  the worker process that runs it under another identity, and the request handler.  The state
  \<open>'s\<close> is what a request acts on; \<open>None\<close> is an execution that does not end.
\<close>

type_synonym 's requestService = "'s \<Rightarrow> Request \<Rightarrow> ('s \<times> go_error option) option"
type_synonym 's workerInvoker = "'s \<Rightarrow> Request \<Rightarrow> Identity \<Rightarrow> ('s \<times> go_error option) option"

record 's daemonExecutor =
  service :: "'s requestService"
  tokenMap :: "TokenMap option"
  worker :: "'s workerInvoker option"

definition daemonExecutor_Execute :: "'s daemonExecutor \<Rightarrow> 's requestService" where
  "daemonExecutor_Execute e w req =
     (if tokenMap e = None then
        if Version req \<noteq> Version1 then
          (case Request_Validate req of
             Some err \<Rightarrow> Some (w, Some err)
           | None \<Rightarrow> Some (w, Some (NewError CodeEINVAL ''token authentication is not configured'')))
        else service e w req
      else
        (case Request_Validate req of
           Some err \<Rightarrow> Some (w, Some err)
         | None \<Rightarrow>
             if Version req \<noteq> Version2 then
               Some (w, Some (NewError CodeEINVAL
                 ''token-authenticated requests require protocol version 2''))
             else
               (case Resolve (tokenMap e) (Token req) of
                  None \<Rightarrow> Some (w, Some (NewError CodeEPERM ''invalid authentication token''))
                | Some identity \<Rightarrow>
                    (case worker e of None \<Rightarrow> None | Some wk \<Rightarrow> wk w req identity))))"

subsection \<open>Credentials\<close>

record Credential =
  Uid :: u32
  Gid :: u32
  credGroups :: "u32 list"

definition sameGroupSet :: "u32 list \<Rightarrow> u32 list \<Rightarrow> bool" where
  "sameGroupSet left right =
     (if length left \<noteq> length right then False else sort left = sort right)"

definition credentialForIdentity :: "Identity \<Rightarrow> Identity \<Rightarrow> Credential option" where
  "credentialForIdentity identity current =
     (if UID identity = UID current \<and> GID identity = GID current \<and>
         sameGroupSet (Groups identity) (Groups current) then None
      else Some \<lparr>Uid = UID identity, Gid = GID identity, credGroups = Groups identity\<rparr>)"

text \<open>
  \<open>os.Getuid\<close>, \<open>os.Getgid\<close> and \<open>os.Getgroups\<close> return Go \<open>int\<close>s, here \<open>uid\<close>, \<open>gid\<close>, \<open>groups\<close>.
\<close>

fun current_groups :: "u32 \<Rightarrow> int list \<Rightarrow> u32 list" where
  "current_groups primaryGroup [] = []"
| "current_groups primaryGroup (grp # grps) =
     (if grp < 0 then current_groups primaryGroup grps
      else if word_of_int grp = primaryGroup then current_groups primaryGroup grps
      else word_of_int grp # current_groups primaryGroup grps)"

definition currentProcessIdentity :: "int \<Rightarrow> int \<Rightarrow> go_error + int list \<Rightarrow> go_error + Identity" where
  "currentProcessIdentity uid gid groups =
     (let primaryGroup = word_of_int gid in
      case groups of
        Inl err \<Rightarrow> Inl (WrapErr (''resolve current groups: '' @ error_msg err) [err])
      | Inr groups \<Rightarrow> Inr \<lparr>idName = [], UID = word_of_int uid, GID = primaryGroup,
          Groups = current_groups primaryGroup groups\<rparr>)"

subsection \<open>The worker process\<close>

text \<open>
  What the operating system does with a command line: the errors of the calls around it,
  and the child itself, a function of the credential it runs under, the state and its standard
  input.  The child returns the state, its standard output, the error of \<open>Wait\<close> and its
  standard error.
\<close>

record 's process =
  stdin_pipe :: "go_error option"
  stdout_pipe :: "go_error option"
  start :: "go_error option"
  stdin_writer :: writer
  stdin_close :: "go_error option"
  child :: "Credential option \<Rightarrow> 's \<Rightarrow> bytes \<Rightarrow> ('s \<times> bytes \<times> go_error option \<times> string) option"

type_synonym 's os_exec = "string list \<Rightarrow> 's process"

record commandWorker =
  executablePath :: string
  shareRoot :: string
  currentIdentity :: Identity

definition newCommandWorker :: "go_error + Identity \<Rightarrow> string \<Rightarrow> string \<Rightarrow> go_error + commandWorker" where
  "newCommandWorker ident exe root_arg =
     (case ident of
        Inl err \<Rightarrow> Inl err
      | Inr identity \<Rightarrow>
          Inr \<lparr>executablePath = exe, shareRoot = root_arg, currentIdentity = identity\<rparr>)"

definition wrap_error :: "string \<Rightarrow> go_error \<Rightarrow> string \<Rightarrow> go_error" where
  "wrap_error what err rest = WrapErr (what @ '': '' @ error_msg err @ rest) [err]"

definition worker_argv :: "commandWorker \<Rightarrow> string list" where
  "worker_argv cw = [executablePath cw, ''worker'', ''--share-root'', shareRoot cw]"

definition commandWorker_Execute :: "'s os_exec \<Rightarrow> commandWorker \<Rightarrow> 's workerInvoker" where
  "commandWorker_Execute exec cw w req identity =
     (let p = exec (worker_argv cw);
          credential = credentialForIdentity identity (currentIdentity cw)
      in case stdin_pipe p of
        Some err \<Rightarrow> Some (w, Some (wrap_error ''open worker stdin'' err []))
      | None \<Rightarrow>
      case stdout_pipe p of
        Some err \<Rightarrow> Some (w, Some (wrap_error ''open worker stdout'' err []))
      | None \<Rightarrow>
      case start p of
        Some err \<Rightarrow> Some (w, Some (wrap_error ''start worker'' err []))
      | None \<Rightarrow>
        let (sw, writeErr) = Write (stdin_writer p) (marshal_Request req);
            writeErr = (if writeErr = None \<and> stdin_close p \<noteq> None then stdin_close p else writeErr)
        in case child p credential w (written sw) of
             None \<Rightarrow> None
           | Some (w1, stdout, waitErr, stderr) \<Rightarrow>
               (case writeErr of
                  Some we \<Rightarrow>
                    Some (w1, Some (case waitErr of
                       Some err \<Rightarrow> wrap_error ''write worker request'' err ('' ('' @ stderr @ '')'')
                     | None \<Rightarrow> wrap_error ''write worker request'' we []))
                | None \<Rightarrow>
                    (case snd (Read decode_Response \<lparr>arriving = stdout, ending = Sentinel IoEOF\<rparr>) of
                       Inl readErr \<Rightarrow>
                         Some (w1, Some (case waitErr of
                            Some err \<Rightarrow> wrap_error ''read worker response'' err ('' ('' @ stderr @ '')'')
                          | None \<Rightarrow> wrap_error ''read worker response'' readErr []))
                     | Inr resp \<Rightarrow>
                         (case waitErr of
                            Some err \<Rightarrow>
                              Some (w1, Some (wrap_error ''worker failed'' err
                                (if stderr \<noteq> [] then '' ('' @ stderr @ '')'' else [])))
                          | None \<Rightarrow>
                              if OK resp then Some (w1, None)
                              else (case Error resp of
                                      None \<Rightarrow>
                                        Some (w1, Some (ErrorString ''worker returned an unknown error''))
                                    | Some d \<Rightarrow>
                                        Some (w1, Some (CodedError (Code d) (Message d) None)))))))"

text \<open>
  The worker's side, on its standard input and output; \<open>newService\<close> is \<open>newWorkerService\<close>, which
  is \<open>service.New\<close>.
\<close>

definition runWorker ::
  "(string \<Rightarrow> 's requestService) \<Rightarrow> string \<Rightarrow> 's \<Rightarrow> reader \<Rightarrow> writer \<Rightarrow>
    ('s \<times> writer \<times> go_error option) option" where
  "runWorker newService root_arg w inp out =
     (case Read decode_Request inp of
        (inp1, Inl err) \<Rightarrow>
          (case Write out (marshal_Response
               (ResponseFromError (Some (WrapError CodeEINVAL ''invalid request'' err)))) of
             (out1, werr) \<Rightarrow> Some (w, out1, werr))
      | (inp1, Inr req) \<Rightarrow>
          (case newService root_arg w req of
             None \<Rightarrow> None
           | Some (w1, r) \<Rightarrow>
               (case Write out (marshal_Response (ResponseFromError r)) of
                  (out1, werr) \<Rightarrow> Some (w1, out1, werr))))"

subsection \<open>Starting up and handling a request\<close>

definition loadRuntimeTokenMap :: "Config.Daemon \<Rightarrow> go_error + TokenMap option" where
  "loadRuntimeTokenMap cfg =
     (case NewTokenMapFromEntries ''daemon config'' (Tokens cfg) of
        Inl err \<Rightarrow> Inl err
      | Inr (Some m) \<Rightarrow> Inr (Some m)
      | Inr None \<Rightarrow>
          if AllowV1Fallback cfg then Inr None
          else Inl (ErrorString ''token configuration is required unless allow_v1_fallback=true''))"

text \<open>
  \<open>exe\<close> is the result of \<open>os.Executable\<close>, \<open>ident\<close> that of \<open>currentProcessIdentity\<close>.  Without a
  token map the executor has no worker.
\<close>

definition newDaemonExecutor ::
  "(string \<Rightarrow> 's requestService) \<Rightarrow> 's os_exec \<Rightarrow> go_error + string \<Rightarrow> go_error + Identity \<Rightarrow>
    Config.Daemon \<Rightarrow> TokenMap option \<Rightarrow> go_error + 's daemonExecutor" where
  "newDaemonExecutor newService exec exe ident cfg tm =
     (let executor = \<lparr>service = newService (ShareRoot cfg), tokenMap = tm, worker = None\<rparr> in
      if tm = None then Inr executor
      else (case exe of
              Inl err \<Rightarrow> Inl (wrap_error ''resolve daemon executable'' err [])
            | Inr path \<Rightarrow>
                (case newCommandWorker ident path (ShareRoot cfg) of
                   Inl err \<Rightarrow> Inl (wrap_error ''resolve current credentials'' err [])
                 | Inr cw \<Rightarrow> Inr (executor\<lparr>worker := Some (commandWorker_Execute exec cw)\<rparr>))))"

text \<open>The handler of \<open>runDaemon\<close>, and what it logs: the code and message of the response.\<close>

definition daemon_handler :: "'s daemonExecutor \<Rightarrow> 's handler" where
  "daemon_handler e w req peer =
     (case daemonExecutor_Execute e w req of
        None \<Rightarrow> None
      | Some (w1, err) \<Rightarrow> Some (w1, ResponseFromError err))"

definition log_result :: "Response \<Rightarrow> string \<times> string" where
  "log_result resp =
     (case (OK resp, Error resp) of
        (False, Some d) \<Rightarrow> (Code d, Message d)
      | _ \<Rightarrow> (''OK'', []))"

text \<open>
  \<open>runDaemon\<close>: \<open>probe\<close> is \<open>ValidateShareRoot\<close> with the daemon's reflinker, \<open>listen\<close> the vsock
  listener's error, \<open>accepts\<close> what its \<open>Accept\<close> returns.  The result is the state after the
  probe and either the error that stopped the start, or the server, the connections it accepted
  and what \<open>Serve\<close> returned.
\<close>

definition runDaemon ::
  "(string \<Rightarrow> 's requestService) \<Rightarrow> 's os_exec \<Rightarrow> go_error + string \<Rightarrow> go_error + Identity \<Rightarrow>
    ('s \<Rightarrow> string \<Rightarrow> 's \<times> go_error option) \<Rightarrow> (u32 \<Rightarrow> go_error option) \<Rightarrow> accept_result list \<Rightarrow>
    's \<Rightarrow> Config.Daemon \<Rightarrow> 's \<times> (go_error + 's Server \<times> conn list \<times> go_error option option)" where
  "runDaemon newService exec exe ident probe listen accepts w cfg =
     (case probe w (ShareRoot cfg) of
        (w1, Some err) \<Rightarrow> (w1, Inl err)
      | (w1, None) \<Rightarrow> (w1,
          case loadRuntimeTokenMap cfg of
            Inl err \<Rightarrow> Inl err
          | Inr tm \<Rightarrow>
              (case newDaemonExecutor newService exec exe ident cfg tm of
                 Inl err \<Rightarrow> Inl err
               | Inr executor \<Rightarrow>
                   (case listen (DaemonVsockPort cfg) of
                      Some err \<Rightarrow> Inl err
                    | None \<Rightarrow>
                        let srv = \<lparr>Listener = True, Handler = Some (daemon_handler executor),
                          ReadTimeout = DaemonReadTimeout cfg, WriteTimeout = DaemonWriteTimeout cfg\<rparr>
                        in Inr (srv, Serve srv accepts)))))"

subsection \<open>Who a request runs as\<close>

lemma sameGroupSet_mset: "sameGroupSet left right \<longleftrightarrow> mset left = mset right"
proof
  assume "sameGroupSet left right"
  then have "sort left = sort right" by (simp add: sameGroupSet_def split: if_splits)
  then show "mset left = mset right" by (metis mset_sort)
next
  assume m: "mset left = mset right"
  then have "length left = length right" by (rule mset_eq_length)
  moreover have "sort left = sort right" using m by (metis properties_for_sort mset_sort sorted_sort)
  ultimately show "sameGroupSet left right" by (simp add: sameGroupSet_def)
qed

lemma current_groups_set:
  "set (current_groups g gs) = word_of_int ` {x \<in> set gs. 0 \<le> x} - {g}"
  by (induction gs) auto

text \<open>A token map admits exactly the valid version 2 requests with a known token.\<close>

lemma executor_admits:
  assumes "tokenMap e = Some m"
  shows "daemonExecutor_Execute e w req =
    (case Request_Validate req of
       Some err \<Rightarrow> Some (w, Some err)
     | None \<Rightarrow>
         if Version req = Version2 then
           (case m (Token req) of
              Some identity \<Rightarrow> (case worker e of None \<Rightarrow> None | Some wk \<Rightarrow> wk w req identity)
            | None \<Rightarrow> Some (w, Some (NewError CodeEPERM ''invalid authentication token'')))
         else Some (w, Some (NewError CodeEINVAL
                ''token-authenticated requests require protocol version 2'')))"
  using assms by (simp add: daemonExecutor_Execute_def Resolve_def split: option.splits)

subsection \<open>The worker is transparent\<close>

text \<open>
  \<open>runs_worker\<close>: the operating system starts the process, and where \<open>runWorker\<close> on its standard input
  and output succeeds, so does the child, with that output and nothing on its standard error.
\<close>

definition runs_worker :: "(string \<Rightarrow> 's requestService) \<Rightarrow> string \<Rightarrow> 's process \<Rightarrow> bool" where
  "runs_worker newService root_arg p \<longleftrightarrow>
     stdin_pipe p = None \<and> stdout_pipe p = None \<and> start p = None \<and> stdin_close p = None \<and>
     stdin_writer p = \<lparr>written = [], wfault = None\<rparr> \<and>
     (\<forall>cred w bs w1 out. runWorker newService root_arg w \<lparr>arriving = bs, ending = Sentinel IoEOF\<rparr>
          \<lparr>written = [], wfault = None\<rparr> = Some (w1, out, None) \<longrightarrow>
        child p cred w bs = Some (w1, written out, None, []))"

lemma runWorker_frame:
  assumes "wire_Request req" "length (marshal_Request req) \<le> MaxPayloadSize"
  shows "runWorker newService root_arg w \<lparr>arriving = frame (marshal_Request req), ending = e\<rparr> out =
    (case newService root_arg w req of
       None \<Rightarrow> None
     | Some (w1, r) \<Rightarrow>
         (case Write out (marshal_Response (ResponseFromError r)) of
            (out1, werr) \<Rightarrow> Some (w1, out1, werr)))"
  using Read_Request_frame [OF assms, of "[]" e] by (simp add: runWorker_def)

lemma ResponseFromError_cases:
  "r = None \<and> ResponseFromError r = SuccessResponse \<or>
   (\<exists>c m. r \<noteq> None \<and> ResponseFromError r = FailureResponse c m)"
  by (auto simp: ResponseFromError_def split: option.splits)

lemma worker_transparent:
  assumes p: "runs_worker newService (shareRoot cw) (exec (worker_argv cw))"
    and req: "wire_Request req" "length (marshal_Request req) \<le> MaxPayloadSize"
    and svc: "newService (shareRoot cw) w req = Some (w1, r)"
    and resp: "wire_Response (ResponseFromError r)"
      "length (marshal_Response (ResponseFromError r)) \<le> MaxPayloadSize"
  shows "\<exists>r'. commandWorker_Execute exec cw w req identity = Some (w1, r') \<and>
    ResponseFromError r' = ResponseFromError r"
proof -
  let ?resp = "ResponseFromError r" and ?p = "exec (worker_argv cw)"
  have child: "child ?p cred w (frame (marshal_Request req)) =
      Some (w1, frame (marshal_Response ?resp), None, [])" for cred
    using p svc resp(2) by (simp add: runs_worker_def runWorker_frame [OF req] Write_frame)
  from p have io: "stdin_pipe ?p = None" "stdout_pipe ?p = None" "start ?p = None" "stdin_close ?p = None"
      "stdin_writer ?p = \<lparr>written = [], wfault = None\<rparr>"
    by (simp_all add: runs_worker_def)
  have rd: "Read decode_Response \<lparr>arriving = frame (marshal_Response ?resp), ending = Sentinel IoEOF\<rparr> =
      (\<lparr>arriving = [], ending = Sentinel IoEOF\<rparr>, Inr ?resp)"
    using Read_Response_frame [OF resp, of "[]"] by simp
  have *: "commandWorker_Execute exec cw w req identity =
      (if OK ?resp then Some (w1, None)
       else case Error ?resp of
              None \<Rightarrow> Some (w1, Some (ErrorString ''worker returned an unknown error''))
            | Some d \<Rightarrow> Some (w1, Some (CodedError (Code d) (Message d) None)))"
    using io req(2) by (simp add: commandWorker_Execute_def Let_def Write_frame child rd)
  from ResponseFromError_cases [of r] show ?thesis
    unfolding * by (auto simp: SuccessResponse_def FailureResponse_def ResponseFromError_def AsCoded_def)
qed

subsection \<open>Properties\<close>

text \<open>C6: Nothing is done without authority.  Whenever the executor of a started daemon changes
  the state or succeeds, either the configuration allows version 1 and configures no tokens, or
  the request carries the token of a configured entry and the worker ran it as that entry's
  identity.\<close>

theorem daemon_admission:
  assumes "loadRuntimeTokenMap cfg = Inr tm"
    and "newDaemonExecutor newService exec exe ident cfg tm = Inr e"
    and "daemonExecutor_Execute e w req = Some (w', r)" "w' \<noteq> w \<or> r = None"
  shows "(AllowV1Fallback cfg \<and> Tokens cfg = [] \<and> Version req = Version1 \<and>
      newService (ShareRoot cfg) w req = Some (w', r)) \<or>
    (\<exists>ent cw. ent \<in> set (Tokens cfg) \<and> entry_key ent = Token req \<and> Version req = Version2 \<and>
       shareRoot cw = ShareRoot cfg \<and> ident = Inr (currentIdentity cw) \<and>
       commandWorker_Execute exec cw w req (entry_identity ent) = Some (w', r))"
proof (cases tm)
  case None
  with assms(1) have "AllowV1Fallback cfg" "Tokens cfg = []"
    by (auto simp: loadRuntimeTokenMap_def NewTokenMapFromEntries_Inr
        split: sum.splits option.splits if_splits)
  moreover from None assms(2) have "service e = newService (ShareRoot cfg)" "tokenMap e = None"
    by (auto simp: newDaemonExecutor_def)
  ultimately show ?thesis
    using assms(3,4) by (auto simp: daemonExecutor_Execute_def split: if_splits option.splits)
next
  case (Some m)
  with assms(1) have "NewTokenMapFromEntries ''daemon config'' (Tokens cfg) = Inr (Some m)"
    by (auto simp: loadRuntimeTokenMap_def split: sum.splits option.splits if_splits)
  then have m: "distinct (map entry_key (Tokens cfg))"
      "m = map_of (map (\<lambda>e. (entry_key e, entry_identity e)) (Tokens cfg))"
    by (simp_all add: NewTokenMapFromEntries_Inr split: if_splits)
  from Some assms(2) obtain path self where *: "ident = Inr self" "tokenMap e = Some m"
      "worker e = Some (commandWorker_Execute exec
         \<lparr>executablePath = path, shareRoot = ShareRoot cfg, currentIdentity = self\<rparr>)"
    by (auto simp: newDaemonExecutor_def newCommandWorker_def Let_def split: sum.splits)
  define cw where "cw = \<lparr>executablePath = path, shareRoot = ShareRoot cfg, currentIdentity = self\<rparr>"
  have e: "ident = Inr (currentIdentity cw)" "tokenMap e = Some m"
      "worker e = Some (commandWorker_Execute exec cw)" "shareRoot cw = ShareRoot cfg"
    using * by (simp_all add: cw_def)
  from executor_admits [OF e(2), of w req] assms(3,4) e(3) obtain i where
      "Version req = Version2" "m (Token req) = Some i"
      "commandWorker_Execute exec cw w req i = Some (w', r)"
    by (auto split: option.splits if_splits)
  moreover from this m obtain ent where
      "ent \<in> set (Tokens cfg)" "entry_key ent = Token req" "entry_identity ent = i"
    by (auto dest!: map_of_SomeD)
  ultimately show ?thesis using e by auto
qed

text \<open>A service that counts its requests, and a system that runs workers.\<close>

definition ex_service :: "string \<Rightarrow> nat requestService" where
  "ex_service share n req = Some (Suc n, if Recursive req then Some (Errno EEXIST) else None)"

definition ex_exec :: "nat os_exec" where
  "ex_exec argv = \<lparr>stdin_pipe = None, stdout_pipe = None, start = None, stdin_writer = empty_writer,
     stdin_close = None,
     child = (\<lambda>cred w bs. map_option (\<lambda>(w1, out, werr). (w1, written out, werr, []))
       (runWorker ex_service (last argv) w \<lparr>arriving = bs, ending = Sentinel IoEOF\<rparr> empty_writer))\<rparr>"

lemma ex_runs_worker: "runs_worker ex_service (shareRoot cw) (ex_exec (worker_argv cw))"
  by (simp add: runs_worker_def ex_exec_def empty_writer_def worker_argv_def)

lemma ex_exists_response:
  "ResponseFromError (Some (Errno EEXIST)) = FailureResponse CodeEEXIST ''destination already exists''"
  "wire_Response (FailureResponse CodeEEXIST ''destination already exists'')"
  "length (marshal_Response (FailureResponse CodeEEXIST ''destination already exists'')) \<le> MaxPayloadSize"
proof -
  show "ResponseFromError (Some (Errno EEXIST)) = FailureResponse CodeEEXIST ''destination already exists''"
    by code_simp
  show "wire_Response (FailureResponse CodeEEXIST ''destination already exists'')"
    by (simp add: wire_Response_def FailureResponse_def) code_simp
  have "length (marshal_Response (FailureResponse CodeEEXIST ''destination already exists'')) \<le> 500"
    by code_simp
  then show "length (marshal_Response (FailureResponse CodeEEXIST ''destination already exists''))
      \<le> MaxPayloadSize" by (simp add: MaxPayloadSize_def)
qed

definition ex_daemon :: Config.Daemon where
  "ex_daemon = defaultDaemonConfig\<lparr>Tokens := [ex_entry\<lparr>entToken := ''s3cret''\<rparr>]\<rparr>"

theorem daemon_admission_witness:
  "\<exists>tm e r. loadRuntimeTokenMap ex_daemon = Inr tm \<and>
    newDaemonExecutor ex_service ex_exec (Inr ''/bin/d'') (Inr ex_identity) ex_daemon tm = Inr e \<and>
    daemonExecutor_Execute e 4 ex_wire_request = Some (5, r) \<and>
    (\<exists>ent. ent \<in> set (Tokens ex_daemon) \<and> entry_key ent = ''s3cret'')"
proof -
  let ?ent = "ex_entry\<lparr>entToken := ''s3cret''\<rparr>"
  let ?cw = "\<lparr>executablePath = ''/bin/d'', shareRoot = ShareRoot ex_daemon, currentIdentity = ex_identity\<rparr>"
  have ent: "valid_entry ?ent" "entry_key ?ent = ''s3cret''" by code_simp+
  let ?m = "map_of [(''s3cret'', entry_identity ?ent)]"
  have 1: "loadRuntimeTokenMap ex_daemon = Inr (Some ?m)"
    using NewTokenMapFromEntries_Inr [of "''daemon config''" "[?ent]" "Some ?m"] ent
    by (simp add: loadRuntimeTokenMap_def ex_daemon_def)
  obtain e where 2: "newDaemonExecutor ex_service ex_exec (Inr ''/bin/d'') (Inr ex_identity) ex_daemon (Some ?m) = Inr e"
      "tokenMap e = Some ?m" "worker e = Some (commandWorker_Execute ex_exec ?cw)"
    by (simp add: newDaemonExecutor_def newCommandWorker_def)
  have "ex_service (shareRoot ?cw) 4 ex_wire_request = Some (5, Some (Errno EEXIST))"
    by (simp add: ex_service_def ex_wire_request_def)
  from worker_transparent [where newService = ex_service and exec = ex_exec and cw = ?cw,
      OF ex_runs_worker ex_wire_ok(1) ex_wire_small(1) this] ex_exists_response
  obtain r where r: "commandWorker_Execute ex_exec ?cw 4 ex_wire_request (entry_identity ?ent) = Some (5, r)"
    by fastforce
  have "Request_Validate ex_wire_request = None" by code_simp
  moreover have "Version ex_wire_request = Version2" "Token ex_wire_request = ''s3cret''" by code_simp+
  ultimately have 3: "daemonExecutor_Execute e 4 ex_wire_request = Some (5, r)"
    using executor_admits [OF 2(2), of 4 ex_wire_request] 2(3) r by simp
  from daemon_admission [OF 1 2(1) 3] 1 2(1) 3 \<open>Token ex_wire_request = ''s3cret''\<close>
    \<open>Version ex_wire_request = Version2\<close>
  show ?thesis by (auto simp: version_defs)
qed

text \<open>The worker process runs under the daemon's own credentials exactly when the identity
  has the daemon's user, group and the same groups in any order; otherwise under the identity's
  own.\<close>

theorem credentialForIdentity_spec:
  "credentialForIdentity i c =
     (if UID i = UID c \<and> GID i = GID c \<and> mset (Groups i) = mset (Groups c) then None
      else Some \<lparr>Uid = UID i, Gid = GID i, credGroups = Groups i\<rparr>)"
  by (simp add: credentialForIdentity_def sameGroupSet_mset)



end
