(* ===== verification/Startup.thy ===== *)
theory Startup
  imports Share_Probe Service_Properties Daemon_Runtime
begin

section \<open>Starting the daemon on a host (cmd/vreflinkd)\<close>

text \<open>
  \<open>runDaemon\<close> of \<open>Daemon_Runtime\<close> with the service of this repository: the probe of the share
  root, the executor and the worker on the host state.
\<close>

definition newWorkerService :: "nat \<Rightarrow> clone_fun \<Rightarrow> securejoin \<Rightarrow> string \<Rightarrow> fsys requestService" where
  "newWorkerService fuel clone sj share w req = Execute fuel clone sj (New share clone) w req"

definition share_probe ::
  "(nat \<Rightarrow> u32) \<Rightarrow> (nat \<Rightarrow> u32) \<Rightarrow> clone_fun \<Rightarrow> fsys \<Rightarrow> string \<Rightarrow> fsys \<times> go_error option" where
  "share_probe rnd1 rnd2 clone w root =
     ValidateShareRoot rnd1 rnd2 clone (cwd w) (Some (FileReflinker_Reflink clone)) w root"

subsection \<open>Properties\<close>

text \<open>C30: The probe of the share root leaves no trace: whether it succeeds or fails, and wherever it
  fails, every place of the host is as it was before, if no removal fails.\<close>

theorem ValidateShareRoot_no_trace:
  assumes "clone_contract clone" "wf_fs w" "\<And>p. fault w (SysRemove p) = None"
    and "share_probe rnd1 rnd2 clone w root = (w', r)"
  shows "same_env w w' \<and> node_at w' q = node_at w q"
proof -
  have rl: "reflinker (FileReflinker_Reflink clone)"
    using FileReflinker_exclusive [OF assms(1)] by (simp add: exclusive_reflinker_def)
  note n = reflinker.probe_no_trace [OF rl assms(2,3) assms(4) [unfolded share_probe_def]]
  from n(1) n(2) [of q] show ?thesis by simp
qed

text \<open>A daemon never starts on a share root whose file system does not clone: if no clone
  succeeds, \<open>runDaemon\<close> returns an error.\<close>

theorem no_clone_no_daemon:
  assumes "\<And>w d s. snd (clone w d s) \<noteq> None"
  shows "\<exists>err. snd (runDaemon newService exec exe ident (share_probe rnd1 rnd2 clone) listen accepts w cfg) = Inl err"
proof -
  have rl: "snd (FileReflinker_Reflink clone w s d m) \<noteq> None" for w s d m
  proof -
    show ?thesis
    proof (cases "\<exists>src w1 dst. os_Open w s = Inr src \<and> os_CreateExcl w d (Perm m) = (w1, Inr dst)")
      case False
      then show ?thesis
        by (auto simp: FileReflinker_Reflink_def split: sum.splits prod.splits)
    next
      case True
      then obtain src w1 dst where o: "os_Open w s = Inr src" "os_CreateExcl w d (Perm m) = (w1, Inr dst)"
        by blast
      obtain w2 e where "clone w1 dst src = (w2, Some e)"
        using assms [of w1 dst src] by (cases "clone w1 dst src") auto
      with o show ?thesis by (simp add: FileReflinker_Reflink_def)
    qed
  qed
  then have "FileReflinker_Reflink clone w s d m \<noteq> (w', None)" for w s d m w'
    by (metis snd_conv)
  note rl = this
  have "r \<noteq> None" if "probe_steps rnd2 (FileReflinker_Reflink clone) root sp src w = (w1, dp, r)"
    for root sp src w w1 dp r
    using that by (auto simp: probe_steps_def rl split: option.splits sum.splits prod.splits)
  then have "snd (share_probe rnd1 rnd2 clone w (ShareRoot cfg)) \<noteq> None"
    by (auto simp: share_probe_def ValidateShareRoot_def split: sum.splits prod.splits)
  then show ?thesis by (auto simp: runDaemon_def split: prod.splits option.splits)
qed

text \<open>C29: A daemon starts: on a usable share root, with a configuration whose tokens are valid, it
  listens and serves with the handler of its executor, and the host is as it was.\<close>

theorem daemon_starts:
  assumes "clones_all clone" "wf_fs w" "no_faults w" "probe_room w (ShareRoot cfg)"
    and "loadRuntimeTokenMap cfg = Inr tm" "listen (DaemonVsockPort cfg) = None"
    and "newDaemonExecutor newService exec exe ident cfg tm = Inr e"
  shows "\<exists>w' srv. runDaemon newService exec exe ident (share_probe rnd1 rnd2 clone) listen accepts w cfg =
      (w', Inr (srv, accept_loop accepts)) \<and> Handler srv = Some (daemon_handler e) \<and>
      (\<forall>q. node_at w' q = node_at w q)"
proof -
  note rl = FileReflinker_sure [OF assms(1)]
  obtain w' where run: "share_probe rnd1 rnd2 clone w (ShareRoot cfg) = (w', None)"
    using sure_reflinker.probe_ok [OF rl assms(2-4)] unfolding share_probe_def by blast
  have rl': "reflinker (FileReflinker_Reflink clone)"
    using rl by (simp add: sure_reflinker_def exclusive_reflinker_def)
  have "node_at w' q = node_at w q" for q
    using reflinker.probe_no_trace(2) [OF rl' assms(2) _ run [unfolded share_probe_def]] assms(3)
    by (simp add: no_faults_def)
  with run assms(5-7) show ?thesis by (simp add: runDaemon_def Serve_def)
qed

text \<open>C31: A share root that is itself a symbolic link passes the probe, which follows it, but no
  request can create anything directly in it: the resolution of every destination of one component
  fails, since it looks at the parent without following.\<close>

theorem symlinked_root:
  assumes "clones_all clone" "securejoin_contract sj" "wf_fs w" "no_faults w" "probe_room w root"
    and "normalizeRoot (cwd w) root = Inr rp" "find_node w rp False = Inr (k, n)" "ntype n = TSymlink"
    and "contained rel" "rel_comps rel = [c]"
  shows "(\<exists>w'. share_probe rnd1 rnd2 clone w root = (w', None)) \<and>
    (\<exists>e. ResolveDestination sj w root rel = Inl e)"
proof
  show "\<exists>w'. share_probe rnd1 rnd2 clone w root = (w', None)"
    using sure_reflinker.probe_ok [OF FileReflinker_sure [OF assms(1)] assms(3-5)]
    unfolding share_probe_def .
  have rp: "IsAbs rp" "Clean rp = rp" using normalizeRoot_wf [OF assms(6,3)] by simp_all
  have "no_link_below w rp []" by (simp add: no_link_below_def)
  then have sj: "p = Join [rp, render False []]" if "sj w rp (render False []) = Inr p" for p
    using assms(2) rp that unfolding securejoin_contract_def by (meson plain_comps_Nil)
  have dot: "render False [] = ''.''" by (simp add: render_def)
  have "Join [rp, render False []] = rp"
    using Join_render [of "abs_comps rp" "[]"] normalizeRoot_wf(1) [OF assms(6,3)] by simp
  with sj have parent: "p = rp" if "sj w rp ''.'' = Inr p" for p using that unfolding dot by simp
  have lst: "os_Lstat w rp = Inr n"
    using assms(4,7) by (simp add: os_Lstat_def)
  have c: "plain_comp c" using assms(9,10) by (simp add: contained_def)
  have "Dir (FromSlash (render False [c])) = ''.''"
    using c by (simp add: FromSlash_def Dir_render) (simp add: render_def)
  then show "\<exists>e. ResolveDestination sj w root rel = Inl e"
    using assms(6,8-10) parent lst
    by (auto simp: ResolveDestination_def resolvePath_def NormalizeRelative_Inr Let_def
        split: sum.splits option.splits)
qed

subsection \<open>The example\<close>

definition ex_system :: "fsys os_exec" where
  "ex_system argv = \<lparr>stdin_pipe = None, stdout_pipe = None, start = None, stdin_writer = empty_writer,
     stdin_close = None,
     child = (\<lambda>cred w bs. map_option (\<lambda>(w1, out, werr). (w1, written out, werr, []))
       (runWorker (newWorkerService PATH_MAX ex_clone ex_sj) (last argv) w
          \<lparr>arriving = bs, ending = Sentinel IoEOF\<rparr> empty_writer))\<rparr>"

lemma ex_system_runs:
  "runs_worker (newWorkerService PATH_MAX ex_clone ex_sj) (shareRoot cw) (ex_system (worker_argv cw))"
  by (simp add: runs_worker_def ex_system_def empty_writer_def worker_argv_def)

definition ex_share :: Config.Daemon where
  "ex_share = ex_daemon\<lparr>ShareRoot := ''/s''\<rparr>"

lemma ex_share_started:
  "\<exists>tm e. loadRuntimeTokenMap ex_share = Inr tm \<and>
     newDaemonExecutor (newWorkerService PATH_MAX ex_clone ex_sj) exec (Inr ''/bin/d'')
       (Inr ex_identity) ex_share tm = Inr e"
proof -
  let ?ent = "ex_entry\<lparr>entToken := ''s3cret''\<rparr>"
  have "valid_entry ?ent" by code_simp
  then have "\<exists>m. loadRuntimeTokenMap ex_share = Inr (Some m)"
    using NewTokenMapFromEntries_Inr [of "''daemon config''" "[?ent]"
        "Some (map_of [(entry_key ?ent, entry_identity ?ent)])"]
    by (simp add: loadRuntimeTokenMap_def ex_share_def ex_daemon_def)
  then show ?thesis by (auto simp: newDaemonExecutor_def newCommandWorker_def)
qed

lemma ex_room: "probe_room ex_fs ''/s''"
proof -
  have c: "plain_comps [''s'']" "Abs (cwd ex_fs) ''/s'' = Inr (render True [''s''])"
    "length (render True [''s'']) + 40 < PATH_MAX" "render True [''s''] = ''/s''" by code_simp+
  have f: "node_at ex_fs [''s'', probe_src_prefix @ x] = None \<and>
      node_at ex_fs [''s'', probe_dst_prefix @ x] = None" for x
    by (simp add: node_at_def ex_fs_def probe_src_prefix_def probe_dst_prefix_def)
  have "dir_at ex_fs [''s'']" by (simp add: dir_at_def node_at_def ex_fs_def ex_dir_def)
  with c f at_leads [OF ex_root] show ?thesis
    unfolding probe_room_def by (intro conjI exI [of _ "[''s'']"]) (simp_all del: length_render_le)
qed

theorem daemon_starts_witness:
  "\<exists>w' srv. runDaemon (newWorkerService PATH_MAX ex_clone ex_sj) ex_system (Inr ''/bin/d'') (Inr ex_identity)
      (share_probe (\<lambda>_. 7) (\<lambda>_. 8) ex_clone) (\<lambda>_. None) [] ex_fs ex_share = (w', Inr (srv, [], None)) \<and>
    (\<forall>q. node_at w' q = node_at ex_fs q)"
proof -
  obtain tm e where e: "loadRuntimeTokenMap ex_share = Inr tm"
     "newDaemonExecutor (newWorkerService PATH_MAX ex_clone ex_sj) ex_system (Inr ''/bin/d'')
       (Inr ex_identity) ex_share tm = Inr e" using ex_share_started by blast
  have root: "ShareRoot ex_share = ''/s''" by (simp add: ex_share_def)
  from daemon_starts [where ?rnd1.0 = "\<lambda>_. 7" and ?rnd2.0 = "\<lambda>_. 8" and accepts = "[]" and listen = "\<lambda>_. None",
      OF ex_sure(1) ex_wf ex_sure(3) _ e(1) _ e(2)] ex_room root
  show ?thesis by auto
qed

theorem ValidateShareRoot_no_trace_witness:
  "\<exists>w'. share_probe (\<lambda>_. 7) (\<lambda>_. 8) ex_clone ex_fs ''/s'' = (w', None) \<and>
     node_at w' [''s'', ''.vreflinkd-startup-probe-src-7''] = None"
proof -
  obtain w' where r: "share_probe (\<lambda>_. 7) (\<lambda>_. 8) ex_clone ex_fs ''/s'' = (w', None)"
    using sure_reflinker.probe_ok [OF FileReflinker_sure [OF ex_sure(1)] ex_wf ex_sure(3) ex_room]
    unfolding share_probe_def by blast
  have f: "fault ex_fs (SysRemove p) = None" for p by (simp add: ex_fs_def)
  have "node_at ex_fs [''s'', ''.vreflinkd-startup-probe-src-7''] = None" by code_simp
  with ValidateShareRoot_no_trace [OF ex_clone_contract ex_wf f r] r show ?thesis by simp
qed

theorem no_clone_no_daemon_witness:
  "\<exists>err. snd (runDaemon (newWorkerService PATH_MAX (ficlone (\<lambda>_ _. False)) ex_sj) ex_system (Inr ''/bin/d'')
      (Inr ex_identity) (share_probe (\<lambda>_. 7) (\<lambda>_. 8) (ficlone (\<lambda>_ _. False))) (\<lambda>_. None) [] ex_fs ex_share) = Inl err"
  by (rule no_clone_no_daemon) (simp add: ficlone_def split: option.splits)

definition ex_linked :: fsys where
  "ex_linked = ex_fs\<lparr>nodes := (''l'' # [], \<lparr>ntype = TSymlink, nperm = 0x1FF, ndata = ''/s'', nlink = 1\<rparr>) # nodes ex_fs\<rparr>"

lemma ex_linked_ok: "wf_fs ex_linked" "no_faults ex_linked" "probe_room ex_linked ''/l''"
proof -
  have put: "ex_linked = ex_fs\<lparr>nodes := nodes ex_linked\<rparr>" by (simp add: ex_linked_def)
  have env: "same_env ex_fs ex_linked" by (simp add: same_env_def ex_linked_def)
  let ?n = "\<lparr>ntype = TSymlink, nperm = 0x1FF, ndata = ''/s'', nlink = 1\<rparr>"
  have na: "node_at ex_linked q = node_at (put_node ex_fs ([] @ [''l'']) ?n) q" for q
    by (simp add: fs_simps) (simp add: node_at_def ex_linked_def)
  have w: "wf_fs (put_node ex_fs ([] @ [''l'']) ?n)"
    by (rule wf_fs_put_new [OF ex_wf wf_fs_root [OF ex_wf]]) code_simp+
  show "wf_fs ex_linked"
    using node_at_ext_wf [OF w _ na] env by (simp add: same_env_def fs_simps)
  show "no_faults ex_linked" by (simp add: no_faults_def ex_linked_def ex_fs_def)
  have "namei ex_linked MAXSYMLINKS [] [''l''] True = Inr ([''s''], MAXSYMLINKS - 1)" by code_simp
  moreover have c: "plain_comps [''l'']" "Abs (cwd ex_linked) ''/l'' = Inr (render True [''l''])"
    "length (render True [''l'']) + 40 < PATH_MAX" by code_simp+
  ultimately have l: "leads ex_linked (render True [''l'']) [''s'']"
    unfolding leads_def by (intro exI [of _ "[''l'']"] exI [of _ "MAXSYMLINKS - 1"]) simp
  have f: "node_at ex_linked [''s'', probe_src_prefix @ x] = None \<and>
      node_at ex_linked [''s'', probe_dst_prefix @ x] = None" for x
    by (simp add: node_at_def ex_linked_def ex_fs_def probe_src_prefix_def probe_dst_prefix_def)
  have "dir_at ex_linked [''s'']" by (simp add: dir_at_def node_at_def ex_linked_def ex_fs_def ex_dir_def)
  with c f l show "probe_room ex_linked ''/l''"
    unfolding probe_room_def by (intro conjI exI [of _ "[''l'']"] exI [of _ "[''s'']"]) simp_all
qed

theorem symlinked_root_witness:
  "(\<exists>w'. share_probe (\<lambda>_. 7) (\<lambda>_. 8) ex_clone ex_linked ''/l'' = (w', None)) \<and>
    (\<exists>e. ResolveDestination ex_sj ex_linked ''/l'' ''b'' = Inl e)"
proof -
  have a: "normalizeRoot (cwd ex_linked) ''/l'' = Inr ''/l''"
    "contained ''b''" "rel_comps ''b'' = [''b'']" by code_simp+
  have "find_node ex_linked ''/l'' False = Inr ([''l''], \<lparr>ntype = TSymlink, nperm = 0x1FF, ndata = ''/s'', nlink = 1\<rparr>)"
    by code_simp
  from symlinked_root [OF ex_sure(1) ex_sj_contract ex_linked_ok a(1) this _ a(2,3)] show ?thesis by simp
qed

end
