(* ===== verification/Client.thy ===== *)
theory Client
  imports Server
begin

section \<open>The guest's client (internal/client)\<close>

text \<open>
  \<open>client.go\<close>: \<open>Do\<close> validates a request, dials, writes one frame and reads one.  \<open>Dial\<close> is
  \<open>vsock.Dial\<close>, third-party: a function of the context id and port.  Which case the \<open>select\<close>
  in \<open>dial\<close> takes is the argument \<open>event\<close>.  A dialled connection is a writer and what its peer
  answers to the bytes written to it.
\<close>

record peer_conn =
  to_peer :: writer
  answer :: "bytes \<Rightarrow> reader"
  deadline_error :: "go_error option"

type_synonym DialFunc = "u32 \<Rightarrow> u32 \<Rightarrow> go_error + peer_conn"

record Client =
  HostCID :: u32
  Port :: u32
  Timeout :: int
  Dial :: "DialFunc option"

datatype dial_event = DialReturned | CtxDone go_error

definition New_client :: "DialFunc \<Rightarrow> u32 \<Rightarrow> u32 \<Rightarrow> int \<Rightarrow> Client" where
  "New_client defaultDial hostCID port timeout =
     \<lparr>HostCID = hostCID, Port = port, Timeout = timeout, Dial = Some defaultDial\<rparr>"

text \<open>The deadline of the context that \<open>dial\<close> waits on: the caller's own, or the timeout.\<close>

definition dial_deadline :: "Client \<Rightarrow> int option \<Rightarrow> int option" where
  "dial_deadline c ctxDeadline =
     (if Timeout c > 0 then (case ctxDeadline of None \<Rightarrow> Some (Timeout c) | Some d \<Rightarrow> Some d)
      else ctxDeadline)"

definition client_dial ::
  "DialFunc \<Rightarrow> Client \<Rightarrow> (int option \<Rightarrow> dial_event) \<Rightarrow> int option \<Rightarrow> go_error + peer_conn" where
  "client_dial defaultDial c event deadline =
     (let dial = (case Dial c of Some d \<Rightarrow> d | None \<Rightarrow> defaultDial)
      in case event deadline of
           CtxDone err \<Rightarrow> Inl err
         | DialReturned \<Rightarrow> dial (HostCID c) (Port c))"

definition Do ::
  "DialFunc \<Rightarrow> Client \<Rightarrow> (int option \<Rightarrow> dial_event) \<Rightarrow> int option \<Rightarrow> Request \<Rightarrow> go_error + Response" where
  "Do defaultDial c event ctxDeadline req =
     (case Request_Validate req of
        Some err \<Rightarrow> Inl err
      | None \<Rightarrow>
          (case client_dial defaultDial c event (dial_deadline c ctxDeadline) of
             Inl err \<Rightarrow> Inl err
           | Inr conn \<Rightarrow>
               (case (if Timeout c > 0 then deadline_error conn else None) of
                  Some err \<Rightarrow> Inl err
                | None \<Rightarrow>
                    (case Write (to_peer conn) (marshal_Request req) of
                       (w, Some err) \<Rightarrow> Inl err
                     | (w, None) \<Rightarrow> snd (Read decode_Response (answer conn (written w)))))))"

subsection \<open>A client and a server\<close>

text \<open>
  A connection whose other end is \<open>handleConn\<close>: the server reads what the client wrote, and
  the client reads what the server wrote before it closed the connection.
\<close>

definition server_conn :: "addr \<Rightarrow> bytes \<Rightarrow> conn" where
  "server_conn from bs = \<lparr>rd = \<lparr>arriving = bs, ending = Sentinel IoEOF\<rparr>,
     wr = \<lparr>written = [], wfault = None\<rparr>, read_deadline = None, write_deadline = None,
     closed = False, RemoteAddr = from\<rparr>"

definition served_by :: "'s Server \<Rightarrow> 's handler \<Rightarrow> 's \<Rightarrow> addr \<Rightarrow> peer_conn" where
  "served_by s handler st from =
     \<lparr>to_peer = \<lparr>written = [], wfault = None\<rparr>,
      answer = (\<lambda>bs. case handleConn s handler st (server_conn from bs) of
          None \<Rightarrow> \<lparr>arriving = [], ending = ErrorString ''i/o timeout''\<rparr>
        | Some (st', c, logs) \<Rightarrow> \<lparr>arriving = written (wr c), ending = Sentinel IoEOF\<rparr>),
      deadline_error = None\<rparr>"

lemma client_server:
  assumes "Request_Validate req = None" "wire_Request req"
    and "length (marshal_Request req) \<le> MaxPayloadSize"
    and "event (dial_deadline c ctxDeadline) = DialReturned"
    and "Dial c = Some d" "d (HostCID c) (Port c) = Inr (served_by s handler st from)"
    and h: "handler st req (peerFromAddr from) = Some (st', resp)"
    and "wire_Response resp" "length (marshal_Response resp) \<le> MaxPayloadSize"
  shows "Do defaultDial c event ctxDeadline req = Inr resp"
proof -
  let ?c = "server_conn from (frame (marshal_Request req))"
  have "Read decode_Request (rd ?c) = (\<lparr>arriving = [], ending = Sentinel IoEOF\<rparr>, Inr req)"
    using Read_Request_frame [OF assms(2,3), of "[]"] by (simp add: server_conn_def)
  moreover have "handler st req (peerFromAddr (RemoteAddr ?c)) = Some (st', resp)"
    using h by (simp add: server_conn_def)
  from handleConn_returns [OF calculation, where handler = handler, OF this] obtain st1 c' logs where
      hc: "handleConn s handler st ?c = Some (st1, c', logs)" by blast
  ultimately have w: "written (wr c') = frame (marshal_Response resp)"
    using handleConn_ok(2) [of ?c _ req handler st st' resp s st1 c' logs] h assms(9)
    by (simp add: server_conn_def)
  have "Do defaultDial c event ctxDeadline req =
      snd (Read decode_Response \<lparr>arriving = frame (marshal_Response resp), ending = Sentinel IoEOF\<rparr>)"
    using assms w hc by (simp add: Do_def client_dial_def served_by_def Write_frame)
  also have "\<dots> = Inr resp"
    using Read_Response_frame [OF assms(8,9), of "[]"] by simp
  finally show ?thesis .
qed

subsection \<open>Properties\<close>

text \<open>Client and server agree end to end: a valid request sent by \<open>Do\<close> over a connection
  that \<open>handleConn\<close> serves returns the response the server's handler gave to that same request.\<close>

theorem client_server_roundtrip:
  assumes "Request_Validate req = None" "wire_Request req"
    and "length (marshal_Request req) \<le> MaxPayloadSize"
    and "event (dial_deadline c ctxDeadline) = DialReturned"
    and "Dial c = Some d" "d (HostCID c) (Port c) = Inr (served_by s handler st peer)"
    and "handler st req (peerFromAddr peer) = Some (st', resp)"
    and "wire_Response resp" "length (marshal_Response resp) \<le> MaxPayloadSize"
  shows "Do defaultDial c event ctxDeadline req = Inr resp"
  using assms by (rule client_server)

theorem client_server_roundtrip_witness:
  "Do (\<lambda>_ _. Inl (Errno EIO))
     (New_client (\<lambda>_ _. Inr (served_by ex_server (\<lambda>n req p. Some (Suc n, ex_wire_response)) 4 (OtherAddr ''x'')))
        2 19090 5)
     (\<lambda>_. DialReturned) None ex_wire_request = Inr ex_wire_response"
proof (rule client_server_roundtrip [where s = ex_server and handler = "\<lambda>n req p. Some (Suc n, ex_wire_response)"
      and st = 4 and peer = "OtherAddr ''x''" and st' = 5
      and d = "\<lambda>_ _. Inr (served_by ex_server (\<lambda>n req p. Some (Suc n, ex_wire_response)) 4 (OtherAddr ''x''))"])
  show "Request_Validate ex_wire_request = None" by code_simp
qed (simp_all add: ex_wire_ok ex_wire_small New_client_def)

end
