(* ===== verification/Cli.thy ===== *)
theory Cli
  imports Validate Client Config
begin

section \<open>The guest command (cmd/vreflink)\<close>

text \<open>
  \<open>main.go\<close>: the command line \<open>vreflink [-r] SRC DST\<close>.  This theory
  starts from the result of the flag parser, the values of the flags and which of them were given; the
  parser and \<open>main\<close> are in Commands.
\<close>

record flags =
  flRecursive :: bool
  flMountRoot :: string
  flCID :: u32
  flPort :: u32
  flTimeout :: int
  flToken :: string
  Changed :: "string \<Rightarrow> bool"

definition missingTokenDaemonMessage :: string where
  "missingTokenDaemonMessage = ''token-authenticated requests require protocol version 2''"

definition missingTokenHintMessage :: string where
  "missingTokenHintMessage =
     ''authentication token is required; set token in config or pass --token''"

definition buildRequest ::
  "go_error + string \<Rightarrow> CLI \<Rightarrow> string \<Rightarrow> string \<Rightarrow> string \<Rightarrow> bool \<Rightarrow> go_error + Request" where
  "buildRequest wd cfg cwd_arg srcArg dstArg isRecursive =
     (case ResolveGuestArgument wd (GuestMountRoot cfg) cwd_arg srcArg of
        Inl err \<Rightarrow> Inl err
      | Inr srcRel \<Rightarrow>
          (case ResolveGuestArgument wd (GuestMountRoot cfg) cwd_arg dstArg of
             Inl err \<Rightarrow> Inl err
           | Inr dstRel \<Rightarrow>
               Inr \<lparr>Version = (if AuthToken cfg \<noteq> [] then Version2 else Version1), Op = OpReflink,
                    Recursive = isRecursive, Src = srcRel, Dst = dstRel, Token = AuthToken cfg\<rparr>))"

definition responseErrorMessage :: "Request \<Rightarrow> ErrorDetail option \<Rightarrow> string" where
  "responseErrorMessage req detail =
     (case detail of
        None \<Rightarrow> []
      | Some d \<Rightarrow>
          if Version req = Version1 \<and> Token req = [] \<and> Code d = CodeEINVAL \<and>
             Message d = missingTokenDaemonMessage
          then missingTokenHintMessage else Message d)"

definition resolveRuntimeConfig :: "go_error + CLI \<Rightarrow> flags \<Rightarrow> go_error + CLI" where
  "resolveRuntimeConfig loaded fl =
     (case loaded of
        Inl err \<Rightarrow> Inl (WrapErr (''load CLI config: '' @ error_msg err) [err])
      | Inr cfg \<Rightarrow>
          let cfg = (if Changed fl ''mount-root'' then cfg\<lparr>GuestMountRoot := flMountRoot fl\<rparr> else cfg);
              cfg = (if Changed fl ''cid'' then cfg\<lparr>CLIHostCID := flCID fl\<rparr> else cfg);
              cfg = (if Changed fl ''port'' then cfg\<lparr>VsockPort := flPort fl\<rparr> else cfg);
              cfg = (if Changed fl ''timeout'' then cfg\<lparr>CLITimeout := flTimeout fl\<rparr> else cfg);
              cfg = (if Changed fl ''token'' then cfg\<lparr>AuthToken := flToken fl\<rparr> else cfg)
          in Inr cfg)"

definition executeRequest ::
  "DialFunc \<Rightarrow> (int option \<Rightarrow> dial_event) \<Rightarrow> int option \<Rightarrow> CLI \<Rightarrow> Request \<Rightarrow> go_error + Response" where
  "executeRequest defaultDial event ctxDeadline cfg req =
     Do defaultDial (New_client defaultDial (CLIHostCID cfg) (VsockPort cfg) (CLITimeout cfg))
       event ctxDeadline req"

text \<open>
  The body of the command; \<open>wd\<close> is \<open>os.Getwd\<close>, which the guest paths are also resolved with.
  \<open>None\<close> is success.
\<close>

definition RunE ::
  "go_error + CLI \<Rightarrow> go_error + string \<Rightarrow> (CLI \<Rightarrow> Request \<Rightarrow> go_error + Response) \<Rightarrow> flags \<Rightarrow>
    string \<Rightarrow> string \<Rightarrow> go_error option" where
  "RunE loaded wd doRequest fl srcArg dstArg =
     (case resolveRuntimeConfig loaded fl of
        Inl err \<Rightarrow> Some err
      | Inr cfg \<Rightarrow>
          (case wd of
             Inl err \<Rightarrow> Some (WrapErr (''resolve working directory: '' @ error_msg err) [err])
           | Inr cwd_arg \<Rightarrow>
               (case buildRequest wd cfg cwd_arg srcArg dstArg (flRecursive fl) of
                  Inl err \<Rightarrow> Some err
                | Inr req \<Rightarrow>
                    (case doRequest cfg req of
                       Inl err \<Rightarrow> Some err
                     | Inr resp \<Rightarrow>
                         if OK resp then None
                         else (case Error resp of
                                 None \<Rightarrow> Some (ErrorString ''daemon returned an unknown error'')
                               | Some d \<Rightarrow>
                                   Some (CodedError (Code d) (responseErrorMessage req (Some d)) None))))))"

subsection \<open>What the command sends\<close>

lemma ResolveGuestArgument_contained:
  assumes "ResolveGuestArgument wd m c a = Inr r"
    and "normalizeRoot wd m = Inr rp" "IsAbs rp"
  shows "contained r" "Join [rp, r] = Clean (if IsAbs a then a else Join [c, a])"
proof -
  have "GuestToRelative wd m (if IsAbs a then a else Join [c, a]) = Inr r"
    using assms(1) by (auto simp: ResolveGuestArgument_def Let_def split: if_splits)
  from GuestToRelative_roundtrip [OF assms(2,3) this]
  show "contained r" "Join [rp, r] = Clean (if IsAbs a then a else Join [c, a])" by simp_all
qed

lemma buildRequest_Inr:
  assumes "buildRequest wd cfg c s d b = Inr req"
  obtains srcRel dstRel where
    "ResolveGuestArgument wd (GuestMountRoot cfg) c s = Inr srcRel"
    "ResolveGuestArgument wd (GuestMountRoot cfg) c d = Inr dstRel"
    "req = \<lparr>Version = (if AuthToken cfg \<noteq> [] then Version2 else Version1), Op = OpReflink,
       Recursive = b, Src = srcRel, Dst = dstRel, Token = AuthToken cfg\<rparr>"
  using assms by (auto simp: buildRequest_def split: sum.splits)

lemma contained_not_Nil: "contained p \<Longrightarrow> p \<noteq> []"
  by (simp add: contained_def)

text \<open>
  The command's requests pass both validations, up to equal arguments: the only thing it leaves
  to the client's and the daemon's check is that source and destination differ.
\<close>

lemma buildRequest_valid:
  assumes "buildRequest wd cfg c s d b = Inr req"
    and "normalizeRoot wd (GuestMountRoot cfg) = Inr rp" "IsAbs rp"
  shows "contained (Src req)" "contained (Dst req)"
    "Request_Validate req = (if Src req = Dst req
       then Some (NewError CodeEINVAL ''source and destination must differ'') else None)"
proof -
  from assms(1) obtain srcRel dstRel where *:
      "ResolveGuestArgument wd (GuestMountRoot cfg) c s = Inr srcRel"
      "ResolveGuestArgument wd (GuestMountRoot cfg) c d = Inr dstRel"
      "req = \<lparr>Version = (if AuthToken cfg \<noteq> [] then Version2 else Version1), Op = OpReflink,
         Recursive = b, Src = srcRel, Dst = dstRel, Token = AuthToken cfg\<rparr>"
    by (rule buildRequest_Inr)
  have cs: "contained srcRel" "contained dstRel"
    using ResolveGuestArgument_contained(1) [OF *(1) assms(2,3)]
      ResolveGuestArgument_contained(1) [OF *(2) assms(2,3)] by simp_all
  with * show "contained (Src req)" "contained (Dst req)" by simp_all
  from cs show "Request_Validate req = (if Src req = Dst req
       then Some (NewError CodeEINVAL ''source and destination must differ'') else None)"
    using contained_not_Nil [OF cs(1)] contained_not_Nil [OF cs(2)]
    by (simp add: *(3) Request_Validate_def version_defs)
qed

subsection \<open>Properties\<close>

text \<open>C18: Whatever the arguments, a request the command builds asks for contained paths below the
  mount root, carries the configured token under version 2 or none under version 1, and passes
  the daemon's validation unless source and destination are the same.\<close>

theorem buildRequest_passes:
  assumes "buildRequest wd cfg c s d b = Inr req" "IsAbs (GuestMountRoot cfg)"
  shows "validate_Request req = (if Src req = Dst req
       then Some (NewError CodeEINVAL ''source and destination must differ'') else None) \<and>
    contained (Src req) \<and> contained (Dst req) \<and>
    Token req = AuthToken cfg \<and> Recursive req = b \<and> (Version req = Version2 \<longleftrightarrow> AuthToken cfg \<noteq> [])"
proof -
  note v = buildRequest_valid [OF assms(1) normalizeRoot_abs [OF assms(2)]]
  from assms(2) v have c: "contained (Src req)" "contained (Dst req)" by simp_all
  have "validate_Request req = (if Src req = Dst req
       then Some (NewError CodeEINVAL ''source and destination must differ'') else None)"
  proof (cases "Src req = Dst req")
    case True
    with v assms(2) show ?thesis by (simp add: validate_Request_def)
  next
    case False
    with v assms(2) c show ?thesis by (simp add: validate_Request_None)
  qed
  moreover from assms(1) have
    "Token req = AuthToken cfg \<and> Recursive req = b \<and> (Version req = Version2 \<longleftrightarrow> AuthToken cfg \<noteq> [])"
    by (rule buildRequest_Inr) (simp add: version_defs)
  ultimately show ?thesis using c by blast
qed

theorem buildRequest_passes_witness:
  "\<exists>req. buildRequest (Inr ''/shared/w'') (defaultCLIConfig\<lparr>AuthToken := ''tok''\<rparr>) ''/shared/w''
      ''../a'' ''/shared/b/'' False = Inr req \<and> Src req = ''a'' \<and> Dst req = ''b'' \<and>
    validate_Request req = None"
proof -
  have 1: "buildRequest (Inr ''/shared/w'') (defaultCLIConfig\<lparr>AuthToken := ''tok''\<rparr>) ''/shared/w''
      ''../a'' ''/shared/b/'' False = Inr \<lparr>Version = 2, Op = ''reflink'', Recursive = False, Src = ''a'',
      Dst = ''b'', Token = ''tok''\<rparr>" by code_simp
  have 2: "IsAbs (GuestMountRoot (defaultCLIConfig\<lparr>AuthToken := ''tok''\<rparr>))" by code_simp
  from buildRequest_passes [OF 1 2] 1 show ?thesis by (simp add: version_defs)
qed

end
