(* ===== verification/Install.thy ===== *)
theory Install
  imports Temp_File Config
begin

section \<open>Installing a template (internal/install and config init)\<close>

text \<open>
  \<open>WriteTemplate\<close> writes the content to a temporary file beside its target and renames it; the
  deferred function removes the temporary file unless the rename was reached and succeeded.
  \<open>vreflink config init\<close> installs the guest's configuration template, the parameter
  \<open>template\<close> (an embedded file).
\<close>

text \<open>The steps on the open temporary file.\<close>

definition template_steps ::
  "string \<Rightarrow> bytes \<Rightarrow> FileMode \<Rightarrow> string \<Rightarrow> key \<Rightarrow> fsys \<Rightarrow> fsys \<times> go_error option" where
  "template_steps path content mode tempPath f w =
     (case file_Write w tempPath f content of
        (w1, Some err) \<Rightarrow> (w1, Some err)
      | (w1, None) \<Rightarrow>
          (case file_Chmod w1 tempPath f mode of
             (w2, Some err) \<Rightarrow> (w2, Some err)
           | (w2, None) \<Rightarrow>
               (case file_Close w2 tempPath of
                  Some err \<Rightarrow> (w2, Some err)
                | None \<Rightarrow> os_Rename w2 tempPath path)))"

definition WriteTemplate ::
  "(nat \<Rightarrow> u32) \<Rightarrow> fsys \<Rightarrow> string \<Rightarrow> bytes \<Rightarrow> FileMode \<Rightarrow> bool \<Rightarrow> fsys \<times> go_error option" where
  "WriteTemplate rnd w path content mode overwrite =
     (if path = [] then (w, Some (ErrorString ''path is required''))
      else case (if overwrite then None
                 else case os_Stat w path of
                        Inr _ \<Rightarrow> Some (Sentinel FsErrExist)
                      | Inl err \<Rightarrow> if os_IsNotExist err then None else Some err) of
             Some err \<Rightarrow> (w, Some err)
           | None \<Rightarrow>
               (case os_MkdirAll w (Dir path) 0x1ED of
                  (w1, Some err) \<Rightarrow> (w1, Some err)
                | (w1, None) \<Rightarrow>
                    (case os_CreateTemp rnd w1 (Dir path) ''.tmp-'' of
                       (w2, Inl err) \<Rightarrow> (w2, Some err)
                     | (w2, Inr (tempPath, f)) \<Rightarrow>
                         (case template_steps path content mode tempPath f w2 of
                            (w3, Some err) \<Rightarrow> (fst (os_Remove w3 tempPath), Some err)
                          | (w3, None) \<Rightarrow> (w3, None)))))"

definition newConfigInitCmd ::
  "(nat \<Rightarrow> u32) \<Rightarrow> go_error + string \<Rightarrow> bytes \<Rightarrow> bool \<Rightarrow> fsys \<Rightarrow> fsys \<times> (go_error + string)" where
  "newConfigInitCmd rnd dirs template force w =
     (case cliConfigPath dirs of
        Inl err \<Rightarrow> (w, Inl err)
      | Inr path \<Rightarrow>
          (case WriteTemplate rnd w path template 0x1A4 force of
             (w1, Some err) \<Rightarrow> (w1, Inl
               (if errors_is is_exist_target err
                then ErrorString (''config file already exists at '' @ path @ '' (use --force to overwrite)'')
                else err))
           | (w1, None) \<Rightarrow> (w1, Inr (''wrote '' @ path @ [CHR 0x0A]))))"

subsection \<open>The temporary file becomes the target\<close>

lemma tmp_prefix: "sep \<notin> set ''.tmp-''" "2 < length ''.tmp-''"
  by simp_all

text \<open>\<open>leaf w path q\<close>: the path names the entry \<open>q\<close> of an existing directory.\<close>

definition leaf :: "fsys \<Rightarrow> string \<Rightarrow> key \<Rightarrow> bool" where
  "leaf w path q \<longleftrightarrow> (\<exists>ps k c. plain_comps ps \<and> plain_comp c \<and> path = render True (ps @ [c]) \<and>
     leads w (render True ps) k \<and> dir_at w k \<and> q = k @ [c])"

lemma leaf_resolve:
  assumes "leads w (render True ps) k" "plain_comps ps" "plain_comp c" "dir_at w k"
  shows "resolve w (render True (ps @ [c])) False =
    (if PATH_MAX \<le> length (render True (ps @ [c])) then Inl ENAMETOOLONG else Inr (k @ [c]))"
proof -
  from assms(1) obtain qs b where "plain_comps qs" "render True ps = render True qs"
      "namei w MAXSYMLINKS [] qs True = Inr (k, b)" by (auto simp: leads_def)
  moreover from this have "qs = ps" using assms(2) render_inject [of True ps qs] by simp
  ultimately have "namei w MAXSYMLINKS [] (ps @ [c]) False = Inr (k @ [c], b)"
    using assms(3,4) by (simp add: namei_append namei_leaf_intro)
  with assms(2,3) show ?thesis by (simp add: resolve_render)
qed

lemma Rename_temp:
  assumes "wf_fs w" "only_temps w k {t} w1" "at w tempPath t" "node_at w1 t = Some n"
    and "leads w (render True ps) k" "plain_comps ps" "plain_comp c"
    and "os_Rename w1 tempPath (render True (ps @ [c])) = (w2, r)"
  shows "if r = None then \<not> dir_at w (k @ [c]) \<and> w2 = put_node (del_node w1 t) (k @ [c]) n else w2 = w1"
proof -
  have d: "dir_at w k" using assms(2) by (simp add: only_temps_def)
  note ext = only_temps_ext [OF assms(2)]
  have src: "find_node w1 tempPath False = Inr (t, n)"
    using only_temps_at [OF assms(2,1) singletonI assms(3)] assms(4) by (simp add: find_node_def at_resolve)
  note dst = leaf_resolve [OF leads_ext [OF assms(5) d ext] assms(6,7) fs_ext_dir [OF ext d]]
  have "dir_at w1 (k @ [c])" if "dir_at w (k @ [c])" using fs_ext_dir [OF ext that] .
  with src dst assms(8) show ?thesis
    by (auto simp: os_Rename_def guarded_def split: option.splits if_splits)
qed

lemma template_steps_result:
  assumes "wf_fs w" "only_temps w k {t} w1" "at w tempPath t" "node_at w1 t = Some (new_file w' 0x180)"
    and "leads w (render True ps) k" "plain_comps ps" "plain_comp c"
    and "template_steps (render True (ps @ [c])) content mode tempPath t w1 = (w2, r)"
  shows "r \<noteq> None \<Longrightarrow> only_temps w k {t} w2"
    and "r = None \<Longrightarrow> same_env w w2 \<and> node_at w2 q = (if q = k @ [c]
      then Some \<lparr>ntype = TReg, nperm = mode AND ModeBits, ndata = content, nlink = 1\<rparr> else node_at w q)"
proof -
  obtain w1a r1 where wr: "file_Write w1 tempPath t content = (w1a, r1)" by fastforce
  note a = only_temps_Write [OF assms(2) singletonI assms(4) wr]
  obtain w1b r2 where ch: "file_Chmod w1a tempPath t mode = (w1b, r2)" by fastforce
  have "(r \<noteq> None \<longrightarrow> only_temps w k {t} w2) \<and> (r = None \<longrightarrow> same_env w w2 \<and> node_at w2 q = (if q = k @ [c]
      then Some \<lparr>ntype = TReg, nperm = mode AND ModeBits, ndata = content, nlink = 1\<rparr> else node_at w q))"
  proof (cases "r1 = None")
    case False
    with a(1) wr assms(8) show ?thesis by (auto simp: template_steps_def)
  next
    case True
    note b = only_temps_file_Chmod [OF a(1) singletonI a(2) [OF True] ch]
    show ?thesis
    proof (cases "r2 = None \<and> file_Close w1b tempPath = None")
      case False
      with True b(1) wr ch assms(8) show ?thesis by (auto simp: template_steps_def split: option.splits)
    next
      case ok: True
      with True wr ch assms(8) have rn: "os_Rename w1b tempPath (render True (ps @ [c])) = (w2, r)"
        by (simp add: template_steps_def)
      note b2 = b(2) [OF conjunct1 [OF ok]]
      note res = Rename_temp [OF assms(1) b(1) assms(3) b2 assms(5-7) rn]
      have t: "node_at w t = None" using b(1) by (simp add: only_temps_def)
      have env: "same_env w w1b" using b(1) by (simp add: only_temps_def)
      show ?thesis
        using res b(1) env t only_temps_same [OF b(1), of q] 
        by (auto simp: fs_simps new_file_def same_env_def)
    qed
  qed
  then show "r \<noteq> None \<Longrightarrow> only_temps w k {t} w2"
    and "r = None \<Longrightarrow> same_env w w2 \<and> node_at w2 q = (if q = k @ [c]
      then Some \<lparr>ntype = TReg, nperm = mode AND ModeBits, ndata = content, nlink = 1\<rparr> else node_at w q)"
    by auto
qed

subsection \<open>Properties\<close>


text \<open>Where no call fails, \<open>config init\<close> installs the template in an existing directory: always
  with \<open>--force\<close>, and otherwise exactly when nothing is at the path, following links.\<close>

theorem config_init_installs:
  assumes "wf_fs w" "no_faults w" "cliConfigPath dirs = Inr path" "leaf w path k"
    and "\<And>n. node_at w k = Some n \<Longrightarrow> ntype n \<noteq> TDir \<and> ntype n \<noteq> TSymlink"
    and "length path + 16 < PATH_MAX"
    and "\<And>n. node_at w (butlast k @ [''.tmp-'' @ show_nat n]) = None"
    and "force \<or> (\<exists>e. os_Stat w path = Inl e \<and> os_IsNotExist e)"
  shows "\<exists>w'. newConfigInitCmd rnd dirs template force w = (w', Inr (''wrote '' @ path @ [CHR 0x0A])) \<and>
    os_ReadFile w' path = Inr template"
proof -
  from assms(4) obtain ps d c where p: "plain_comps ps" "plain_comp c" "path = render True (ps @ [c])"
    "leads w (render True ps) d" "dir_at w d" "k = d @ [c]" by (auto simp: leaf_def)
  have nf: "fault w x = None" for x using assms(2) by (simp add: no_faults_def)
  have path: "path \<noteq> []" "Dir path = render True ps" using p by (simp_all add: Dir_render_abs)
  note mk = MkdirAll_dir [OF p(4,5), unfolded path(2) [symmetric], OF nf]
  have len: "length (render True ps) + 16 < PATH_MAX" "length path < PATH_MAX"
    using assms(6) length_render_append [of ps "[c]"] p(3) by simp_all
  have short: "length (Join [render True ps, ''.tmp-'' @ show_nat (unat (v :: u32))]) < PATH_MAX" for v
    using length_temp [OF p(1) tmp_prefix, of 5] len by simp
  obtain w1 f where cr: "os_CreateTemp rnd w (render True ps) ''.tmp-'' = (w1, Inr f)"
    using CreateTemp_ok [OF p(4,1,5) tmp_prefix nf _ short] assms(7) p(6) by fastforce
  obtain tp t where f: "f = (tp, t)" by fastforce
  from only_temps_CreateTemp [OF only_temps_refl [OF p(5)] p(4,1) tmp_prefix cr] f
  have t: "only_temps w d {t} w1" "at w tp t" "node_at w1 t = Some (new_file w 0x180)"
    by (auto simp: fs_simps)
  have nf1: "fault w1 x = None" for x using only_temps_fault [OF t(1)] nf by simp
  obtain w1a where wr: "file_Write w1 tp t template = (w1a, None)"
    using t(3) nf1 by (simp add: file_Write_def)
  note a = only_temps_Write [OF t(1) singletonI t(3) wr]
  have nfa: "fault w1a x = None" for x using only_temps_fault [OF a(1)] nf by simp
  obtain w1b where ch: "file_Chmod w1a tp t 0x1A4 = (w1b, None)"
    using a(2) nfa by (simp add: file_Chmod_def)
  note b = only_temps_file_Chmod [OF a(1) singletonI a(2) [OF refl] ch]
  have nfb: "fault w1b x = None" for x using only_temps_fault [OF b(1)] nf by simp
  note ext = only_temps_ext [OF b(1)]
  have nd: "\<not> dir_at w1b (d @ [c])"
  proof (cases "d @ [c] = t")
    case True
    have "node_at w1b t = Some n \<Longrightarrow> ntype n = TReg" for n using b(1) by (simp add: only_temps_def)
    with True show ?thesis by (auto simp: dir_at_def split: option.splits)
  next
    case False
    with only_temps_same [OF b(1)] assms(5) p(6) show ?thesis by (auto simp: dir_at_def split: option.splits)
  qed
  obtain w2 where rn: "os_Rename w1b tp path = (w2, None)"
    using only_temps_at [OF b(1) assms(1) singletonI t(2)] b(2) nfb nd len(2)
      leaf_resolve [OF leads_ext [OF p(4,5) ext] p(1,2) fs_ext_dir [OF ext p(5)]] p(3)
    by (simp add: os_Rename_def guarded_def find_node_def at_resolve)
  have st: "template_steps path template 0x1A4 tp t w1 = (w2, None)"
    using wr ch rn nfb by (simp add: template_steps_def file_Close_def)
  have pre: "(if force then None else case os_Stat w path of
      Inr _ \<Rightarrow> Some (Sentinel FsErrExist) | Inl err \<Rightarrow> if os_IsNotExist err then None else Some err) = None"
    using assms(8) by auto
  have run: "WriteTemplate rnd w path template 0x1A4 force = (w2, None)"
    using path mk cr pre f st by (simp add: WriteTemplate_def)
  note s = template_steps_result(2) [OF assms(1) t p(4,1,2) st [unfolded p(3)] refl]
  have "\<exists>n. node_at w2 k = Some n \<and> ntype n = TReg \<and> ndata n = template"
    using s [of k] p(6) by simp
  moreover have "resolve w2 path True = Inr k"
  proof -
    have "fs_ext w w2"
      unfolding fs_ext_def using s assms(5) p(6) by (metis (full_types) option.inject)
    then have "leads w2 (render True ps) d" "dir_at w2 d"
      using leads_ext [OF p(4,5)] fs_ext_dir [OF _ p(5)] by blast+
    moreover have j: "Join [render True ps, c] = path" using Join_name [of ps c] p(1-3) by simp
    moreover have "node_at w2 (d @ [c]) = Some n \<Longrightarrow> ntype n \<noteq> TSymlink" for n
      using s [of k] p(6) by auto
    ultimately have "at w2 path k" using at_child [of w2 "render True ps" d c] p(2,6) len(2) by simp
    then show ?thesis by (rule at_resolve)
  qed
  ultimately have "os_ReadFile w2 path = Inr template"
    using s [of k] nf by (auto simp: os_ReadFile_def guarded_def find_node_def same_env_def)
  with run assms(3) show ?thesis by (simp add: newConfigInitCmd_def)
qed

subsection \<open>An example\<close>

definition ex_home :: fsys where
  "ex_home = \<lparr>nodes = map (\<lambda>k. (k, \<lparr>ntype = TDir, nperm = 0x1ED, ndata = [], nlink = 2\<rparr>))
       [[], [''h''], [''h'', ''vreflink'']],
     cwd = Inr ''/'', umask = 0x12, fault = (\<lambda>_. None)\<rparr>"

lemma ex_home_node: "node_at ex_home k =
  (if k \<in> {[], [''h''], [''h'', ''vreflink'']} then Some \<lparr>ntype = TDir, nperm = 0x1ED, ndata = [], nlink = 2\<rparr> else None)"
  by (simp add: node_at_def ex_home_def)

lemma ex_home_ok: "wf_fs ex_home" "no_faults ex_home" "fault ex_home x = None"
  "leaf ex_home ''/h/vreflink/config.toml'' [''h'', ''vreflink'', ''config.toml'']"
proof -
  show "wf_fs ex_home"
    unfolding wf_fs_def
  proof (intro conjI allI impI)
    show "dir_at ex_home []" by (simp add: dir_at_def ex_home_node)
    fix k :: key and c
    assume "node_at ex_home (k @ [c]) \<noteq> None"
    then have "(k, c) \<in> {([], ''h''), ([''h''], ''vreflink'')}"
      by (auto simp: ex_home_node append_eq_Cons_conv split: if_splits)
    then show "plain_comp c" "dir_at ex_home k"
      by (auto simp: plain_comp_def dir_at_def ex_home_node)
  qed (simp_all add: ex_home_def IsAbs_def has_prefix_iff)
  show "no_faults ex_home" "fault ex_home x = None" by (simp_all add: no_faults_def ex_home_def)
  have r: "plain_comps [''h'', ''vreflink'']" "plain_comp ''config.toml''"
    "''/h/vreflink/config.toml'' = render True ([''h'', ''vreflink''] @ [''config.toml''])"
    "length (render True [''h'', ''vreflink'']) < PATH_MAX"
    "namei ex_home MAXSYMLINKS [] [''h'', ''vreflink''] True = Inr ([''h'', ''vreflink''], MAXSYMLINKS)"
    by code_simp+
  have d: "dir_at ex_home [''h'', ''vreflink'']" by (simp add: dir_at_def ex_home_node)
  have "leads ex_home (render True [''h'', ''vreflink'']) [''h'', ''vreflink'']"
    unfolding leads_def using r by blast
  with r d show "leaf ex_home ''/h/vreflink/config.toml'' [''h'', ''vreflink'', ''config.toml'']"
    unfolding leaf_def by (intro exI [of _ "[''h'', ''vreflink'']"] exI [of _ "''config.toml''"]) simp
qed


theorem config_init_installs_witness:
  "\<exists>w'. newConfigInitCmd (\<lambda>_. 7) (Inr ''/h'') ''version = 1'' False ex_home =
      (w', Inr (''wrote /h/vreflink/config.toml'' @ [CHR 0x0A])) \<and>
    os_ReadFile w' ''/h/vreflink/config.toml'' = Inr ''version = 1''"
proof -
  have a: "cliConfigPath (Inr ''/h'') = Inr ''/h/vreflink/config.toml''"
    "length ''/h/vreflink/config.toml'' + 16 < PATH_MAX" by code_simp+
  have "os_Stat ex_home ''/h/vreflink/config.toml'' =
      Inl (path_error ''stat'' ''/h/vreflink/config.toml'' ENOENT)" by code_simp
  moreover have "os_IsNotExist (path_error ''stat'' ''/h/vreflink/config.toml'' ENOENT)" by code_simp
  ultimately have "\<exists>e. os_Stat ex_home ''/h/vreflink/config.toml'' = Inl e \<and> os_IsNotExist e" by blast
  with config_init_installs [OF ex_home_ok(1,2) a(1) ex_home_ok(4) _ a(2), of False "\<lambda>_. 7" "''version = 1''"]
  show ?thesis by (simp add: ex_home_node)
qed

end
