(* ===== verification/Server_Steps.thy ===== *)
theory Server_Steps
  imports Server
begin

section \<open>The server with its goroutines (internal/server)\<close>

text \<open>
  \<open>Serve\<close> runs the accept loop, one goroutine that closes the listener once the context is done,
  and one goroutine for every accepted connection.  Here each of them moves by steps, in any
  order.  A connection's goroutine passes through the phases of \<open>handleConn\<close>: it reads a request
  or rejects what it read, runs the handler, writes the response.  One call of the handler is one
  step.
\<close>

datatype phase =
    Reading conn
  | Handling Request conn
  | Writing Response conn
  | Finished conn "log_entry list"

record 's serving =
  host :: 's
  procs :: "phase list"
  cancelled :: bool
  listening :: bool
  returned :: "go_error option option"

datatype srv_event =
    EvAccept conn
  | EvRead nat
  | EvReject nat
  | EvHandle nat Request PeerInfo Response
  | EvWrite nat
  | EvCancel
  | EvCloseListener
  | EvReturn go_error

definition begin_conn :: "'s Server \<Rightarrow> conn \<Rightarrow> conn" where
  "begin_conn s c = (if ReadTimeout s > 0 then c\<lparr>read_deadline := Some (ReadTimeout s)\<rparr> else c)"

definition request_conn :: "'s Server \<Rightarrow> conn \<Rightarrow> reader \<Rightarrow> conn" where
  "request_conn s c r = (begin_conn s c)\<lparr>rd := r, read_deadline := None\<rparr>"

definition reject_conn :: "'s Server \<Rightarrow> conn \<Rightarrow> reader \<Rightarrow> go_error \<Rightarrow> phase" where
  "reject_conn s c r err =
     Finished ((fst (writeResponse s ((begin_conn s c)\<lparr>rd := r\<rparr>)
         (ResponseFromError (Some (WrapError CodeEINVAL ''invalid request'' err)))))\<lparr>closed := True\<rparr>)
       [ReadFailed (peerFromAddr (RemoteAddr c)) err]"

definition finish_conn :: "'s Server \<Rightarrow> conn \<Rightarrow> Response \<Rightarrow> phase" where
  "finish_conn s c resp =
     (case writeResponse s c resp of
        (c1, werr) \<Rightarrow> Finished (c1\<lparr>closed := True\<rparr>)
          (case werr of None \<Rightarrow> [] | Some err \<Rightarrow> [WriteFailed (peerFromAddr (RemoteAddr c)) err]))"

text \<open>A listener that was closed fails with \<open>net.ErrClosed\<close>; it may fail in any way before.\<close>

inductive server_step :: "'s Server \<Rightarrow> 's handler \<Rightarrow> 's serving \<Rightarrow> srv_event \<Rightarrow> 's serving \<Rightarrow> bool"
  for s h where
  accept: "returned v = None \<Longrightarrow> listening v \<Longrightarrow>
     server_step s h v (EvAccept c) (v\<lparr>procs := procs v @ [Reading c]\<rparr>)"
| read: "i < length (procs v) \<Longrightarrow> procs v ! i = Reading c \<Longrightarrow>
     Read decode_Request (rd (begin_conn s c)) = (r, Inr req) \<Longrightarrow>
     server_step s h v (EvRead i) (v\<lparr>procs := (procs v)[i := Handling req (request_conn s c r)]\<rparr>)"
| reject: "i < length (procs v) \<Longrightarrow> procs v ! i = Reading c \<Longrightarrow>
     Read decode_Request (rd (begin_conn s c)) = (r, Inl err) \<Longrightarrow>
     server_step s h v (EvReject i) (v\<lparr>procs := (procs v)[i := reject_conn s c r err]\<rparr>)"
| handle: "i < length (procs v) \<Longrightarrow> procs v ! i = Handling req c \<Longrightarrow>
     h (host v) req (peerFromAddr (RemoteAddr c)) = Some (st, resp) \<Longrightarrow>
     server_step s h v (EvHandle i req (peerFromAddr (RemoteAddr c)) resp)
       (v\<lparr>host := st, procs := (procs v)[i := Writing resp c]\<rparr>)"
| respond: "i < length (procs v) \<Longrightarrow> procs v ! i = Writing resp c \<Longrightarrow>
     server_step s h v (EvWrite i) (v\<lparr>procs := (procs v)[i := finish_conn s c resp]\<rparr>)"
| cancel: "server_step s h v EvCancel (v\<lparr>cancelled := True\<rparr>)"
| close: "cancelled v \<Longrightarrow> server_step s h v EvCloseListener (v\<lparr>listening := False\<rparr>)"
| accept_fails: "returned v = None \<Longrightarrow>
     (\<not> listening v \<Longrightarrow> errors_is (\<lambda>e. e = Sentinel NetErrClosed) err) \<Longrightarrow>
     server_step s h v (EvReturn err) (v\<lparr>returned :=
       Some (if cancelled v \<and> isExpectedShutdownAcceptError err then None else Some err)\<rparr>)"

inductive_cases server_stepE:
  "server_step s h v (EvAccept c) v'" "server_step s h v (EvRead i) v'"
  "server_step s h v (EvReject i) v'" "server_step s h v (EvHandle i req p resp) v'"
  "server_step s h v (EvWrite i) v'" "server_step s h v EvCancel v'"
  "server_step s h v EvCloseListener v'" "server_step s h v (EvReturn err) v'"

inductive serves :: "'s Server \<Rightarrow> 's handler \<Rightarrow> 's serving \<Rightarrow> srv_event list \<Rightarrow> 's serving \<Rightarrow> bool"
  for s h v0 where
  idle: "serves s h v0 [] v0"
| then_step: "serves s h v0 evs v1 \<Longrightarrow> server_step s h v1 e v2 \<Longrightarrow> serves s h v0 (evs @ [e]) v2"

definition serving0 :: "'s \<Rightarrow> 's serving" where
  "serving0 st = \<lparr>host = st, procs = [], cancelled = False, listening = True, returned = None\<rparr>"

subsection \<open>What a run did\<close>

fun accepted :: "srv_event list \<Rightarrow> conn list" where
  "accepted [] = []"
| "accepted (EvAccept c # evs) = c # accepted evs"
| "accepted (_ # evs) = accepted evs"

type_synonym served = "nat \<times> Request \<times> PeerInfo \<times> Response"

fun handled :: "srv_event list \<Rightarrow> served list" where
  "handled [] = []"
| "handled (EvHandle i req p resp # evs) = (i, req, p, resp) # handled evs"
| "handled (_ # evs) = handled evs"

text \<open>What \<open>Accept\<close> returned, in the form \<open>accept_loop\<close> takes it.\<close>

fun accept_results :: "bool \<Rightarrow> srv_event list \<Rightarrow> accept_result list" where
  "accept_results ctxDone [] = []"
| "accept_results ctxDone (EvAccept c # evs) = Accepted c # accept_results ctxDone evs"
| "accept_results ctxDone (EvReturn err # evs) = AcceptFailed err ctxDone # accept_results ctxDone evs"
| "accept_results ctxDone (EvCancel # evs) = accept_results True evs"
| "accept_results ctxDone (_ # evs) = accept_results ctxDone evs"

text \<open>The handler run on the requests one after the other, with the responses it gave.\<close>

fun serial :: "'s handler \<Rightarrow> 's \<Rightarrow> served list \<Rightarrow> 's option" where
  "serial h st [] = Some st"
| "serial h st ((i, req, p, resp) # hs) =
     (case h st req p of
        None \<Rightarrow> None
      | Some (st1, resp1) \<Rightarrow> if resp1 = resp then serial h st1 hs else None)"

lemma accepted_append [simp]: "accepted (xs @ ys) = accepted xs @ accepted ys"
  by (induction xs rule: accepted.induct) auto

lemma handled_append [simp]: "handled (xs @ ys) = handled xs @ handled ys"
  by (induction xs rule: handled.induct) auto

lemma accept_results_append [simp]:
  "accept_results d (xs @ ys) = accept_results d xs @ accept_results (d \<or> EvCancel \<in> set xs) ys"
  by (induction d xs rule: accept_results.induct) auto

lemma serial_append:
  "serial h st (xs @ ys) = (case serial h st xs of None \<Rightarrow> None | Some st1 \<Rightarrow> serial h st1 ys)"
  by (induction h st xs rule: serial.induct) (auto split: option.splits)

lemma accept_loop_append:
  "snd (accept_loop xs) = None \<Longrightarrow> accept_loop (xs @ ys) =
     (fst (accept_loop xs) @ fst (accept_loop ys), snd (accept_loop ys))"
  by (induction xs rule: accept_loop.induct) (auto split: prod.splits if_splits)

subsection \<open>The accept loop\<close>

lemma serves_cancelled: "serves s h (serving0 st) evs v \<Longrightarrow> cancelled v \<longleftrightarrow> EvCancel \<in> set evs"
proof (induction rule: serves.induct)
  case (then_step evs v1 e v2)
  then show ?case by (cases e) (auto elim!: server_stepE)
qed (simp_all add: serving0_def)

lemma serves_accept_loop:
  "serves s h (serving0 st) evs v \<Longrightarrow>
   accept_loop (accept_results False evs) = (accepted evs, returned v)"
proof (induction rule: serves.induct)
  case (then_step evs v1 e v2)
  show ?case
  proof (cases "returned v1")
    case None
    with then_step serves_cancelled [OF then_step(1)] show ?thesis
      by (cases e) (auto simp: accept_loop_append elim!: server_stepE)
  next
    case (Some res)
    with then_step have "accept_results False (evs @ [e]) = accept_results False evs"
      "accepted [e] = []" "returned v2 = returned v1"
      by (cases e; auto elim!: server_stepE)+
    with then_step show ?thesis by simp
  qed
qed (simp_all add: serving0_def)

subsection \<open>Every connection is served as by handleConn\<close>

lemma conn_remote [simp]: "RemoteAddr (begin_conn s c) = RemoteAddr c" "RemoteAddr (request_conn s c r) = RemoteAddr c"
  by (simp_all add: begin_conn_def request_conn_def)

text \<open>The phases of a connection put together are \<open>handleConn\<close>.\<close>

lemma handleConn_phases:
  "handleConn s h st c =
     (case Read decode_Request (rd (begin_conn s c)) of
        (r, Inl err) \<Rightarrow> (case reject_conn s c r err of Finished c1 logs \<Rightarrow> Some (st, c1, logs))
      | (r, Inr req) \<Rightarrow>
          (case h st req (peerFromAddr (RemoteAddr c)) of
             None \<Rightarrow> None
           | Some (st1, resp) \<Rightarrow>
               (case finish_conn s (request_conn s c r) resp of Finished c1 logs \<Rightarrow> Some (st1, c1, logs))))"
proof (cases "Read decode_Request (rd (begin_conn s c))")
  case (Pair r x)
  have b: "begin_conn s c = (if ReadTimeout s > 0 then c\<lparr>read_deadline := Some (ReadTimeout s)\<rparr> else c)"
    by (simp add: begin_conn_def)
  show ?thesis
    by (cases x) (use Pair in \<open>auto simp: handleConn_def Let_def reject_conn_def finish_conn_def
        request_conn_def b [symmetric] split: prod.splits option.splits\<close>)
qed

lemma finish_conn_Finished: "\<exists>c1 logs. finish_conn s c resp = Finished c1 logs"
  by (cases "writeResponse s c resp") (simp add: finish_conn_def)

text \<open>Where connection \<open>i\<close>, accepted as \<open>c0\<close>, stands after the requests \<open>hs\<close> were handled.\<close>

definition at_turn :: "'s handler \<Rightarrow> 's \<Rightarrow> served list \<Rightarrow> nat \<Rightarrow> Request \<Rightarrow> PeerInfo \<Rightarrow> Response \<Rightarrow> 's \<Rightarrow> 's \<Rightarrow> bool" where
  "at_turn h st0 hs i req p resp st st' \<longleftrightarrow>
     (\<exists>xs ys. hs = xs @ (i, req, p, resp) # ys \<and> i \<notin> fst ` set (xs @ ys) \<and>
        serial h st0 xs = Some st \<and> h st req p = Some (st', resp))"

lemma at_turn_later: "at_turn h st0 hs i req p resp st st' \<Longrightarrow> j \<noteq> i \<Longrightarrow>
   at_turn h st0 (hs @ [(j, x)]) i req p resp st st'"
  unfolding at_turn_def by fastforce

fun phase_inv :: "'s Server \<Rightarrow> 's handler \<Rightarrow> 's \<Rightarrow> served list \<Rightarrow> nat \<Rightarrow> conn \<Rightarrow> phase \<Rightarrow> bool" where
  "phase_inv s h st0 hs i c0 (Reading c) \<longleftrightarrow> c = c0 \<and> i \<notin> fst ` set hs"
| "phase_inv s h st0 hs i c0 (Handling req c) \<longleftrightarrow> i \<notin> fst ` set hs \<and>
     (\<exists>r. Read decode_Request (rd (begin_conn s c0)) = (r, Inr req) \<and> c = request_conn s c0 r)"
| "phase_inv s h st0 hs i c0 (Writing resp c) \<longleftrightarrow>
     (\<exists>r req st st'. Read decode_Request (rd (begin_conn s c0)) = (r, Inr req) \<and> c = request_conn s c0 r \<and>
        at_turn h st0 hs i req (peerFromAddr (RemoteAddr c0)) resp st st')"
| "phase_inv s h st0 hs i c0 (Finished c logs) \<longleftrightarrow>
     (i \<notin> fst ` set hs \<and> (\<forall>st. handleConn s h st c0 = Some (st, c, logs))) \<or>
     (\<exists>req resp st st'. at_turn h st0 hs i req (peerFromAddr (RemoteAddr c0)) resp st st' \<and>
        handleConn s h st c0 = Some (st', c, logs))"

lemma phase_inv_later: "phase_inv s h st0 hs i c0 ph \<Longrightarrow> j \<noteq> i \<Longrightarrow> phase_inv s h st0 (hs @ [(j, x)]) i c0 ph"
proof (cases ph)
  case (Writing resp c)
  assume "phase_inv s h st0 hs i c0 ph" "j \<noteq> i"
  with Writing show ?thesis by simp (blast intro: at_turn_later)
next
  case (Finished c logs)
  assume "phase_inv s h st0 hs i c0 ph" "j \<noteq> i"
  with Finished show ?thesis by simp (blast intro: at_turn_later)
qed auto

definition serving_inv :: "'s Server \<Rightarrow> 's handler \<Rightarrow> 's \<Rightarrow> srv_event list \<Rightarrow> 's serving \<Rightarrow> bool" where
  "serving_inv s h st0 evs v \<longleftrightarrow> serial h st0 (handled evs) = Some (host v) \<and>
     length (procs v) = length (accepted evs) \<and> distinct (map fst (handled evs)) \<and>
     fst ` set (handled evs) \<subseteq> {..<length (procs v)} \<and>
     (\<forall>i < length (procs v). phase_inv s h st0 (handled evs) i (accepted evs ! i) (procs v ! i))"

text \<open>A step of connection \<open>i\<close> that handles no request keeps what holds of the others.\<close>

lemma serving_inv_update:
  assumes "serving_inv s h st0 evs v" "i < length (procs v)"
    and "phase_inv s h st0 (handled evs) i (accepted evs ! i) ph"
    and "accepted [e] = []" "handled [e] = []" "v' = v\<lparr>procs := (procs v)[i := ph]\<rparr>"
  shows "serving_inv s h st0 (evs @ [e]) v'"
  using assms by (auto simp: serving_inv_def nth_list_update)

lemma serving_inv_step:
  assumes inv: "serving_inv s h st0 evs v" and step: "server_step s h v e v'"
  shows "serving_inv s h st0 (evs @ [e]) v'"
  using step
proof cases
  case (accept c)
  with inv show ?thesis
    by (auto simp: serving_inv_def nth_append less_Suc_eq)
next
  case (read i c r req)
  have "phase_inv s h st0 (handled evs) i (accepted evs ! i) (procs v ! i)"
    using inv read(3) by (simp add: serving_inv_def)
  with read(4,5) have "phase_inv s h st0 (handled evs) i (accepted evs ! i) (Handling req (request_conn s c r))"
    by auto
  with read show ?thesis by (intro serving_inv_update [OF inv read(3)]) auto
next
  case (reject i c r err)
  have "phase_inv s h st0 (handled evs) i (accepted evs ! i) (procs v ! i)"
    using inv reject(3) by (simp add: serving_inv_def)
  then have c: "phase_inv s h st0 (handled evs) i (accepted evs ! i) (Reading c)"
    by (simp only: reject(4))
  have "phase_inv s h st0 (handled evs) i (accepted evs ! i) (reject_conn s c r err)"
  proof -
    obtain c1 logs where f: "reject_conn s c r err = Finished c1 logs" by (simp add: reject_conn_def)
    with reject(5) have "handleConn s h st c = Some (st, c1, logs)" for st
      by (simp add: handleConn_phases)
    with c f show ?thesis by simp
  qed
  with reject show ?thesis by (intro serving_inv_update [OF inv reject(3)]) auto
next
  case (handle i req c st resp)
  let ?p = "peerFromAddr (RemoteAddr c)"
  let ?c0 = "accepted evs ! i"
  have "phase_inv s h st0 (handled evs) i ?c0 (procs v ! i)"
    using inv handle(3) by (simp add: serving_inv_def)
  then have ph: "phase_inv s h st0 (handled evs) i ?c0 (Handling req c)" by (simp only: handle(4))
  then have p: "?p = peerFromAddr (RemoteAddr ?c0)" by auto
  have turn: "at_turn h st0 (handled evs @ [(i, req, ?p, resp)]) i req ?p resp (host v) st"
    unfolding at_turn_def using inv handle ph
    by (intro exI [of _ "handled evs"] exI [of _ "[]"]) (auto simp: serving_inv_def)
  with ph p have new: "phase_inv s h st0 (handled evs @ [(i, req, ?p, resp)]) i ?c0 (Writing resp c)"
    by auto
  have "phase_inv s h st0 (handled evs @ [(i, req, ?p, resp)]) j (accepted evs ! j) (procs v' ! j)"
    if "j < length (procs v')" for j
    using that new inv handle phase_inv_later [of s h st0 "handled evs" j _ _ i]
    by (cases "j = i") (auto simp: serving_inv_def)
  moreover have "i \<notin> fst ` set (handled evs)" using ph by simp
  ultimately show ?thesis
    using inv handle by (auto simp: serving_inv_def serial_append)
next
  case (respond i resp c)
  let ?c0 = "accepted evs ! i"
  have "phase_inv s h st0 (handled evs) i ?c0 (procs v ! i)"
    using inv respond(3) by (simp add: serving_inv_def)
  then obtain r req st st' where rd: "Read decode_Request (rd (begin_conn s ?c0)) = (r, Inr req)"
      "c = request_conn s ?c0 r"
    and turn: "at_turn h st0 (handled evs) i req (peerFromAddr (RemoteAddr ?c0)) resp st st'"
    using respond(4) by auto
  obtain c1 logs where f: "finish_conn s c resp = Finished c1 logs"
    using finish_conn_Finished by blast
  have "h st req (peerFromAddr (RemoteAddr ?c0)) = Some (st', resp)" using turn by (auto simp: at_turn_def)
  with rd f have "handleConn s h st ?c0 = Some (st', c1, logs)" by (simp add: handleConn_phases)
  with turn f have "phase_inv s h st0 (handled evs) i ?c0 (finish_conn s c resp)" by auto
  with respond show ?thesis by (intro serving_inv_update [OF inv respond(3)]) auto
next
  case cancel
  with inv show ?thesis by (auto simp: serving_inv_def)
next
  case close
  with inv show ?thesis by (auto simp: serving_inv_def)
next
  case (accept_fails err)
  with inv show ?thesis by (auto simp: serving_inv_def)
qed

lemma serves_inv: "serves s h (serving0 st0) evs v \<Longrightarrow> serving_inv s h st0 evs v"
proof (induction rule: serves.induct)
  case idle
  then show ?case by (simp add: serving_inv_def serving0_def)
next
  case (then_step evs v1 e v2)
  then show ?case by (blast intro: serving_inv_step)
qed

subsection \<open>Connections come to an end\<close>

lemma serves_Cons: "serves s h v1 evs v2 \<Longrightarrow> server_step s h v e v1 \<Longrightarrow> serves s h v (e # evs) v2"
proof (induction rule: serves.induct)
  case idle
  then show ?case using then_step [OF serves.idle] by fastforce
next
  case (then_step evs v2 e' v3)
  then show ?case using serves.then_step [of s h v "e # evs" v2 e' v3] by simp
qed

lemma serves_append: "serves s h v1 evs2 v2 \<Longrightarrow> serves s h v evs1 v1 \<Longrightarrow> serves s h v (evs1 @ evs2) v2"
  by (induction rule: serves.induct) (auto simp flip: append_assoc intro: serves.then_step)

fun rank :: "phase \<Rightarrow> nat" where
  "rank (Reading c) = 3"
| "rank (Handling req c) = 2"
| "rank (Writing resp c) = 1"
| "rank (Finished c logs) = 0"

definition all_finished :: "'s serving \<Rightarrow> bool" where
  "all_finished v \<longleftrightarrow> (\<forall>ph \<in> set (procs v). rank ph = 0)"

lemma rank_reject [simp]: "rank (reject_conn s c r err) = 0"
  by (simp add: reject_conn_def)

lemma rank_finish [simp]: "rank (finish_conn s c resp) = 0"
  by (simp add: finish_conn_def split: prod.splits)

lemma sum_rank_update:
  "i < length ps \<Longrightarrow> rank ph < rank (ps ! i) \<Longrightarrow> sum_list (map rank (ps[i := ph])) < sum_list (map rank ps)"
proof (induction ps arbitrary: i)
  case (Cons p ps)
  then show ?case by (cases i) auto
qed simp

text \<open>A goroutine that has not ended can take a step of its own.\<close>

lemma connection_moves:
  assumes "\<And>st req p. h st req p \<noteq> None" "i < length (procs v)" "rank (procs v ! i) \<noteq> 0"
  shows "\<exists>e v'. server_step s h v e v' \<and> accepted [e] = [] \<and> length (procs v') = length (procs v) \<and>
    sum_list (map rank (procs v')) < sum_list (map rank (procs v))"
proof (cases "procs v ! i")
  case (Reading c)
  obtain r x where rd: "Read decode_Request (rd (begin_conn s c)) = (r, x)" by fastforce
  show ?thesis
  proof (cases x)
    case (Inl err)
    with rd have "server_step s h v (EvReject i) (v\<lparr>procs := (procs v)[i := reject_conn s c r err]\<rparr>)"
      by (intro server_step.reject [OF assms(2) Reading]) simp
    with assms(2) Reading show ?thesis
      by (intro exI [of _ "EvReject i"] exI [of _ "v\<lparr>procs := (procs v)[i := reject_conn s c r err]\<rparr>"])
        (simp add: sum_rank_update)
  next
    case (Inr req)
    let ?v = "v\<lparr>procs := (procs v)[i := Handling req (request_conn s c r)]\<rparr>"
    from Inr rd have "server_step s h v (EvRead i) ?v"
      by (intro server_step.read [OF assms(2) Reading]) simp
    with assms(2) Reading show ?thesis
      by (intro exI [of _ "EvRead i"] exI [of _ ?v]) (simp add: sum_rank_update)
  qed
next
  case (Handling req c)
  obtain st resp where "h (host v) req (peerFromAddr (RemoteAddr c)) = Some (st, resp)"
    using assms(1) [of "host v" req "peerFromAddr (RemoteAddr c)"] by auto
  from server_step.handle [where s = s and h = h, OF assms(2) Handling this] assms(2) Handling show ?thesis
    by (intro exI [of _ "EvHandle i req (peerFromAddr (RemoteAddr c)) resp"]
        exI [of _ "v\<lparr>host := st, procs := (procs v)[i := Writing resp c]\<rparr>"]) (simp add: sum_rank_update)
next
  case (Writing resp c)
  from server_step.respond [where s = s and h = h, OF assms(2) Writing] assms(2) Writing show ?thesis
    by (intro exI [of _ "EvWrite i"] exI [of _ "v\<lparr>procs := (procs v)[i := finish_conn s c resp]\<rparr>"])
      (simp add: sum_rank_update)
next
  case (Finished c logs)
  with assms(3) show ?thesis by simp
qed

lemma connections_drain:
  assumes "\<And>st req p. h st req p \<noteq> None"
  shows "\<exists>evs v'. serves s h v evs v' \<and> all_finished v' \<and> accepted evs = [] \<and>
    length (procs v') = length (procs v) \<and> length evs \<le> sum_list (map rank (procs v))"
proof (induction "sum_list (map rank (procs v))" arbitrary: v rule: less_induct)
  case less
  show ?case
  proof (cases "all_finished v")
    case True
    then show ?thesis by (intro exI [of _ "[]"] exI [of _ v]) (simp add: serves.idle)
  next
    case False
    then obtain i where i: "i < length (procs v)" "rank (procs v ! i) \<noteq> 0"
      by (auto simp: all_finished_def in_set_conv_nth)
    obtain e v1 where e: "server_step s h v e v1" "accepted [e] = []" "length (procs v1) = length (procs v)"
        "sum_list (map rank (procs v1)) < sum_list (map rank (procs v))"
      using connection_moves [where h = h, OF assms i] by blast
    obtain evs v' where "serves s h v1 evs v'" "all_finished v'" "accepted evs = []"
        "length (procs v') = length (procs v1)" "length evs \<le> sum_list (map rank (procs v1))"
      using less [OF e(4)] by blast
    with e serves_Cons [of s h v1 evs v' v e] accepted_append [of "[e]" evs] show ?thesis
      by (intro exI [of _ "e # evs"] exI [of _ v']) auto
  qed
qed

lemma sum_rank_le: "sum_list (map rank ps) \<le> 3 * length ps"
proof (induction ps)
  case (Cons p ps)
  then show ?case by (cases p) auto
qed simp

subsection \<open>Properties\<close>


text \<open>C28: \<open>Serve\<close> returns what its accept loop returns on the results of \<open>Accept\<close>, and it returns
  without an error only after its context was cancelled.\<close>

theorem serve_returns:
  assumes "serves s h (serving0 st0) evs v"
  shows "accept_loop (accept_results False evs) = (accepted evs, returned v) \<and>
    (returned v = Some None \<longrightarrow> EvCancel \<in> set evs)"
proof -
  have "returned v = Some None \<longrightarrow> cancelled v"
    using assms
  proof (induction rule: serves.induct)
    case idle
    then show ?case by (simp add: serving0_def)
  next
    case (then_step evs v1 e v2)
    then show ?case by (cases e) (auto elim!: server_stepE split: if_splits)
  qed
  with serves_accept_loop [OF assms] serves_cancelled [OF assms] show ?thesis by simp
qed

text \<open>No connection is stuck: from every state of a server whose handler returns, the goroutines
  can all come to their end within three steps each, without another connection being accepted.\<close>

theorem connections_end:
  assumes "\<And>st req p. h st req p \<noteq> None" "serves s h (serving0 st0) evs v"
  shows "\<exists>more v'. serves s h (serving0 st0) (evs @ more) v' \<and> all_finished v' \<and> accepted more = [] \<and>
    length more \<le> 3 * length (procs v)"
proof -
  obtain more v' where "serves s h v more v'" "all_finished v'" "accepted more = []"
      "length more \<le> sum_list (map rank (procs v))"
    using connections_drain [where h = h, OF assms(1)] by blast
  with serves_append [OF _ assms(2)] sum_rank_le [of "procs v"] show ?thesis by fastforce
qed

subsection \<open>An example\<close>

definition ex_handler :: "nat handler" where
  "ex_handler n req p = Some (Suc n, SuccessResponse)"

lemma ex_accepts:
  "serves ex_server ex_handler (serving0 4) [EvAccept (ex_conn ''ab''), EvAccept (ex_conn ''cd'')]
     ((serving0 4)\<lparr>procs := [Reading (ex_conn ''ab''), Reading (ex_conn ''cd'')]\<rparr>)"
proof -
  have "serves ex_server ex_handler (serving0 4) ([] @ [EvAccept (ex_conn ''ab'')])
     ((serving0 4)\<lparr>procs := procs (serving0 (4 :: nat)) @ [Reading (ex_conn ''ab'')]\<rparr>)"
    by (rule serves.then_step [OF serves.idle server_step.accept]) (simp_all add: serving0_def)
  from serves.then_step [OF this server_step.accept, of "ex_conn ''cd''"] show ?thesis
    by (simp add: serving0_def)
qed

lemma ex_drained:
  "\<exists>more v. serves ex_server ex_handler (serving0 4)
      ([EvAccept (ex_conn ''ab''), EvAccept (ex_conn ''cd'')] @ more) v \<and> all_finished v \<and> accepted more = []"
proof -
  have "ex_handler st req p \<noteq> None" for st req p by (simp add: ex_handler_def)
  from connections_drain [where h = ex_handler, OF this] obtain more v where
    "serves ex_server ex_handler ((serving0 4)\<lparr>procs := [Reading (ex_conn ''ab''), Reading (ex_conn ''cd'')]\<rparr>) more v"
    "all_finished v" "accepted more = []" by blast
  with serves_append [OF _ ex_accepts] show ?thesis by blast
qed

theorem connections_end_witness:
  "\<exists>more v'. serves ex_server ex_handler (serving0 4)
      ([EvAccept (ex_conn ''ab''), EvAccept (ex_conn ''cd'')] @ more) v' \<and> all_finished v' \<and> length more \<le> 6"
proof -
  have "ex_handler st req p \<noteq> None" for st req p by (simp add: ex_handler_def)
  from connections_end [where h = ex_handler, OF this ex_accepts] show ?thesis by auto
qed


theorem serve_returns_witness:
  "\<exists>evs. serves ex_server ex_handler (serving0 4) evs ((serving0 4)\<lparr>cancelled := True, listening := False, returned := Some None\<rparr>) \<and>
     accept_loop (accept_results False evs) = ([], Some None)"
proof -
  let ?err = "Sentinel NetErrClosed"
  have "serves ex_server ex_handler (serving0 4) ([] @ [EvCancel]) ((serving0 4)\<lparr>cancelled := True\<rparr>)"
    by (rule serves.then_step [OF serves.idle server_step.cancel])
  from serves.then_step [OF this server_step.close]
  have "serves ex_server ex_handler (serving0 4) [EvCancel, EvCloseListener]
      ((serving0 4)\<lparr>cancelled := True, listening := False\<rparr>)" by (simp add: serving0_def)
  from serves.then_step [OF this server_step.accept_fails, of ?err]
  have "serves ex_server ex_handler (serving0 4) [EvCancel, EvCloseListener, EvReturn ?err]
      ((serving0 4)\<lparr>cancelled := True, listening := False, returned := Some None\<rparr>)"
    by (simp add: serving0_def isExpectedShutdownAcceptError_def)
  with serve_returns [OF this] show ?thesis by fastforce
qed

end
