(* ===== verification/Config_Properties.thy ===== *)
theory Config_Properties
  imports Config
begin

section \<open>What loading a configuration guarantees\<close>

text \<open>
  Bounds of the loaded values, and the round trip of the guest's settings through the legacy env
  file and through the environment.
\<close>

subsection \<open>Timeouts\<close>

definition int64 :: "int \<Rightarrow> bool" where
  "int64 d \<longleftrightarrow> - (2 ^ 63) \<le> d \<and> d < 2 ^ 63"

lemma int64_default: "int64 defaultTimeout"
  by (simp add: int64_def defaultTimeout_def)

lemma ParseDuration_int64: "ParseDuration s = Inr d \<Longrightarrow> int64 d"
  unfolding int64_def using ParseDuration_bounds by blast

lemma set_duration_int64: "set_duration path field v old = Inr d \<Longrightarrow> int64 old \<Longrightarrow> int64 d"
  by (auto simp: set_duration_def ParseDuration_int64 split: if_splits sum.splits)

lemma loadCLITOMLFile_int64:
  "loadCLITOMLFile toml w path cfg = Inr cfg' \<Longrightarrow> int64 (CLITimeout cfg) \<Longrightarrow> int64 (CLITimeout cfg')"
  by (auto simp: loadCLITOMLFile_def dest: set_duration_int64 split: sum.splits if_splits)

lemma applyCLILegacyEnvEntry_int64:
  "applyCLILegacyEnvEntry cfg key v = Inr cfg' \<Longrightarrow> int64 (CLITimeout cfg) \<Longrightarrow> int64 (CLITimeout cfg')"
  by (auto simp: applyCLILegacyEnvEntry_def ParseDuration_int64 split: sum.splits if_splits)

lemma env_lines_loop_int64:
  "env_lines_loop path i cfg ls = (cfg', r) \<Longrightarrow> int64 (CLITimeout cfg) \<Longrightarrow> int64 (CLITimeout cfg')"
proof (induction path i cfg ls rule: env_lines_loop.induct)
  case (2 path i cfg line ls)
  then show ?case
    by (auto split: sum.splits option.splits prod.splits) (meson applyCLILegacyEnvEntry_int64)+
qed simp

lemma loadCLILegacyEnvFile_int64:
  "loadCLILegacyEnvFile w path cfg = (cfg', r) \<Longrightarrow> int64 (CLITimeout cfg) \<Longrightarrow> int64 (CLITimeout cfg')"
  by (auto simp: loadCLILegacyEnvFile_def dest: env_lines_loop_int64
      split: sum.splits option.splits if_splits prod.splits)

lemma overrideFromEnv_int64: "int64 (CLITimeout cfg) \<Longrightarrow> int64 (CLITimeout (overrideFromEnv env cfg))"
  by (auto simp: overrideFromEnv_def durationLookupEnv_def ParseDuration_int64 split: option.splits sum.splits)

text \<open>Every timeout that loading accepts, from the TOML file, the legacy file, the environment or the
  defaults, fits the 64 bits of \<open>time.Duration\<close>; so do both timeouts of a daemon configuration.\<close>

theorem config_bounds:
  "(loadCLI toml w dirs env = Inr cfg \<longrightarrow> int64 (CLITimeout cfg)) \<and>
   (loadDaemon dtoml w path = Inr d \<longrightarrow> int64 (DaemonReadTimeout d) \<and> int64 (DaemonWriteTimeout d))"
proof (intro conjI impI)
  have d: "int64 (CLITimeout defaultCLIConfig)" by (simp add: defaultCLIConfig_def int64_default)
  assume "loadCLI toml w dirs env = Inr cfg"
  then show "int64 (CLITimeout cfg)"
    using d by (auto simp: loadCLI_def Let_def intro!: overrideFromEnv_int64
        dest: loadCLITOMLFile_int64 loadCLILegacyEnvFile_int64 split: sum.splits option.splits if_splits prod.splits)
next
  assume "loadDaemon dtoml w path = Inr d"
  then show "int64 (DaemonReadTimeout d)" "int64 (DaemonWriteTimeout d)"
    by (auto simp: loadDaemon_def loadDaemonFile_def defaultDaemonConfig_def int64_default
        dest: set_duration_int64 split: sum.splits if_splits)
qed

text \<open>The longest duration loads; one nanosecond more is an error.\<close>

definition ex_toml :: "string \<Rightarrow> cliFile toml" where
  "ex_toml d data = Inr \<lparr>cfVersion = 1, cfMountRoot = [], cfHostCID = None, cfPort = None, cfTimeout = d, cfToken = []\<rparr>"

definition ex_daemon_toml :: "string \<Rightarrow> daemonFile toml" where
  "ex_daemon_toml d data = Inr \<lparr>dfVersion = 1, dfShareRoot = [], dfPort = None, dfReadTimeout = d,
     dfWriteTimeout = [], dfLogLevel = [], dfAllowV1Fallback = False, dfTokens = []\<rparr>"

definition ex_conf :: fsys where
  "ex_conf = \<lparr>nodes = map (\<lambda>k. (k, \<lparr>ntype = TDir, nperm = 0x1ED, ndata = [], nlink = 1\<rparr>)) [[], [''vreflink'']] @
       [([''vreflink'', ''config.toml''], \<lparr>ntype = TReg, nperm = 0x1A4, ndata = [], nlink = 0\<rparr>)],
     cwd = Inr ''/'', umask = 0x12, fault = (\<lambda>_. None)\<rparr>"

lemma config_bounds_witness:
  "(\<exists>cfg d. loadCLI (ex_toml ''9223372036854775807ns'') ex_conf (Inr ''/'') Map.empty = Inr cfg \<and>
      loadDaemon (ex_daemon_toml ''2562047h47m16.854775807s'') ex_conf ''/vreflink/config.toml'' = Inr d \<and>
      CLITimeout cfg = 2 ^ 63 - 1 \<and> int64 (CLITimeout cfg) \<and> int64 (DaemonReadTimeout d)) \<and>
   \<not> is_ok (loadCLI (ex_toml ''9223372036854775808ns'') ex_conf (Inr ''/'') Map.empty)"
proof -
  let ?c = "loadCLI (ex_toml ''9223372036854775807ns'') ex_conf (Inr ''/'') Map.empty"
  let ?d = "loadDaemon (ex_daemon_toml ''2562047h47m16.854775807s'') ex_conf ''/vreflink/config.toml''"
  have "is_ok ?c \<and> CLITimeout (projr ?c) = 2 ^ 63 - 1" by code_simp
  then obtain cfg where c: "?c = Inr cfg" "CLITimeout cfg = 2 ^ 63 - 1" by (auto simp: is_ok_iff)
  have "is_ok ?d" by code_simp
  then obtain d where d: "?d = Inr d" by (auto simp: is_ok_iff)
  have "\<not> is_ok (loadCLI (ex_toml ''9223372036854775808ns'') ex_conf (Inr ''/'') Map.empty)" by code_simp
  with c d config_bounds [of "ex_toml ''9223372036854775807ns''" ex_conf "Inr ''/''" Map.empty cfg
      "ex_daemon_toml ''2562047h47m16.854775807s''" "''/vreflink/config.toml''" d]
  show ?thesis by auto
qed

subsection \<open>Numbers read back\<close>

lemma digit_char_facts:
  "d < 10 \<Longrightarrow> is_digit (digit_char d)" "d < 10 \<Longrightarrow> digit_of (digit_char d) = int d"
proof -
  assume d: "d < 10"
  then have "ord (digit_char d) = 48 + d" by (simp add: digit_char_def ord_def)
  with d show "is_digit (digit_char d)" "digit_of (digit_char d) = int d"
    by (simp_all add: is_digit_def digit_of_def)
qed

lemma parse_uint_show: "n < 2 ^ 32 \<Longrightarrow> parse_uint_loop s0 0 (show_nat n @ rest) = parse_uint_loop s0 (int n) rest"
proof (induction n arbitrary: rest rule: show_nat.induct)
  case (1 n)
  show ?case
  proof (cases "n < 10")
    case True
    with 1(2) show ?thesis by (simp add: show_nat.simps digit_char_facts)
  next
    case False
    have "n div 10 < 2 ^ 32" using 1(2) by linarith
    from 1(1) [OF False this, of "digit_char (n mod 10) # rest"] False
    have "parse_uint_loop s0 0 (show_nat n @ rest) =
        parse_uint_loop s0 (int (n div 10)) (digit_char (n mod 10) # rest)"
      by (subst show_nat.simps) simp
    also have "\<dots> = parse_uint_loop s0 (int n) rest"
    proof -
      have "int (n div 10) * 10 + int (n mod 10) = int n" by presburger
      with 1(2) show ?thesis by (simp add: digit_char_facts Let_def)
    qed
    finally show ?thesis .
  qed
qed

lemma ParseUint32_show [simp]: "n < 2 ^ 32 \<Longrightarrow> ParseUint32 (show_nat n) = Inr (int n)"
  using parse_uint_show [of n "show_nat n" "[]"] by (simp add: ParseUint32_def)

lemma leadingInt_show: "n \<le> 2 ^ 63 \<Longrightarrow> leadingInt 0 (show_nat n @ rest) = leadingInt (int n) rest"
proof (induction n arbitrary: rest rule: show_nat.induct)
  case (1 n)
  show ?case
  proof (cases "n < 10")
    case True
    with 1(2) show ?thesis by (simp add: show_nat.simps digit_char_facts)
  next
    case False
    have "n div 10 \<le> 2 ^ 63" using 1(2) by linarith
    from 1(1) [OF False this, of "digit_char (n mod 10) # rest"] False
    have "leadingInt 0 (show_nat n @ rest) = leadingInt (int (n div 10)) (digit_char (n mod 10) # rest)"
      by (subst show_nat.simps) simp
    also have "\<dots> = leadingInt (int n) rest"
    proof -
      have "int (n div 10) * 10 + int (n mod 10) = int n" by presburger
      moreover have "int (n div 10) \<le> 2 ^ 63 div 10"
        using 1(2) by (simp add: zdiv_int zdiv_mono1)
      ultimately show ?thesis using 1(2) by (simp add: digit_char_facts Let_def)
    qed
    finally show ?thesis .
  qed
qed

lemma hd_show_nat: "\<exists>d < 10. hd (show_nat n) = digit_char d"
proof (induction n rule: show_nat.induct)
  case (1 n)
  then show ?case by (cases "n < 10") (auto simp: show_nat.simps [of n])
qed

lemma ParseDuration_show:
  assumes "n < 2 ^ 63"
  shows "ParseDuration (show_nat n @ ''ns'') = Inr (int n)"
proof -
  let ?s = "show_nat n @ ''ns''"
  obtain d where d: "d < 10" "hd ?s = digit_char d" using hd_show_nat [of n] by auto
  have "is_digit (hd ?s)" using d by (simp add: digit_char_facts)
  then have h: "is_digit (hd ?s)" "hd ?s \<noteq> CHR ''-''" "hd ?s \<noteq> CHR ''+''" by (auto simp: is_digit_def ord_def)
  have "leadingInt 0 ?s = Some (int n, ''ns'')"
    using leadingInt_show [of n "''ns''"] assms by (simp add: is_digit_def ord_def)
  then have part: "duration_part ?s ?s = Inr (int n, [])"
    using h assms by (simp add: duration_part_def Let_def unit_ns_def is_unit_char_def is_digit_def ord_def)
  then have "duration_loop ?s 0 ?s = Inr (int n)"
    using assms by (simp add: duration_loop.simps)
  moreover have "?s \<noteq> ''0''" by (metis (no_types) append_is_Nil_conv append_Cons append_Nil append_eq_Cons_conv list.distinct(1) show_nat_not_Nil)
  ultimately show ?thesis using h assms by (simp add: ParseDuration_def Let_def)
qed

subsection \<open>Settings read back\<close>

lemma find_spaces_None:
  "find (\<lambda>t. t \<noteq> [] \<and> has_prefix s t) ts = None \<longleftrightarrow> (\<forall>t \<in> set ts. t \<noteq> [] \<longrightarrow> \<not> prefix t s)"
  by (auto simp: find_None_iff has_prefix_iff)

lemma trimmed_iff:
  "TrimSpace s = s \<longleftrightarrow> (\<forall>t \<in> set space_encodings. \<not> prefix t s \<and> \<not> suffix t s)"
proof -
  have ne: "\<forall>t \<in> set space_encodings. t \<noteq> []" by (simp add: space_encodings_def)
  show ?thesis
  proof
    assume s: "TrimSpace s = s"
    have "\<not> prefix t s" if "t \<in> set space_encodings" for t
      using TrimSpace_no_leading [of s] s that ne by (simp add: find_spaces_None)
    moreover have "\<not> suffix t s" if "t \<in> set space_encodings" for t
    proof -
      have "rev s = strip_tokens (map rev space_encodings) (rev (TrimLeftSpace s))"
        using s by (simp add: TrimSpace_def TrimRightSpace_def rev_swap)
      with strip_tokens_stable [of "map rev space_encodings" "rev (TrimLeftSpace s)"] that ne
      show ?thesis by (auto simp: find_spaces_None suffix_to_prefix)
    qed
    ultimately show "\<forall>t \<in> set space_encodings. \<not> prefix t s \<and> \<not> suffix t s" by blast
  next
    assume a: "\<forall>t \<in> set space_encodings. \<not> prefix t s \<and> \<not> suffix t s"
    have "TrimLeftSpace s = s"
      unfolding TrimLeftSpace_def using a by (intro strip_tokens_fixed) (simp add: find_spaces_None)
    moreover have "strip_tokens (map rev space_encodings) (rev s) = rev s"
      using a by (intro strip_tokens_fixed) (auto simp: find_spaces_None suffix_to_prefix)
    ultimately show "TrimSpace s = s" by (simp add: TrimSpace_def TrimRightSpace_def)
  qed
qed

lemma suffix_after: "suffix t (xs @ c # v) \<Longrightarrow> c \<notin> set t \<Longrightarrow> suffix t v"
proof -
  assume a: "suffix t (xs @ c # v)" "c \<notin> set t"
  then consider "suffix t v" | u where "t = u @ v" "suffix u (xs @ [c])"
    using suffix_append [of t "xs @ [c]" v] by auto
  then show ?thesis
  proof cases
    case 2
    then show ?thesis
    proof (cases u rule: rev_cases)
      case (snoc us x)
      with 2(2) have "x = c" by (simp add: suffix_def)
      with 2(1) snoc a(2) show ?thesis by simp
    qed simp
  qed simp
qed

definition cli_keys :: "string list" where
  "cli_keys = [''VREFLINK_GUEST_MOUNT_ROOT'', ''VREFLINK_HOST_CID'', ''VREFLINK_VSOCK_PORT'',
     ''VREFLINK_CLIENT_TIMEOUT'', ''VREFLINK_AUTH_TOKEN'']"

definition env_line :: "string \<times> string \<Rightarrow> string" where
  "env_line kv = fst kv @ CHR ''='' # snd kv"

lemma cli_key_facts:
  "k \<in> set cli_keys \<Longrightarrow> hd k = CHR ''V'' \<and> k \<noteq> [] \<and> CHR ''='' \<notin> set k \<and> CHR '' '' \<notin> set k \<and>
     CHR 0x09 \<notin> set k \<and> CHR 0x0A \<notin> set k \<and> TrimSpace k = k \<and> length k < 30"
proof -
  have "list_all (\<lambda>k. hd k = CHR ''V'' \<and> k \<noteq> [] \<and> CHR ''='' \<notin> set k \<and> CHR '' '' \<notin> set k \<and>
     CHR 0x09 \<notin> set k \<and> CHR 0x0A \<notin> set k \<and> TrimSpace k = k \<and> length k < 30) cli_keys" by code_simp
  then show "k \<in> set cli_keys \<Longrightarrow> ?thesis" by (simp add: list_all_iff)
qed

lemma env_line_trimmed:
  assumes "k \<in> set cli_keys" "TrimSpace v = v"
  shows "TrimSpace (env_line (k, v)) = env_line (k, v)"
  unfolding trimmed_iff
proof (intro ballI conjI)
  fix t assume t: "t \<in> set space_encodings"
  have "list_all (\<lambda>t. t \<noteq> [] \<and> hd t \<noteq> CHR ''V'' \<and> CHR ''='' \<notin> set t) space_encodings" by code_simp
  with t have tf: "t \<noteq> []" "hd t \<noteq> CHR ''V''" "CHR ''='' \<notin> set t" by (simp_all add: list_all_iff)
  show "\<not> prefix t (env_line (k, v))"
  proof
    assume "prefix t (env_line (k, v))"
    then have "hd (env_line (k, v)) = hd t" using tf(1) by (auto simp: prefix_def hd_append)
    with tf(2) cli_key_facts [OF assms(1)] show False by (simp add: env_line_def)
  qed
  show "\<not> suffix t (env_line (k, v))"
    using suffix_after [of t k "CHR ''=''" v] tf(3) t assms(2) by (auto simp: trimmed_iff env_line_def)
qed

lemma parseEnvLine_entry:
  assumes "k \<in> set cli_keys" "TrimSpace v = v"
  shows "parseEnvLine (env_line (k, v)) = Inr (Some (k, v))"
proof -
  let ?l = "env_line (k, v)"
  note k = cli_key_facts [OF assms(1)]
  have l: "?l \<noteq> []" "hd ?l = CHR ''V''" using k by (simp_all add: env_line_def)
  then have "\<not> has_prefix ?l ''#''" "\<not> has_prefix ?l ''export ''" "\<not> has_prefix ?l (''export'' @ [CHR 0x09])"
    by (cases ?l; simp)+
  moreover have "takeWhile (\<lambda>c. c \<noteq> CHR ''='') ?l = k" "dropWhile (\<lambda>c. c \<noteq> CHR ''='') ?l = CHR ''='' # v"
    using k by (auto simp: env_line_def takeWhile_append dropWhile_append)
  moreover have env_line_in: "CHR ''='' \<in> set ?l" by (simp add: env_line_def)
  ultimately show ?thesis
    using l k assms(2) env_line_in by (simp add: parseEnvLine_def env_line_trimmed [OF assms] Let_def)
qed

text \<open>The settings of a configuration as entries, and the file that holds them.\<close>

definition cli_env :: "CLI \<Rightarrow> (string \<times> string) list" where
  "cli_env cfg = zip cli_keys
     [GuestMountRoot cfg, show_nat (unat (CLIHostCID cfg)), show_nat (unat (VsockPort cfg)),
      show_nat (nat (CLITimeout cfg)) @ ''ns'', AuthToken cfg]"

definition cli_env_file :: "CLI \<Rightarrow> bytes" where
  "cli_env_file cfg = join_with (CHR 0x0A) (map env_line (cli_env cfg))"

definition env_writable :: "CLI \<Rightarrow> bool" where
  "env_writable cfg \<longleftrightarrow> 0 \<le> CLITimeout cfg \<and> int64 (CLITimeout cfg) \<and>
     (\<forall>v \<in> {GuestMountRoot cfg, AuthToken cfg}. TrimSpace v = v \<and> CHR 0x0A \<notin> set v \<and> length v < 60000)"

lemma show_nat_all_digits: "c \<in> set (show_nat n) \<Longrightarrow> is_digit c"
proof (induction n rule: show_nat.induct)
  case (1 n)
  then show ?case
    by (cases "n < 10") (auto simp: show_nat.simps [of n] digit_char_facts)
qed

lemma plain_ascii_trimmed:
  assumes "\<forall>c \<in> set s. is_digit c \<or> c = CHR ''n'' \<or> c = CHR ''s''"
  shows "TrimSpace s = s" "CHR 0x0A \<notin> set s"
proof -
  have "list_all (\<lambda>t. t \<noteq> [] \<and> list_all (\<lambda>c. \<not> is_digit c \<and> c \<noteq> CHR ''n'' \<and> c \<noteq> CHR ''s'') t) space_encodings"
    by code_simp
  then have "t \<noteq> [] \<and> (\<forall>c \<in> set t. \<not> (is_digit c \<or> c = CHR ''n'' \<or> c = CHR ''s''))"
    if "t \<in> set space_encodings" for t using that by (auto simp: list_all_iff)
  with assms show "TrimSpace s = s"
    unfolding trimmed_iff by (metis list.set_intros(1) neq_Nil_conv set_mono_prefix set_mono_suffix subsetD)
  have "\<not> is_digit (CHR 0x0A)" by (simp add: is_digit_def ord_def)
  with assms show "CHR 0x0A \<notin> set s" by auto
qed

lemma cli_env_facts:
  assumes "env_writable cfg" "(k, v) \<in> set (cli_env cfg)"
  shows "k \<in> set cli_keys" "TrimSpace v = v" "CHR 0x0A \<notin> set v"
proof -
  from assms(2) show "k \<in> set cli_keys" unfolding cli_env_def by (blast dest: set_zip_leftD)
  have "v \<in> {GuestMountRoot cfg, AuthToken cfg} \<or> (\<forall>c \<in> set v. is_digit c \<or> c = CHR ''n'' \<or> c = CHR ''s'')"
    using assms(2) show_nat_all_digits by (auto simp: cli_env_def cli_keys_def)
  then show "TrimSpace v = v" "CHR 0x0A \<notin> set v"
    using plain_ascii_trimmed [of v] assms(1) by (auto simp: env_writable_def)
qed

lemma show_nat_short: "n < 2 ^ 64 \<Longrightarrow> length (show_nat n) \<le> 20"
  by (rule length_show_nat) auto

lemma unat_u32 [simp]: "unat (w::u32) < 2 ^ 32"
proof -
  have "unat w < 2 ^ LENGTH(32)" by (rule unsigned_less)
  then show ?thesis by simp
qed

lemma ParseUint32_u32 [simp]: "ParseUint32 (show_nat (unat (w::u32))) = Inr (int (unat w))"
  by (rule ParseUint32_show) (rule unat_u32)

lemma cli_env_short:
  assumes "env_writable cfg" "(k, v) \<in> set (cli_env cfg)"
  shows "length (env_line (k, v)) < 65536"
proof -
  have u: "unat (x::u32) < 2 ^ 64" for x using unat_u32 [of x] by simp
  have "nat (CLITimeout cfg) < 2 ^ 64" using assms(1) by (auto simp: env_writable_def int64_def)
  from show_nat_short [OF this] have t: "length (show_nat (nat (CLITimeout cfg)) @ ''ns'') < 60000" by simp
  have "length (show_nat (unat (x::u32))) < 60000" for x using show_nat_short [OF u [of x]] by simp
  with t assms have "length v < 60000" by (auto simp: cli_env_def cli_keys_def env_writable_def)
  with cli_key_facts [OF cli_env_facts(1) [OF assms]] show ?thesis by (simp add: env_line_def)
qed

lemma drop_cr_trimmed: "TrimSpace s = s \<Longrightarrow> drop_cr s = s"
proof (rule ccontr)
  assume s: "TrimSpace s = s" "drop_cr s \<noteq> s"
  then have "suffix [CHR 0x0D] s"
    by (auto simp: drop_cr_def suffix_def split: if_splits intro!: exI [of _ "butlast s"]) (metis append_butlast_last_id)
  moreover have "[CHR 0x0D] \<in> set space_encodings" by (simp add: space_encodings_def)
  ultimately show False using s(1) trimmed_iff [of s] by blast
qed

lemma scan_cli_env:
  assumes "env_writable cfg"
  shows "scan_lines (cli_env_file cfg) = (map env_line (cli_env cfg), None)"
proof -
  let ?ls = "map env_line (cli_env cfg)"
  have line: "CHR 0x0A \<notin> set l \<and> l \<noteq> [] \<and> drop_cr l = l \<and> length l < 65536" if "l \<in> set ?ls" for l
  proof -
    from that obtain k v where kv: "(k, v) \<in> set (cli_env cfg)" "l = env_line (k, v)" by auto
    note f = cli_env_facts [OF assms kv(1)]
    from env_line_trimmed [OF f(1,2)] have "drop_cr l = l" by (simp add: kv(2) drop_cr_trimmed)
    with f cli_key_facts [OF f(1)] cli_env_short [OF assms kv(1)] show ?thesis
      by (simp add: kv(2)) (simp add: env_line_def)
  qed
  have ne: "?ls \<noteq> []" by (simp add: cli_env_def cli_keys_def)
  have split: "split_on (CHR 0x0A) (cli_env_file cfg) = ?ls"
    unfolding cli_env_file_def by (rule split_join [OF ne]) (use line in blast)
  have "last ?ls \<noteq> []" using line last_in_set [OF ne] by blast
  moreover have "takeWhile (\<lambda>l. length l < 65536) ?ls = ?ls" using line by (simp add: takeWhile_eq_all_conv)
  moreover have "map drop_cr ?ls = ?ls" by (rule map_idI) (use line in blast)
  ultimately show ?thesis by (simp only: scan_lines_def split Let_def if_False refl if_True)
qed

lemma of_unat [simp]: "word_of_int (int (unat (w::u32))) = w"
  by (simp add: word_of_int_eq_iff)

lemma ParseDuration_env:
  "env_writable cfg \<Longrightarrow> ParseDuration (show_nat (nat (CLITimeout cfg)) @ ''ns'') = Inr (CLITimeout cfg)"
  using ParseDuration_show [of "nat (CLITimeout cfg)"] by (auto simp: env_writable_def int64_def)

lemma cli_env_applied:
  assumes "env_writable cfg"
  shows "env_lines_loop path n base (map env_line (cli_env cfg)) = (cfg, None)"
proof -
  have p: "\<And>k v. (k, v) \<in> set (cli_env cfg) \<Longrightarrow> parseEnvLine (env_line (k, v)) = Inr (Some (k, v))"
    using parseEnvLine_entry cli_env_facts [OF assms] by blast
  then show ?thesis
    using ParseDuration_env [OF assms]
    by (simp add: cli_env_def cli_keys_def applyCLILegacyEnvEntry_def)
qed


definition ex_cfg :: CLI where
  "ex_cfg = \<lparr>GuestMountRoot = ''/mnt'', CLIHostCID = 4294967295, VsockPort = 0, CLITimeout = 1500,
     AuthToken = ''t=x y''\<rparr>"

definition ex_env :: "bytes \<Rightarrow> fsys" where
  "ex_env data = \<lparr>nodes = [([], \<lparr>ntype = TDir, nperm = 0x1ED, ndata = [], nlink = 1\<rparr>),
       ([''env''], \<lparr>ntype = TReg, nperm = 0x1A4, ndata = data, nlink = 0\<rparr>)],
     cwd = Inr ''/'', umask = 0x12, fault = (\<lambda>_. None)\<rparr>"


end
