(* ===== verification/Sha256.thy ===== *)
theory Sha256
  imports Go_Strings
begin

section \<open>SHA-256 and hexadecimal text (crypto/sha256, encoding/hex)\<close>

text \<open>
  The hash the release pipeline publishes, as FIPS 180-4 defines it: the message is padded to
  blocks of 64 bytes, and each block is compressed into eight 32-bit words in 64 rounds.
\<close>

unbundle bit_operations_syntax

definition rotr :: "nat \<Rightarrow> u32 \<Rightarrow> u32" where
  "rotr n x = drop_bit n x OR push_bit (32 - n) x"

text \<open>
  The constants are the first 32 fractional bits of the roots of the first primes: \<open>root_scan k n b r\<close>
  adds to \<open>r\<close> the bits below \<open>b\<close> of the integer \<open>k\<close>-th root of \<open>n\<close>, and the word keeps the low 32.
\<close>

fun root_scan :: "nat \<Rightarrow> int \<Rightarrow> nat \<Rightarrow> int \<Rightarrow> int" where
  "root_scan k n 0 r = r"
| "root_scan k n (Suc b) r = root_scan k n b (if (r + 2 ^ b) ^ k \<le> n then r + 2 ^ b else r)"

definition root_bits :: "nat \<Rightarrow> nat \<Rightarrow> u32" where
  "root_bits k p = word_of_int (root_scan k (int p * 2 ^ (32 * k)) 35 0)"

definition small_primes :: "nat list" where
  "small_primes = filter (\<lambda>p. list_all (\<lambda>d. \<not> d dvd p) [2..<p]) [2..<312]"

definition sha_K :: "u32 list" where
  "sha_K = map (root_bits 3) small_primes"

definition sha_init :: "u32 list" where
  "sha_init = map (root_bits 2) [2, 3, 5, 7, 11, 13, 17, 19]"

text \<open>The bit one, zeros up to 8 bytes below a block, and the length in bits.\<close>

definition sha_pad :: "bytes \<Rightarrow> bytes" where
  "sha_pad m =
     (let bits = 8 * length m in
      m @ CHR 0x80 # replicate ((119 - length m mod 64) mod 64) (CHR 0x00) @
      PutUint32 (of_nat (bits div 2 ^ 32)) @ PutUint32 (of_nat bits))"

fun chunks :: "nat \<Rightarrow> nat \<Rightarrow> 'a list \<Rightarrow> 'a list list" where
  "chunks k 0 xs = []"
| "chunks k (Suc n) xs = take k xs # chunks k n (drop k xs)"

text \<open>The message schedule, its last sixteen words newest first.\<close>

definition next_word :: "u32 list \<Rightarrow> u32" where
  "next_word ws =
     (let a = ws ! 14; b = ws ! 1;
          s0 = rotr 7 a XOR rotr 18 a XOR drop_bit 3 a;
          s1 = rotr 17 b XOR rotr 19 b XOR drop_bit 10 b
      in ws ! 15 + s0 + ws ! 6 + s1)"

fun schedule :: "nat \<Rightarrow> u32 list \<Rightarrow> u32 list" where
  "schedule 0 ws = rev ws"
| "schedule (Suc n) ws = schedule n (next_word ws # ws)"

fun sha_round :: "u32 list \<Rightarrow> u32 \<times> u32 \<Rightarrow> u32 list" where
  "sha_round [a, b, c, d, e, f, g, h] (k, w) =
     (let s1 = rotr 6 e XOR rotr 11 e XOR rotr 25 e;
          ch = (e AND f) XOR (NOT e AND g);
          t1 = h + s1 + ch + k + w;
          s0 = rotr 2 a XOR rotr 13 a XOR rotr 22 a;
          maj = (a AND b) XOR (a AND c) XOR (b AND c)
      in [t1 + (s0 + maj), a, b, c, d + t1, e, f, g])"
| "sha_round st _ = st"

definition sha_block :: "u32 list \<Rightarrow> bytes \<Rightarrow> u32 list" where
  "sha_block st block =
     (let ws = schedule 48 (rev (map Uint32 (chunks 4 16 block)))
      in map2 (+) st (foldl sha_round st (zip sha_K ws)))"

definition sha256 :: "bytes \<Rightarrow> bytes" where
  "sha256 m =
     (let p = sha_pad m
      in concat (map PutUint32 (foldl sha_block sha_init (chunks 64 (length p div 64) p))))"

text \<open>\<open>hex.EncodeToString\<close>.\<close>

definition hex_char :: "nat \<Rightarrow> char" where
  "hex_char d = ''0123456789abcdef'' ! d"

definition EncodeToString :: "bytes \<Rightarrow> string" where
  "EncodeToString bs = concat (map (\<lambda>b. [hex_char (of_char b div 16), hex_char (of_char b mod 16)]) bs)"

subsection \<open>The length of a hash and the bytes of its text\<close>

lemma length_sha_round: "length (sha_round st x) = length st"
  by (induction st x rule: sha_round.induct) (simp_all add: Let_def)

lemma length_schedule: "length (schedule n ws) = n + length ws"
  by (induction n ws rule: schedule.induct) auto

lemma length_rounds: "length (foldl sha_round st xs) = length st"
  by (induction xs arbitrary: st) (simp_all add: length_sha_round)

lemma length_sha_blocks: "length (foldl sha_block st bs) = length st"
  by (induction bs arbitrary: st) (simp_all add: sha_block_def length_rounds Let_def)

lemma length_sha_pad: "length (sha_pad m) mod 64 = 0"
proof -
  define r where "r = length m mod 64"
  have r: "r < 64" by (simp add: r_def)
  have "(119 - r) mod 64 = (if r \<le> 55 then 55 - r else 119 - r)"
    using r by (simp add: le_mod_geq)
  then have "(r + (9 + (119 - r) mod 64)) mod 64 = 0" using r by (auto split: if_splits)
  then have "(length m + (9 + (119 - r) mod 64)) mod 64 = 0" unfolding r_def by (metis mod_add_left_eq)
  then show ?thesis by (simp add: sha_pad_def Let_def r_def add.assoc)
qed

lemma length_concat_4: "\<forall>x \<in> set xs. length (f x) = 4 \<Longrightarrow> length (concat (map f xs)) = 4 * length xs"
  by (induction xs) auto

lemma length_sha256 [simp]: "length (sha256 m) = 32"
  by (simp add: sha256_def Let_def length_concat_4 length_sha_blocks sha_init_def)

lemma length_EncodeToString [simp]: "length (EncodeToString bs) = 2 * length bs"
  by (induction bs) (simp_all add: EncodeToString_def)

lemma EncodeToString_chars: "c \<in> set (EncodeToString bs) \<Longrightarrow> \<exists>d < 16. c = hex_char d"
proof -
  have "of_char b div 16 < (16::nat)" for b using nat_of_char_less_256 [of b] by linarith
  moreover have "of_char b mod 16 < (16::nat)" for b :: char by simp
  moreover assume "c \<in> set (EncodeToString bs)"
  ultimately show ?thesis unfolding EncodeToString_def by (auto simp del: mod_less_divisor)
qed

lemma hex_char_inject: "a < 16 \<Longrightarrow> b < 16 \<Longrightarrow> hex_char a = hex_char b \<longleftrightarrow> a = b"
  unfolding hex_char_def by (rule nth_eq_iff_index_eq) simp_all

text \<open>Two hashes have the same text only if they are the same.\<close>

lemma EncodeToString_inject: "EncodeToString xs = EncodeToString ys \<longleftrightarrow> xs = ys"
proof (induction xs arbitrary: ys)
  case Nil
  show ?case by (cases ys) (simp_all add: EncodeToString_def)
next
  case (Cons x xs)
  show ?case
  proof (cases ys)
    case (Cons y ys')
    have lt: "of_char c div 16 < (16::nat)" "of_char c mod 16 < (16::nat)" for c
      using nat_of_char_less_256 [of c] by linarith+
    have "of_char x = (of_char y :: nat) \<longleftrightarrow>
        of_char x div 16 = (of_char y div 16 :: nat) \<and> of_char x mod 16 = (of_char y mod 16 :: nat)"
      by (metis div_mult_mod_eq)
    with Cons Cons.IH [of ys'] lt show ?thesis
      by (simp add: EncodeToString_def hex_char_inject)
  qed (simp add: EncodeToString_def)
qed

end
