(* ===== verification/Dev_Support.thy ===== *)
theory Dev_Support
  imports Temp_File Reflink Sha256
begin

section \<open>Commands and executables (internal/devsupport)\<close>

text \<open>
  What the development tools share: running a command, finding an executable, hashing a file.
  A command that is started is a parameter, a function \<open>run\<close> from the state and the command to the
  state it leaves, its output and its error; \<open>None\<close> is a command that never ends.  The process
  itself is its environment, its identity and the source file it was built from.
\<close>

unbundle bit_operations_syntax

record process =
  Environ :: "string list"
  Geteuid :: int
  Getuid :: int
  Getgid :: int
  Getgroups :: "go_error + int list"
  Caller :: "string option"

text \<open>\<open>os.Getenv\<close>: the Go runtime keeps the first entry of a variable.\<close>

definition Getenv :: "process \<Rightarrow> string \<Rightarrow> string" where
  "Getenv p key =
     (case find (\<lambda>e. has_prefix e (key @ ''='')) (Environ p) of
        None \<Rightarrow> []
      | Some e \<Rightarrow> drop (Suc (length key)) e)"

definition SourceRepoRoot :: "process \<Rightarrow> go_error + string" where
  "SourceRepoRoot p =
     (case Caller p of
        None \<Rightarrow> Inl (ErrorString ''runtime.Caller() failed'')
      | Some file \<Rightarrow> Inr (Clean (Join [Dir file, ''..'', ''..''])))"

subsection \<open>Commands\<close>

text \<open>An empty directory is the current one, and no environment is that of the process.\<close>

record cmd =
  cmdDir :: string
  cmdEnv :: "string list option"
  cmdName :: string
  cmdArgs :: "string list"

record CommandResult =
  Stdout :: string
  Stderr :: string

type_synonym 's runner = "'s \<Rightarrow> cmd \<Rightarrow> ('s \<times> CommandResult \<times> go_error option) option"

definition RunCommand :: "'s runner \<Rightarrow> 's \<Rightarrow> string \<Rightarrow> string list option \<Rightarrow> string \<Rightarrow> string list \<Rightarrow>
    ('s \<times> CommandResult \<times> go_error option) option" where
  "RunCommand run s dir env name args =
     run s \<lparr>cmdDir = dir, cmdEnv = env, cmdName = name, cmdArgs = args\<rparr>"

text \<open>The output goes to the two writers as the command writes it.\<close>

definition RunCommandStreaming :: "'s runner \<Rightarrow> 's \<times> string \<times> string \<Rightarrow> string \<Rightarrow> string list option \<Rightarrow>
    string \<Rightarrow> string list \<Rightarrow> (('s \<times> string \<times> string) \<times> go_error option) option" where
  "RunCommandStreaming run s dir env name args =
     (case s of (st, stdout, stderr) \<Rightarrow>
      case run st \<lparr>cmdDir = dir, cmdEnv = env, cmdName = name, cmdArgs = args\<rparr> of
        None \<Rightarrow> None
      | Some (st', res, err) \<Rightarrow> Some ((st', stdout @ Stdout res, stderr @ Stderr res), err))"

subsection \<open>exec.LookPath\<close>

definition ENOSYS :: errno where "ENOSYS = OtherErrno 38"

text \<open>The kernel lets nobody execute a file that has no executable bit.\<close>

definition eaccess :: "fsys \<Rightarrow> string \<Rightarrow> node \<Rightarrow> errno option" where
  "eaccess w p m =
     (case fault w (SysAccess p) of
        Some e \<Rightarrow> Some e
      | None \<Rightarrow> if nperm m AND 0x49 = 0 then Some EACCES else None)"

definition findExecutable :: "fsys \<Rightarrow> string \<Rightarrow> go_error option" where
  "findExecutable w p =
     (case os_Stat w p of
        Inl err \<Rightarrow> Some err
      | Inr m \<Rightarrow>
          if IsDir m then Some (Errno EISDIR)
          else (case eaccess w p m of
                  None \<Rightarrow> None
                | Some e \<Rightarrow>
                    if e \<noteq> ENOSYS \<and> e \<noteq> EPERM then Some (Errno e)
                    else if nperm m AND 0x49 \<noteq> 0 then None
                    else Some (Sentinel FsErrPermission)))"

definition exec_error :: "string \<Rightarrow> string \<Rightarrow> go_error" where
  "exec_error file msg = WrapErr (''exec: '' @ Quote file @ '': '' @ msg) [ErrorString msg]"

fun lookpath_loop :: "fsys \<Rightarrow> string \<Rightarrow> string list \<Rightarrow> go_error + string" where
  "lookpath_loop w file [] = Inl (exec_error file ''executable file not found in $PATH'')"
| "lookpath_loop w file (dir # dirs) =
     (let path = Join [if dir = [] then ''.'' else dir, file] in
      if findExecutable w path = None then
        (if IsAbs path then Inr path
         else Inl (exec_error file ''cannot run executable found relative to current directory''))
      else lookpath_loop w file dirs)"

text \<open>\<open>exec.LookPath\<close> of a name without a separator.\<close>

definition LookPath :: "process \<Rightarrow> fsys \<Rightarrow> string \<Rightarrow> go_error + string" where
  "LookPath p w file =
     lookpath_loop w file (if Getenv p ''PATH'' = [] then [] else split_on CHR '':'' (Getenv p ''PATH''))"

fun LookPathAny :: "process \<Rightarrow> fsys \<Rightarrow> string list \<Rightarrow> string option" where
  "LookPathAny p w [] = None"
| "LookPathAny p w (path # paths) =
     (if sep \<in> set path then
        (case os_Stat w path of
           Inr info \<Rightarrow> if \<not> IsDir info then Some path else LookPathAny p w paths
         | Inl _ \<Rightarrow> LookPathAny p w paths)
      else
        (case LookPath p w path of
           Inr resolved \<Rightarrow> Some resolved
         | Inl _ \<Rightarrow> LookPathAny p w paths))"

definition HashFile :: "fsys \<Rightarrow> string \<Rightarrow> go_error + string" where
  "HashFile w path =
     (case os_ReadFile w path of
        Inl err \<Rightarrow> Inl err
      | Inr data \<Rightarrow> Inr (EncodeToString (sha256 data)))"

subsection \<open>Temporary directories, removal of trees, new files (package os)\<close>

function mkdirtemp_loop :: "(nat \<Rightarrow> u32) \<Rightarrow> string \<Rightarrow> string \<Rightarrow> nat \<Rightarrow> fsys \<Rightarrow> fsys \<times> (go_error + string)" where
  "mkdirtemp_loop rnd dir pre tries w =
     (let name = pre @ show_nat (unat (rnd tries)) in
      case os_Mkdir w name 0x1C0 of
        (w1, None) \<Rightarrow> (w1, Inr name)
      | (w1, Some err) \<Rightarrow>
          if os_IsExist err then
            (if Suc tries < 10000 then mkdirtemp_loop rnd dir pre (Suc tries) w1
             else (w1, Inl (PathError ''mkdirtemp'' (dir @ sep # pre @ ''*'') (Sentinel FsErrExist))))
          else if os_IsNotExist err then
            (case os_Stat w1 dir of
               Inl serr \<Rightarrow> (w1, Inl (if os_IsNotExist serr then serr else err))
             | Inr _ \<Rightarrow> (w1, Inl err))
          else (w1, Inl err))"
  by pat_completeness auto
termination
  by (relation "measure (\<lambda>(rnd, dir, pre, tries, w). 10000 - tries)") auto

declare mkdirtemp_loop.simps [simp del]

definition os_MkdirTemp :: "(nat \<Rightarrow> u32) \<Rightarrow> fsys \<Rightarrow> string \<Rightarrow> string \<Rightarrow> fsys \<times> (go_error + string)" where
  "os_MkdirTemp rnd w dir pre = mkdirtemp_loop rnd dir (temp_prefix dir pre) 0 w"

text \<open>
  \<open>os.RemoveAll\<close> removes what it can: a place below the root of the removal stays if its own
  removal, or that of a place below it, fails.  The error is that of a place that failed.
\<close>

definition path_below :: "string \<Rightarrow> key \<Rightarrow> string" where
  "path_below p x = (if x = [] then p else p @ sep # join_with sep x)"

definition stuck :: "fsys \<Rightarrow> string \<Rightarrow> key \<Rightarrow> key \<Rightarrow> errno option" where
  "stuck w p k q =
     (if prefix k q then fault w (SysRemove (path_below p (drop (length k) q))) else None)"

definition remove_below :: "fsys \<Rightarrow> string \<Rightarrow> key \<Rightarrow> fsys" where
  "remove_below w p k =
     w\<lparr>nodes := filter (\<lambda>(q, n). \<not> (prefix k q \<and>
         list_all (\<lambda>(r, m). prefix q r \<longrightarrow> stuck w p k r = None) (nodes w))) (nodes w)\<rparr>"

definition os_RemoveAll :: "fsys \<Rightarrow> string \<Rightarrow> fsys \<times> go_error option" where
  "os_RemoveAll w p =
     (if p = [] then (w, None)
      else if p = ''.'' \<or> has_prefix (rev p) ''./'' then (w, Some (path_error ''RemoveAll'' p EINVAL))
      else case find_node w p False of
        Inl e \<Rightarrow> (w, if e = ENOENT then None else Some (path_error ''unlinkat'' p e))
      | Inr (k, n) \<Rightarrow>
          (remove_below w p k,
           case List.map_filter (\<lambda>(q, m). stuck w p k q) (nodes w) of
             [] \<Rightarrow> None
           | e # es \<Rightarrow> Some (path_error ''unlinkat'' p e)))"

text \<open>\<open>os.Create\<close> truncates a file that is there, following links.\<close>

definition os_Create :: "fsys \<Rightarrow> string \<Rightarrow> fsys \<times> (go_error + key)" where
  "os_Create w p =
     (case guarded w (SysCreate p) (resolve w p True) of
        Inl e \<Rightarrow> (w, Inl (path_error ''open'' p e))
      | Inr k \<Rightarrow>
          let n = (case node_at w k of None \<Rightarrow> new_file w 0x1B6 | Some m \<Rightarrow> m) in
          if ntype n = TDir then (w, Inl (path_error ''open'' p EISDIR))
          else (put_node w k (n\<lparr>ndata := []\<rparr>), Inr k))"

definition file_Truncate :: "fsys \<Rightarrow> string \<Rightarrow> key \<Rightarrow> nat \<Rightarrow> fsys \<times> go_error option" where
  "file_Truncate w p k len =
     (case (case fault w (SysTruncate p) of
              Some e \<Rightarrow> Inl e
            | None \<Rightarrow> (case node_at w k of None \<Rightarrow> Inl EBADF | Some n \<Rightarrow> Inr n)) of
        Inl e \<Rightarrow> (w, Some (path_error ''truncate'' p e))
      | Inr n \<Rightarrow>
          (put_node w k (n\<lparr>ndata := take len (ndata n) @
             replicate (len - length (ndata n)) (CHR 0x00)\<rparr>), None))"

end
