(* ===== verification/Release.thy ===== *)
theory Release
  imports Dev_Support Tree_Walk
begin

section \<open>Release artifacts (internal/releasebuild)\<close>

text \<open>
  \<open>build.go\<close>: \<open>Build\<close> stages the files of a release in a work directory, packs them into a tarball
  and a Debian package and publishes their checksums; \<open>VerifyChecksums\<close> and \<open>ReadTarballEntries\<close>
  read the results.  Parameters are the commands that run (\<open>run\<close>: the Go tool and dpkg-deb), the
  embedded texts (\<open>assets\<close>) and the bytes of the archive: \<open>enc\<close> is what the gzip and tar writers have
  passed on to the file after a sequence of events, \<open>untar\<close> the names of the headers that their
  readers find, with the error that ends them.
\<close>

unbundle bit_operations_syntax

definition SupportedArch :: string where "SupportedArch = ''amd64''"

record Options =
  Version_opt :: string
  Arch :: string
  OutDir :: string

record Artifacts =
  TarballPath :: string
  DebPath :: string
  ChecksumsPath :: string

text \<open>The embedded texts of package \<open>packaging\<close>.\<close>

record assets =
  SystemdUnitTemplate :: bytes
  DaemonConfigTemplate :: bytes
  GuestConfigTemplate :: bytes
  DebConffiles :: bytes
  DebControlTemplate :: bytes
  DebPrerm :: bytes
  DebPostrm :: bytes

subsection \<open>strings.Fields and strings.ReplaceAll\<close>

text \<open>One byte at a time: \<open>acc\<close> is the field so far, reversed, and \<open>k\<close> the bytes of a space to skip.\<close>

fun fields_scan :: "string \<Rightarrow> nat \<Rightarrow> string \<Rightarrow> string list" where
  "fields_scan acc k [] = (if acc = [] then [] else [rev acc])"
| "fields_scan acc (Suc k) (c # cs) = fields_scan acc k cs"
| "fields_scan acc 0 (c # cs) =
     (case find (\<lambda>t. t \<noteq> [] \<and> has_prefix (c # cs) t) space_encodings of
        None \<Rightarrow> fields_scan (c # acc) 0 cs
      | Some t \<Rightarrow> (if acc = [] then [] else [rev acc]) @ fields_scan [] (length t - 1) cs)"

definition Fields :: "string \<Rightarrow> string list" where
  "Fields s = fields_scan [] 0 s"

fun replace_scan :: "string \<Rightarrow> string \<Rightarrow> nat \<Rightarrow> string \<Rightarrow> string" where
  "replace_scan old new k [] = []"
| "replace_scan old new (Suc k) (c # cs) = replace_scan old new k cs"
| "replace_scan old new 0 (c # cs) =
     (if has_prefix (c # cs) old then new @ replace_scan old new (length old - 1) cs
      else c # replace_scan old new 0 cs)"

text \<open>The program replaces non-empty texts only.\<close>

definition ReplaceAll :: "string \<Rightarrow> string \<Rightarrow> string \<Rightarrow> string" where
  "ReplaceAll s old new = replace_scan old new 0 s"

subsection \<open>Files\<close>

definition writeFile :: "fsys \<Rightarrow> string \<Rightarrow> bytes \<Rightarrow> FileMode \<Rightarrow> fsys \<times> go_error option" where
  "writeFile w path data mode =
     (case os_MkdirAll w (Dir path) 0x1ED of
        (w1, Some err) \<Rightarrow>
          (w1, Some (WrapErr (''create parent for '' @ path @ '': '' @ error_msg err) [err]))
      | (w1, None) \<Rightarrow>
          (case os_WriteFile w1 path data mode of
             (w2, Some err) \<Rightarrow> (w2, Some (WrapErr (''write '' @ path @ '': '' @ error_msg err) [err]))
           | (w2, None) \<Rightarrow> (w2, None)))"

definition copyFile :: "fsys \<Rightarrow> string \<Rightarrow> string \<Rightarrow> FileMode \<Rightarrow> fsys \<times> go_error option" where
  "copyFile w srcPath dstPath mode =
     (case os_ReadFile w srcPath of
        Inl err \<Rightarrow> (w, Some (WrapErr (''read '' @ srcPath @ '': '' @ error_msg err) [err]))
      | Inr data \<Rightarrow> writeFile w dstPath data mode)"

definition hashFile :: "fsys \<Rightarrow> string \<Rightarrow> go_error + string" where
  "hashFile w path =
     (case os_ReadFile w path of
        Inl err \<Rightarrow> Inl (WrapErr (''read '' @ path @ '': '' @ error_msg err) [err])
      | Inr data \<Rightarrow> Inr (EncodeToString (sha256 data)))"

subsection \<open>The tar writer\<close>

datatype tar_type = TypeReg | TypeDir | TypeSymlink

record tar_header =
  hdrName :: string
  hdrType :: tar_type
  hdrMode :: FileMode
  hdrSize :: nat

datatype tar_event = THeader tar_header | TData bytes | TTrailer | TGzipEnd

type_synonym encoder = "tar_event list \<Rightarrow> bytes"

text \<open>
  The two writers over a file: what they were given, the bytes of the current entry that are still
  missing, and the error of a failed write to the file, which both keep.
\<close>

record tar_writer =
  twEvents :: "tar_event list"
  twLeft :: nat
  twErr :: "go_error option"

definition tw_new :: tar_writer where
  "tw_new = \<lparr>twEvents = [], twLeft = 0, twErr = None\<rparr>"

text \<open>An event writes to the file what the encoder has passed on since the last one.\<close>

definition tw_emit :: "encoder \<Rightarrow> string \<Rightarrow> key \<Rightarrow> fsys \<times> tar_writer \<Rightarrow> tar_event \<Rightarrow>
    (fsys \<times> tar_writer) \<times> go_error option" where
  "tw_emit enc dst k s e =
     (case s of (w, tw) \<Rightarrow>
      case twErr tw of
        Some err \<Rightarrow> ((w, tw), Some err)
      | None \<Rightarrow>
          let es = twEvents tw @ [e]; new = drop (length (enc (twEvents tw))) (enc es) in
          if new = [] then ((w, tw\<lparr>twEvents := es\<rparr>), None)
          else (case file_Write w dst k new of
                  (w1, Some err) \<Rightarrow> ((w1, tw\<lparr>twErr := Some err\<rparr>), Some err)
                | (w1, None) \<Rightarrow> ((w1, tw\<lparr>twEvents := es\<rparr>), None)))"

definition tw_flush :: "tar_writer \<Rightarrow> go_error option" where
  "tw_flush tw =
     (case twErr tw of
        Some err \<Rightarrow> Some err
      | None \<Rightarrow>
          if 0 < twLeft tw
          then Some (ErrorString (''archive/tar: missed writing '' @ show_nat (twLeft tw) @ '' bytes''))
          else None)"

definition tw_WriteHeader :: "encoder \<Rightarrow> string \<Rightarrow> key \<Rightarrow> fsys \<times> tar_writer \<Rightarrow> tar_header \<Rightarrow>
    (fsys \<times> tar_writer) \<times> go_error option" where
  "tw_WriteHeader enc dst k s h =
     (case tw_flush (snd s) of
        Some err \<Rightarrow> (s, Some err)
      | None \<Rightarrow>
          (case tw_emit enc dst k s (THeader h) of
             (s1, Some err) \<Rightarrow> (s1, Some err)
           | ((w1, tw1), None) \<Rightarrow> ((w1, tw1\<lparr>twLeft := hdrSize h\<rparr>), None)))"

text \<open>\<open>io.Copy\<close> into the writer, which takes no more than the header announced.\<close>

definition tw_Write :: "encoder \<Rightarrow> string \<Rightarrow> key \<Rightarrow> fsys \<times> tar_writer \<Rightarrow> bytes \<Rightarrow>
    (fsys \<times> tar_writer) \<times> go_error option" where
  "tw_Write enc dst k s data =
     (case s of (w, tw) \<Rightarrow>
      case twErr tw of
        Some err \<Rightarrow> (s, Some err)
      | None \<Rightarrow>
          let b = take (twLeft tw) data;
              over = (if twLeft tw < length data
                      then Some (ErrorString ''archive/tar: write too long'') else None) in
          if b = [] then (s, over)
          else (case tw_emit enc dst k s (TData b) of
                  (s1, Some err) \<Rightarrow> (s1, Some err)
                | ((w1, tw1), None) \<Rightarrow> ((w1, tw1\<lparr>twLeft := twLeft tw1 - length b\<rparr>), over)))"

definition tw_Close :: "encoder \<Rightarrow> string \<Rightarrow> key \<Rightarrow> fsys \<times> tar_writer \<Rightarrow>
    (fsys \<times> tar_writer) \<times> go_error option" where
  "tw_Close enc dst k s =
     (case tw_flush (snd s) of
        Some err \<Rightarrow> (s, Some err)
      | None \<Rightarrow> tw_emit enc dst k s TTrailer)"

definition gzip_Close :: "encoder \<Rightarrow> string \<Rightarrow> key \<Rightarrow> fsys \<times> tar_writer \<Rightarrow>
    (fsys \<times> tar_writer) \<times> go_error option" where
  "gzip_Close enc dst k s = tw_emit enc dst k s TGzipEnd"

text \<open>\<open>tar.FileInfoHeader(info, "")\<close>; the name is set by the caller.\<close>

definition tar_mode :: "node \<Rightarrow> FileMode" where
  "tar_mode n = (nperm n AND ModePerm) OR
     (if nperm n AND ModeSetuid \<noteq> 0 then 0x800 else 0) OR
     (if nperm n AND ModeSetgid \<noteq> 0 then 0x400 else 0) OR
     (if nperm n AND ModeSticky \<noteq> 0 then 0x200 else 0)"

definition FileInfoHeader :: "node \<Rightarrow> go_error + tar_header" where
  "FileInfoHeader n =
     (let h = \<lparr>hdrName = [], hdrType = TypeReg, hdrMode = tar_mode n, hdrSize = 0\<rparr> in
      case ntype n of
        TReg \<Rightarrow> Inr (h\<lparr>hdrSize := length (ndata n)\<rparr>)
      | TDir \<Rightarrow> Inr (h\<lparr>hdrType := TypeDir\<rparr>)
      | TSymlink \<Rightarrow> Inr (h\<lparr>hdrType := TypeSymlink\<rparr>)
      | TOther \<Rightarrow> Inl (ErrorString ''archive/tar: unknown file mode''))"

subsection \<open>createTarGz\<close>

text \<open>The data of an open file, as \<open>io.Copy\<close> reads it.\<close>

definition file_read :: "fsys \<Rightarrow> string \<Rightarrow> key \<Rightarrow> go_error + bytes" where
  "file_read w p k =
     (case node_at w k of
        None \<Rightarrow> Inl (path_error ''read'' p EBADF)
      | Some n \<Rightarrow> if ntype n = TDir then Inl (path_error ''read'' p EISDIR) else Inr (ndata n))"

definition tar_copy :: "encoder \<Rightarrow> string \<Rightarrow> key \<Rightarrow> string \<Rightarrow> fsys \<times> tar_writer \<Rightarrow>
    (fsys \<times> tar_writer) \<times> go_error option" where
  "tar_copy enc dst k path s =
     (case os_Open (fst s) path of
        Inl err \<Rightarrow> (s, Some err)
      | Inr src \<Rightarrow>
          (case file_read (fst s) path src of
             Inl err \<Rightarrow> (s, Some err)
           | Inr data \<Rightarrow>
               (case tw_Write enc dst k s data of
                  (s1, Some err) \<Rightarrow> (s1, Some err)
                | (s1, None) \<Rightarrow> (s1, file_Close (fst s1) path))))"

definition tar_visit :: "encoder \<Rightarrow> string \<Rightarrow> key \<Rightarrow> string \<Rightarrow> string \<Rightarrow> (fsys \<times> tar_writer) walk_fn" where
  "tar_visit enc dst k rootName rootDir s path isdir walkErr =
     (case walkErr of
        Some err \<Rightarrow> (s, Some err)
      | None \<Rightarrow>
          (case Rel rootDir path of
             Inl msg \<Rightarrow> (s, Some (ErrorString msg))
           | Inr relPath \<Rightarrow>
               if relPath = ''.'' then (s, None)
               else (case os_Lstat (fst s) path of
                  Inl err \<Rightarrow> (s, Some err)
                | Inr info \<Rightarrow>
                    (case FileInfoHeader info of
                       Inl err \<Rightarrow> (s, Some err)
                     | Inr header \<Rightarrow>
                         let name = ToSlash (Join [rootName, relPath]);
                             header = header\<lparr>hdrName := name @ (if isdir then [sep] else [])\<rparr> in
                         (case tw_WriteHeader enc dst k s header of
                            (s1, Some err) \<Rightarrow> (s1, Some err)
                          | (s1, None) \<Rightarrow>
                              if isdir then (s1, None) else tar_copy enc dst k path s1)))))"

text \<open>The deferred calls close the tar writer, the gzip writer and the file; their errors are dropped.\<close>

definition createTarGz :: "nat \<Rightarrow> encoder \<Rightarrow> fsys \<Rightarrow> string \<Rightarrow> string \<Rightarrow> string \<Rightarrow>
    (fsys \<times> go_error option) option" where
  "createTarGz fuel enc w dstPath rootName rootDir =
     (case os_Create w dstPath of
        (w1, Inl err) \<Rightarrow>
          Some (w1, Some (WrapErr (''create tarball '' @ dstPath @ '': '' @ error_msg err) [err]))
      | (w1, Inr k) \<Rightarrow>
          (case WalkDir fuel (tar_visit enc dstPath k rootName rootDir) (w1, tw_new) rootDir of
             None \<Rightarrow> None
           | Some (s, err) \<Rightarrow>
               let s1 = fst (tw_Close enc dstPath k s);
                   s2 = fst (gzip_Close enc dstPath k s1)
               in Some (fst s2, err)))"

type_synonym decoder = "bytes \<Rightarrow> string list \<times> go_error option"

definition ReadTarballEntries :: "decoder \<Rightarrow> fsys \<Rightarrow> string \<Rightarrow> go_error + string list" where
  "ReadTarballEntries untar w path =
     (case os_Open w path of
        Inl err \<Rightarrow> Inl err
      | Inr k \<Rightarrow>
          (case file_read w path k of
             Inl err \<Rightarrow> Inl err
           | Inr data \<Rightarrow>
               (case untar data of
                  (entries, Some err) \<Rightarrow> Inl err
                | (entries, None) \<Rightarrow> Inr entries)))"

end
