(* ===== verification/Release_Build.thy ===== *)
theory Release_Build
  imports Release
begin

section \<open>Building and verifying a release (internal/releasebuild)\<close>

text \<open>
  \<open>Build\<close> in the order of the source: checks, staging directories, the two builds, the staged files,
  the tarball, the package, the checksum file.  Its deferred \<open>os.RemoveAll\<close> runs whatever happens
  once the work directory exists.
\<close>

subsection \<open>Checksums\<close>

definition checksum_text :: "Artifacts \<Rightarrow> string \<Rightarrow> string \<Rightarrow> string" where
  "checksum_text a tarballHash debHash =
     tarballHash @ ''  '' @ Base (TarballPath a) @ [CHR 0x0A] @
     debHash @ ''  '' @ Base (DebPath a) @ [CHR 0x0A]"

definition publish_checksums :: "fsys \<Rightarrow> Artifacts \<Rightarrow> fsys \<times> go_error option" where
  "publish_checksums w a =
     (case hashFile w (TarballPath a) of
        Inl err \<Rightarrow> (w, Some err)
      | Inr tarballHash \<Rightarrow>
          (case hashFile w (DebPath a) of
             Inl err \<Rightarrow> (w, Some err)
           | Inr debHash \<Rightarrow> writeFile w (ChecksumsPath a) (checksum_text a tarballHash debHash) 0x1A4))"

text \<open>A later line for the same name replaces an earlier one.\<close>

fun expected_loop :: "(string \<Rightarrow> string option) \<Rightarrow> string list \<Rightarrow> go_error + (string \<Rightarrow> string option)" where
  "expected_loop expected [] = Inr expected"
| "expected_loop expected (line # lines) =
     (let parts = Fields line in
      if length parts \<noteq> 2 then Inl (ErrorString (''invalid checksum line '' @ Quote line))
      else expected_loop (expected(parts ! 1 \<mapsto> parts ! 0)) lines)"

fun verify_loop :: "fsys \<Rightarrow> (string \<Rightarrow> string option) \<Rightarrow> string list \<Rightarrow> go_error option" where
  "verify_loop w expected [] = None"
| "verify_loop w expected (target # targets) =
     (case hashFile w target of
        Inl err \<Rightarrow> Some err
      | Inr got \<Rightarrow>
          (case expected (Base target) of
             None \<Rightarrow> Some (ErrorString (''checksum for '' @ Base target @ '' not found''))
           | Some want \<Rightarrow>
               if got \<noteq> want then Some (ErrorString (''checksum mismatch for '' @ Base target))
               else verify_loop w expected targets))"

definition VerifyChecksums :: "fsys \<Rightarrow> string \<Rightarrow> string list \<Rightarrow> go_error option" where
  "VerifyChecksums w path targets =
     (case os_ReadFile w path of
        Inl err \<Rightarrow> Some err
      | Inr data \<Rightarrow>
          let lines = split_on (CHR 0x0A) (TrimSpace data) in
          if length lines \<noteq> length targets then
            Some (ErrorString (''checksum file contains '' @ show_nat (length lines) @
              '' entries, want '' @ show_nat (length targets)))
          else (case expected_loop Map.empty lines of
                  Inl err \<Rightarrow> Some err
                | Inr expected \<Rightarrow> verify_loop w expected targets))"

subsection \<open>Build\<close>

definition execLookPath :: "process \<Rightarrow> fsys \<Rightarrow> string \<Rightarrow> go_error + string" where
  "execLookPath p w file =
     (case LookPathAny p w [file] of
        Some resolved \<Rightarrow> Inr resolved
      | None \<Rightarrow> Inl (ErrorString (''executable '' @ Quote file @ '' not found'')))"

fun make_dirs :: "fsys \<Rightarrow> string list \<Rightarrow> fsys \<times> go_error option" where
  "make_dirs w [] = (w, None)"
| "make_dirs w (dir # dirs) =
     (case os_MkdirAll w dir 0x1ED of
        (w1, Some err) \<Rightarrow>
          (w1, Some (WrapErr (''create staging directory '' @ dir @ '': '' @ error_msg err) [err]))
      | (w1, None) \<Rightarrow> make_dirs w1 dirs)"

text \<open>The calls of \<open>copyFile\<close> and \<open>writeFile\<close>, in order, up to the first that fails.\<close>

datatype staging = CopyIn string string FileMode | PutIn string bytes FileMode

fun stage_all :: "fsys \<Rightarrow> staging list \<Rightarrow> fsys \<times> go_error option" where
  "stage_all w [] = (w, None)"
| "stage_all w (CopyIn src dst mode # ss) =
     (case copyFile w src dst mode of
        (w1, Some err) \<Rightarrow> (w1, Some err)
      | (w1, None) \<Rightarrow> stage_all w1 ss)"
| "stage_all w (PutIn dst data mode # ss) =
     (case writeFile w dst data mode of
        (w1, Some err) \<Rightarrow> (w1, Some err)
      | (w1, None) \<Rightarrow> stage_all w1 ss)"

definition staging_dirs :: "string \<Rightarrow> string \<Rightarrow> string \<Rightarrow> string list" where
  "staging_dirs buildRoot tarRoot debRoot =
     [buildRoot,
      Join [tarRoot, ''usr'', ''bin''],
      Join [tarRoot, ''lib'', ''systemd'', ''system''],
      Join [tarRoot, ''etc'', ''vreflinkd''],
      Join [tarRoot, ''share'', ''vreflink''],
      Join [debRoot, ''usr'', ''bin''],
      Join [debRoot, ''usr'', ''share'', ''vreflink''],
      Join [debRoot, ''lib'', ''systemd'', ''system''],
      Join [debRoot, ''etc'', ''vreflinkd''],
      Join [debRoot, ''DEBIAN'']]"

definition tar_staging :: "assets \<Rightarrow> string \<Rightarrow> string \<Rightarrow> string \<Rightarrow> staging list" where
  "tar_staging as repoRoot buildRoot tarRoot =
     [CopyIn (Join [buildRoot, ''vreflink'']) (Join [tarRoot, ''usr'', ''bin'', ''vreflink'']) 0x1ED,
      CopyIn (Join [buildRoot, ''vreflinkd'']) (Join [tarRoot, ''usr'', ''bin'', ''vreflinkd'']) 0x1ED,
      PutIn (Join [tarRoot, ''lib'', ''systemd'', ''system'', ''vreflinkd.service''])
        (SystemdUnitTemplate as) 0x1A4,
      PutIn (Join [tarRoot, ''etc'', ''vreflinkd'', ''config.toml'']) (DaemonConfigTemplate as) 0x180,
      PutIn (Join [tarRoot, ''share'', ''vreflink'', ''config.toml'']) (GuestConfigTemplate as) 0x1A4,
      CopyIn (Join [repoRoot, ''README.md'']) (Join [tarRoot, ''README.md'']) 0x1A4,
      CopyIn (Join [repoRoot, ''LICENSE'']) (Join [tarRoot, ''LICENSE'']) 0x1A4]"

definition deb_control :: "assets \<Rightarrow> string \<Rightarrow> string \<Rightarrow> bytes" where
  "deb_control as version arch =
     ReplaceAll (ReplaceAll (DebControlTemplate as) ''@VERSION@'' version) ''@ARCH@'' arch"

definition deb_staging :: "assets \<Rightarrow> string \<Rightarrow> string \<Rightarrow> string \<Rightarrow> string \<Rightarrow> staging list" where
  "deb_staging as version arch buildRoot debRoot =
     (let debControlDir = Join [debRoot, ''DEBIAN''] in
     [CopyIn (Join [buildRoot, ''vreflink'']) (Join [debRoot, ''usr'', ''bin'', ''vreflink'']) 0x1ED,
      CopyIn (Join [buildRoot, ''vreflinkd'']) (Join [debRoot, ''usr'', ''bin'', ''vreflinkd'']) 0x1ED,
      PutIn (Join [debRoot, ''lib'', ''systemd'', ''system'', ''vreflinkd.service''])
        (SystemdUnitTemplate as) 0x1A4,
      PutIn (Join [debRoot, ''etc'', ''vreflinkd'', ''config.toml'']) (DaemonConfigTemplate as) 0x180,
      PutIn (Join [debRoot, ''usr'', ''share'', ''vreflink'', ''config.toml''])
        (GuestConfigTemplate as) 0x1A4,
      PutIn (Join [debControlDir, ''conffiles'']) (DebConffiles as) 0x1A4,
      PutIn (Join [debControlDir, ''control'']) (deb_control as version arch) 0x1A4,
      PutIn (Join [debControlDir, ''prerm'']) (DebPrerm as) 0x1ED,
      PutIn (Join [debControlDir, ''postrm'']) (DebPostrm as) 0x1ED])"

definition artifacts :: "string \<Rightarrow> string \<Rightarrow> string \<Rightarrow> Artifacts" where
  "artifacts outDir version arch =
     \<lparr>TarballPath = Join [outDir, ''vreflink_'' @ version @ ''_linux_'' @ arch @ ''.tar.gz''],
      DebPath = Join [outDir, ''vreflink_'' @ version @ ''_'' @ arch @ ''.deb''],
      ChecksumsPath = Join [outDir, ''vreflink_'' @ version @ ''_sha256sums.txt'']\<rparr>"

text \<open>A step that returns only an error, and a command whose error carries its trimmed output.\<close>

type_synonym 'a build_result = "(fsys \<times> (go_error + 'a)) option"

definition do_step :: "fsys \<times> go_error option \<Rightarrow> (fsys \<Rightarrow> 'a build_result) \<Rightarrow> 'a build_result" where
  "do_step r go = (case r of (w, Some err) \<Rightarrow> Some (w, Inl err) | (w, None) \<Rightarrow> go w)"

definition do_run :: "string \<Rightarrow> (fsys \<times> CommandResult \<times> go_error option) option \<Rightarrow>
    (fsys \<Rightarrow> 'a build_result) \<Rightarrow> 'a build_result" where
  "do_run what r go =
     (case r of
        None \<Rightarrow> None
      | Some (w, res, Some err) \<Rightarrow>
          Some (w, Inl (WrapErr (what @ '': '' @ error_msg err @ [CHR 0x0A] @ TrimSpace (Stderr res)) [err]))
      | Some (w, res, None) \<Rightarrow> go w)"

definition wrap_step :: "string \<Rightarrow> fsys \<times> go_error option \<Rightarrow> fsys \<times> go_error option" where
  "wrap_step what r =
     (case r of
        (w, Some err) \<Rightarrow> (w, Some (WrapErr (what @ '': '' @ error_msg err) [err]))
      | (w, None) \<Rightarrow> (w, None))"

definition build_args :: "string \<Rightarrow> string \<Rightarrow> string list" where
  "build_args buildRoot name = [''build'', ''-o'', Join [buildRoot, name], ''./cmd/'' @ name]"

text \<open>The steps inside the work directory.\<close>

definition build_in :: "nat \<Rightarrow> encoder \<Rightarrow> fsys runner \<Rightarrow> process \<Rightarrow> assets \<Rightarrow> string \<Rightarrow> string \<Rightarrow> string \<Rightarrow>
    string \<Rightarrow> string \<Rightarrow> fsys \<Rightarrow> Artifacts build_result" where
  "build_in fuel enc run p as repoRoot outDir version arch workRoot w =
     (let buildRoot = Join [workRoot, ''build''];
          tarRootName = ''vreflink_'' @ version @ ''_linux_'' @ arch;
          tarRoot = Join [workRoot, tarRootName];
          debRoot = Join [workRoot, ''deb-root''];
          buildEnv = Environ p @ [''CGO_ENABLED=0'', ''GOOS=linux'', ''GOARCH='' @ arch];
          a = artifacts outDir version arch
      in
      do_step (make_dirs w (staging_dirs buildRoot tarRoot debRoot)) (\<lambda>w.
      do_run ''build vreflink''
        (RunCommand run w repoRoot (Some buildEnv) ''go'' (build_args buildRoot ''vreflink'')) (\<lambda>w.
      do_run ''build vreflinkd''
        (RunCommand run w repoRoot (Some buildEnv) ''go'' (build_args buildRoot ''vreflinkd'')) (\<lambda>w.
      do_step (stage_all w (tar_staging as repoRoot buildRoot tarRoot @
          deb_staging as version arch buildRoot debRoot)) (\<lambda>w.
      case createTarGz fuel enc w (TarballPath a) tarRootName tarRoot of
        None \<Rightarrow> None
      | Some r \<Rightarrow>
      do_step r (\<lambda>w.
      do_run ''build deb package''
        (RunCommand run w repoRoot None ''dpkg-deb''
          [''--root-owner-group'', ''--build'', debRoot, DebPath a]) (\<lambda>w.
      do_step (publish_checksums w a) (\<lambda>w.
      Some (w, Inr a)))))))))"

definition Build :: "nat \<Rightarrow> encoder \<Rightarrow> fsys runner \<Rightarrow> (nat \<Rightarrow> u32) \<Rightarrow> process \<Rightarrow> assets \<Rightarrow> Options \<Rightarrow> fsys \<Rightarrow>
    Artifacts build_result" where
  "Build fuel enc run rnd p as opts w =
     (if TrimSpace (Version_opt opts) = [] then Some (w, Inl (ErrorString ''--version is required''))
      else
        let arch = (if Arch opts = [] then SupportedArch else Arch opts) in
        if arch \<noteq> SupportedArch then
          Some (w, Inl (ErrorString (''only '' @ SupportedArch @
            '' is supported in the current release pipeline'')))
        else case SourceRepoRoot p of
          Inl err \<Rightarrow> Some (w, Inl err)
        | Inr repoRoot \<Rightarrow>
          (case Abs (cwd w) (if OutDir opts = [] then Join [repoRoot, ''dist''] else OutDir opts) of
             Inl err \<Rightarrow>
               Some (w, Inl (WrapErr (''resolve output directory: '' @ error_msg err) [err]))
           | Inr outDir \<Rightarrow>
          (case execLookPath p w ''go'' of
             Inl err \<Rightarrow> Some (w, Inl (WrapErr (''missing go: '' @ error_msg err) [err]))
           | Inr _ \<Rightarrow>
          (case execLookPath p w ''dpkg-deb'' of
             Inl err \<Rightarrow> Some (w, Inl (WrapErr (''missing dpkg-deb: '' @ error_msg err) [err]))
           | Inr _ \<Rightarrow>
          do_step (wrap_step ''create temp root'' (os_MkdirAll w (Join [repoRoot, ''.tmp'']) 0x1ED)) (\<lambda>w.
          do_step (wrap_step ''create output directory'' (os_MkdirAll w outDir 0x1ED)) (\<lambda>w.
          case os_MkdirTemp rnd w (Join [repoRoot, ''.tmp'']) ''release-build.'' of
            (w, Inl err) \<Rightarrow>
              Some (w, Inl (WrapErr (''create work directory: '' @ error_msg err) [err]))
          | (w, Inr workRoot) \<Rightarrow>
              (case build_in fuel enc run p as repoRoot outDir (Version_opt opts) arch workRoot w of
                 None \<Rightarrow> None
               | Some (w, r) \<Rightarrow> Some (fst (os_RemoveAll w workRoot), r))))))))"

end
