(* ===== verification/Release_Properties.thy ===== *)
theory Release_Properties
  imports Release_Build
begin

section \<open>Checksum files verify\<close>

text \<open>
  When \<open>VerifyChecksums\<close> accepts, and that it accepts the checksum file of a release whose version
  has no spaces.
\<close>

subsection \<open>What VerifyChecksums accepts\<close>

definition checksum_entry :: "string \<Rightarrow> string \<times> string" where
  "checksum_entry line = (Fields line ! 1, Fields line ! 0)"

lemma expected_loop_ok:
  "\<forall>l \<in> set lines. length (Fields l) = 2 \<Longrightarrow>
   expected_loop m lines = Inr (m ++ map_of (rev (map checksum_entry lines)))"
proof (induction m lines rule: expected_loop.induct)
  case (2 m line lines)
  let ?a = "Fields line ! 1" and ?b = "Fields line ! 0" and ?g = "map_of (rev (map checksum_entry lines))"
  have "map_of (rev (map checksum_entry (line # lines))) = [?a \<mapsto> ?b] ++ ?g"
    by (simp add: checksum_entry_def)
  moreover have "m(?a \<mapsto> ?b) ++ ?g = m ++ ([?a \<mapsto> ?b] ++ ?g)"
    by (rule ext) (simp add: map_add_def split: option.split)
  moreover have "expected_loop (m(?a \<mapsto> ?b)) lines = Inr (m(?a \<mapsto> ?b) ++ ?g)"
    using 2 by (simp add: fun_upd_def)
  ultimately show ?case using "2.prems" by (simp only: expected_loop.simps Let_def list.set insert_iff) simp
qed simp

lemma expected_loop_bad:
  "\<not> (\<forall>l \<in> set lines. length (Fields l) = 2) \<Longrightarrow> \<exists>e. expected_loop m lines = Inl e"
  by (induction m lines rule: expected_loop.induct) (auto simp: Let_def)

lemma verify_loop_None:
  "verify_loop w m targets = None \<longleftrightarrow>
     (\<forall>t \<in> set targets. \<exists>h. hashFile w t = Inr h \<and> m (Base t) = Some h)"
  by (induction w m targets rule: verify_loop.induct) (auto split: sum.splits option.splits)

lemma VerifyChecksums_spec:
  "VerifyChecksums w path targets = None \<longleftrightarrow>
     (\<exists>data lines. os_ReadFile w path = Inr data \<and> lines = split_on (CHR 0x0A) (TrimSpace data) \<and>
        length lines = length targets \<and> (\<forall>l \<in> set lines. length (Fields l) = 2) \<and>
        (\<forall>t \<in> set targets. \<exists>h. hashFile w t = Inr h \<and>
           map_of (rev (map checksum_entry lines)) (Base t) = Some h))"
proof (cases "os_ReadFile w path")
  case (Inr data)
  let ?lines = "split_on (CHR 0x0A) (TrimSpace data)"
  show ?thesis
  proof (cases "\<forall>l \<in> set ?lines. length (Fields l) = 2")
    case True
    with Inr show ?thesis by (simp add: VerifyChecksums_def Let_def expected_loop_ok verify_loop_None)
  next
    case False
    then obtain e where "expected_loop Map.empty ?lines = Inl e" using expected_loop_bad by blast
    with Inr False show ?thesis by (auto simp: VerifyChecksums_def Let_def)
  qed
qed (simp add: VerifyChecksums_def)

subsection \<open>Text without spaces\<close>

text \<open>Visible ASCII occurs in no encoding of a space, and a separator ends a path component.\<close>

definition graphic :: "char \<Rightarrow> bool" where
  "graphic c \<longleftrightarrow> 33 \<le> (of_char c :: nat) \<and> (of_char c :: nat) \<le> 126"

lemma space_not_graphic: "t \<in> set space_encodings \<Longrightarrow> t \<noteq> [] \<and> (\<forall>c \<in> set t. \<not> graphic c)"
proof -
  have "list_all (\<lambda>t. t \<noteq> [] \<and> list_all (\<lambda>c. \<not> graphic c) t) space_encodings" by code_simp
  then show "t \<in> set space_encodings \<Longrightarrow> ?thesis" by (auto simp: list_all_iff)
qed

lemma no_space_at:
  assumes "graphic c"
  shows "find (\<lambda>t. t \<noteq> [] \<and> has_prefix (c # cs) t) space_encodings = None"
    and "find (\<lambda>t. t \<noteq> [] \<and> has_prefix (c # cs) t) (map rev space_encodings) = None"
proof -
  have no: "\<not> prefix t (c # cs)" if "t \<noteq> []" "\<forall>x \<in> set t. \<not> graphic x" for t
    using that assms by (cases t) auto
  then show "find (\<lambda>t. t \<noteq> [] \<and> has_prefix (c # cs) t) space_encodings = None"
    "find (\<lambda>t. t \<noteq> [] \<and> has_prefix (c # cs) t) (map rev space_encodings) = None"
    using space_not_graphic by (fastforce simp: find_None_iff has_prefix_iff)+
qed

lemma fields_graphic:
  "\<forall>c \<in> set s. graphic c \<Longrightarrow> fields_scan acc 0 (s @ rest) = fields_scan (rev s @ acc) 0 rest"
  by (induction s arbitrary: acc) (simp_all add: no_space_at)

lemma fields_space: "fields_scan acc 0 (CHR '' '' # cs) = (if acc = [] then [] else [rev acc]) @ fields_scan [] 0 cs"
  by (simp add: space_encodings_def)

lemma Fields_two:
  assumes "\<forall>c \<in> set a \<union> set b. graphic c" "a \<noteq> []" "b \<noteq> []"
  shows "Fields (a @ ''  '' @ b) = [a, b]"
proof -
  have "fields_scan [] 0 (a @ ''  '' @ b) = fields_scan (rev a) 0 (''  '' @ b)"
    using fields_graphic [of a "[]"] assms(1) by simp
  also have "\<dots> = [a] @ fields_scan [] 0 b" using assms(2) by (simp add: fields_space del: fields_scan.simps)
  also have "fields_scan [] 0 b = [b]" using fields_graphic [of b "[]" "[]"] assms(1,3) by simp
  finally show ?thesis by (simp add: Fields_def)
qed

lemma TrimSpace_newline:
  assumes "s \<noteq> []" "graphic (hd s)" "graphic (last s)"
  shows "TrimSpace (s @ [CHR 0x0A]) = s"
proof -
  obtain c cs where s: "s = c # cs" using assms(1) by (cases s) auto
  then have l: "TrimLeftSpace (s @ [CHR 0x0A]) = s @ [CHR 0x0A]"
    unfolding TrimLeftSpace_def using assms(2) by (intro strip_tokens_fixed) (simp add: no_space_at)
  obtain d ds where d: "rev s = d # ds" "d = last s" using assms(1) by (cases s rule: rev_cases) auto
  have "strip_tokens (map rev space_encodings) (CHR 0x0A # rev s) = strip_tokens (map rev space_encodings) (rev s)"
    by (subst strip_tokens.simps) (simp add: space_encodings_def)
  also have "\<dots> = rev s"
    unfolding d(1) using assms(3) d(2) by (intro strip_tokens_fixed) (simp only: no_space_at)
  finally show ?thesis by (simp add: TrimSpace_def TrimRightSpace_def l)
qed

lemma hex_graphic: "c \<in> set (EncodeToString bs) \<Longrightarrow> graphic c"
proof -
  assume "c \<in> set (EncodeToString bs)"
  then obtain d where d: "d < 16" "c = hex_char d" using EncodeToString_chars by blast
  have "list_all (\<lambda>d. graphic (hex_char d)) [0..<16]" by code_simp
  with d show ?thesis by (auto simp: list_all_iff)
qed

lemma Base_render: "plain_comps ps \<Longrightarrow> plain_comp c \<Longrightarrow> Base (render True (ps @ [c])) = c"
proof -
  assume a: "plain_comps ps" "plain_comp c"
  then have c: "sep \<notin> set c" "c \<noteq> []" by (auto simp: plain_comp_def)
  obtain xs where r: "render True (ps @ [c]) = xs @ sep # c"
    by (cases "ps = []") (auto simp: render_def join_with_append)
  have "hd (rev c) \<noteq> sep" using c by (metis hd_in_set rev_is_Nil_conv set_rev)
  with c have d: "dropWhile (\<lambda>x. x = sep) (rev c @ sep # rev xs) = rev c @ sep # rev xs"
    by (cases "rev c") auto
  show ?thesis
    using c by (simp add: Base_def r d Let_def split_on_append split_on_plain)
qed

subsection \<open>The checksum file of a release\<close>

definition plain_version :: "string \<Rightarrow> bool" where
  "plain_version v \<longleftrightarrow> (\<forall>c \<in> set v. graphic c \<and> c \<noteq> sep)"

definition artifact_names :: "string \<Rightarrow> string \<Rightarrow> string list" where
  "artifact_names version arch =
     [''vreflink_'' @ version @ ''_linux_'' @ arch @ ''.tar.gz'',
      ''vreflink_'' @ version @ ''_'' @ arch @ ''.deb'',
      ''vreflink_'' @ version @ ''_sha256sums.txt'']"

lemma plain_version_append [simp]: "plain_version (a @ b) \<longleftrightarrow> plain_version a \<and> plain_version b"
  by (auto simp: plain_version_def)

lemma artifact_names_plain:
  assumes "plain_version version" "c \<in> set (artifact_names version SupportedArch)"
  shows "plain_comp c" "\<forall>x \<in> set c. graphic x" "c \<noteq> []" "graphic (last c)"
proof -
  have p: "plain_version ''vreflink_''" "plain_version ''_linux_''" "plain_version SupportedArch"
    "plain_version ''.tar.gz''" "plain_version ''_''" "plain_version ''.deb''" "plain_version ''_sha256sums.txt''"
    by code_simp+
  have cs: "c = ''vreflink_'' @ version @ ''_linux_'' @ SupportedArch @ ''.tar.gz'' \<or>
      c = ''vreflink_'' @ version @ ''_'' @ SupportedArch @ ''.deb'' \<or>
      c = ''vreflink_'' @ version @ ''_sha256sums.txt''"
    using assms(2) by (simp only: artifact_names_def list.set insert_iff empty_iff) blast
  then have all: "plain_version c"
    by (elim disjE; simp only: plain_version_append p assms(1) simp_thms)
  then show x: "\<forall>x \<in> set c. graphic x" by (simp add: plain_version_def)
  show ne: "c \<noteq> []" using cs by auto
  from all have "sep \<notin> set c" by (auto simp: plain_version_def)
  moreover have "length c > 2" using cs by auto
  ultimately show "plain_comp c" by (auto simp: plain_comp_def)
  from x ne show "graphic (last c)" by simp
qed

lemma artifact_names_distinct: "distinct (artifact_names version SupportedArch)"
proof -
  have "\<And>a b. a @ ''z'' \<noteq> b @ ''b''" "\<And>a b. a @ ''z'' \<noteq> b @ ''t''" "\<And>a b. a @ ''b'' \<noteq> b @ ''t''" by simp_all
  from this(1) [of "''vreflink_'' @ version @ ''_linux_amd64.tar.g''" "''vreflink_'' @ version @ ''_amd64.de''"]
    this(2) [of "''vreflink_'' @ version @ ''_linux_amd64.tar.g''" "''vreflink_'' @ version @ ''_sha256sums.tx''"]
    this(3) [of "''vreflink_'' @ version @ ''_amd64.de''" "''vreflink_'' @ version @ ''_sha256sums.tx''"]
  show ?thesis by (simp add: artifact_names_def SupportedArch_def)
qed

text \<open>The three places in the output directory, none of them a link.\<close>

definition out_ready :: "fsys \<Rightarrow> string list \<Rightarrow> key \<Rightarrow> string \<Rightarrow> bool" where
  "out_ready w ps k version \<longleftrightarrow> plain_comps ps \<and> leads w (render True ps) k \<and> dir_at w k \<and>
     fault w (SysStat (render True ps)) = None \<and>
     (\<forall>c \<in> set (artifact_names version SupportedArch). length (Join [render True ps, c]) < PATH_MAX \<and>
        (\<forall>n. node_at w (k @ [c]) = Some n \<longrightarrow> ntype n \<noteq> TSymlink))"

lemma out_ready_at:
  "out_ready w ps k version \<Longrightarrow> plain_version version \<Longrightarrow> c \<in> set (artifact_names version SupportedArch) \<Longrightarrow>
   at w (Join [render True ps, c]) (k @ [c])"
  by (rule at_child) (auto simp: out_ready_def artifact_names_plain)

lemma artifacts_names:
  "artifacts outDir version SupportedArch =
     \<lparr>TarballPath = Join [outDir, artifact_names version SupportedArch ! 0],
      DebPath = Join [outDir, artifact_names version SupportedArch ! 1],
      ChecksumsPath = Join [outDir, artifact_names version SupportedArch ! 2]\<rparr>"
  by (simp add: artifacts_def artifact_names_def)

lemma artifact_names_in: "i < 3 \<Longrightarrow> artifact_names version SupportedArch ! i \<in> set (artifact_names version SupportedArch)"
  by (rule nth_mem) (simp add: artifact_names_def)

lemma Base_artifact:
  assumes "plain_comps ps" "plain_version version" "i < 3"
  shows "Base (Join [render True ps, artifact_names version SupportedArch ! i]) = artifact_names version SupportedArch ! i"
  using artifact_names_plain [OF assms(2) artifact_names_in [OF assms(3)]] assms(1)
  by (simp add: Join_name Base_render)

lemma verify_text:
  assumes "plain_comps ps" "plain_version version" "a = artifacts (render True ps) version SupportedArch"
    and "h1 = EncodeToString (sha256 d1)" "h2 = EncodeToString (sha256 d2)"
    and "os_ReadFile w p = Inr (checksum_text a h1 h2)"
  shows "VerifyChecksums w p [TarballPath a, DebPath a] = None \<longleftrightarrow>
    hashFile w (TarballPath a) = Inr h1 \<and> hashFile w (DebPath a) = Inr h2"
proof -
  let ?t = "artifact_names version SupportedArch ! 0" and ?d = "artifact_names version SupportedArch ! 1"
  note names = artifact_names_plain [OF assms(2) artifact_names_in [of 0]] artifact_names_plain [OF assms(2) artifact_names_in [of 1]]
  have b: "Base (TarballPath a) = ?t" "Base (DebPath a) = ?d"
    using Base_artifact [OF assms(1,2), of 0] Base_artifact [OF assms(1,2), of 1] by (simp_all add: assms(3) artifacts_names)
  have td: "?t \<noteq> ?d" using artifact_names_distinct [of version] by (simp add: artifact_names_def)
  have h: "h \<noteq> []" "\<forall>c \<in> set h. graphic c" if "h \<in> {h1, h2}" for h
  proof -
    have "length h = 64" using that assms(4,5) by auto
    then show "h \<noteq> []" by auto
    show "\<forall>c \<in> set h. graphic c" using that hex_graphic assms(4,5) by blast
  qed
  define l1 l2 where l: "l1 = h1 @ ''  '' @ ?t" "l2 = h2 @ ''  '' @ ?d"
  have nl: "CHR 0x0A \<notin> set s" if "\<forall>c \<in> set s. graphic c" for s
    using that by (auto simp: graphic_def)
  have "CHR 0x0A \<notin> set l1" "CHR 0x0A \<notin> set l2"
    using nl [OF h(2)] nl [OF names(2)] nl [OF names(6)] by (simp_all add: l)
  then have sp: "split_on (CHR 0x0A) (l1 @ CHR 0x0A # l2) = [l1, l2]"
    by (simp add: split_on_append_sep split_on_plain del: append_assoc)
  have "TrimSpace ((l1 @ CHR 0x0A # l2) @ [CHR 0x0A]) = l1 @ CHR 0x0A # l2"
    using h [of h1] names(7,8) by (intro TrimSpace_newline) (auto simp: l)
  then have ls: "split_on (CHR 0x0A) (TrimSpace (checksum_text a h1 h2)) = [l1, l2]"
    using sp by (simp add: checksum_text_def b l)
  have f: "Fields l1 = [h1, ?t]"
    using h [of h1] names(2,3) unfolding l by (intro Fields_two) auto
  have f2: "Fields l2 = [h2, ?d]"
    using h [of h2] names(6,7) unfolding l by (intro Fields_two) auto
  have "map_of (rev (map checksum_entry [l1, l2])) = [?t \<mapsto> h1, ?d \<mapsto> h2]"
    using td by (simp add: checksum_entry_def f f2 fun_upd_twist)
  with td show ?thesis
    unfolding VerifyChecksums_spec assms(6) by (simp add: ls f f2 b)
qed

lemma WriteFile_None:
  "os_WriteFile w p d m = (w', None) \<Longrightarrow> resolve w p True = Inr k \<Longrightarrow>
   \<exists>n. w' = put_node w k (n\<lparr>ndata := d\<rparr>) \<and> ntype n \<noteq> TDir \<and>
     (node_at w k = Some n \<or> node_at w k = None \<and> n = new_file w m)"
  by (cases "node_at w k")
    (auto simp: os_WriteFile_def guarded_def Let_def split: option.splits if_splits intro: exI [of _ "new_file w m"])

lemma publish_result:
  assumes "out_ready w ps k version" "plain_version version" "a = artifacts (render True ps) version SupportedArch"
    and "publish_checksums w a = (w', None)"
  shows "\<exists>d1 d2 n. os_ReadFile w (TarballPath a) = Inr d1 \<and> os_ReadFile w (DebPath a) = Inr d2 \<and>
    w' = put_node w (k @ [artifact_names version SupportedArch ! 2]) (n\<lparr>ndata :=
      checksum_text a (EncodeToString (sha256 d1)) (EncodeToString (sha256 d2))\<rparr>) \<and> ntype n \<notin> {TDir, TSymlink} \<and>
    node_at w (k @ [artifact_names version SupportedArch ! 2]) \<in> {None, Some n}"
proof -
  let ?c = "artifact_names version SupportedArch ! 2"
  from assms(4) obtain d1 d2 where d: "os_ReadFile w (TarballPath a) = Inr d1" "os_ReadFile w (DebPath a) = Inr d2"
    and wr: "writeFile w (ChecksumsPath a) (checksum_text a (EncodeToString (sha256 d1)) (EncodeToString (sha256 d2))) 0x1A4
      = (w', None)" by (auto simp: publish_checksums_def hashFile_def split: sum.splits)
  have ps: "plain_comps ps" "leads w (render True ps) k" "dir_at w k" "fault w (SysStat (render True ps)) = None"
    using assms(1) by (simp_all add: out_ready_def)
  note c = artifact_names_in [of 2, simplified] 
  have path: "ChecksumsPath a = Join [render True ps, ?c]" by (simp add: assms(3) artifacts_names)
  have "Dir (ChecksumsPath a) = render True ps"
    using ps(1) artifact_names_plain(1) [OF assms(2) c] by (simp add: path Join_name Dir_render_abs)
  with wr MkdirAll_dir [OF ps(2-4)] have "os_WriteFile w (ChecksumsPath a)
      (checksum_text a (EncodeToString (sha256 d1)) (EncodeToString (sha256 d2))) 0x1A4 = (w', None)"
    by (simp add: writeFile_def split: prod.splits option.splits)
  moreover have "resolve w (ChecksumsPath a) True = Inr (k @ [?c])"
    unfolding path by (rule at_resolve) (rule out_ready_at [OF assms(1,2) c])
  moreover have "node_at w (k @ [?c]) = Some n \<Longrightarrow> ntype n \<noteq> TSymlink" for n
    using assms(1) c by (auto simp: out_ready_def)
  ultimately show ?thesis
    using d WriteFile_None [of w "ChecksumsPath a" _ "0x1A4" w' "k @ [?c]"] by (fastforce simp: new_file_def)
qed

lemma ReadFile_at:
  "at w p k \<Longrightarrow> os_ReadFile w p =
     (case fault w (SysOpen p) of
        Some e \<Rightarrow> Inl (path_error ''open'' p e)
      | None \<Rightarrow> (case node_at w k of
          None \<Rightarrow> Inl (path_error ''open'' p ENOENT)
        | Some n \<Rightarrow> if ntype n = TDir then Inl (path_error ''read'' p EISDIR) else Inr (ndata n)))"
  by (simp add: os_ReadFile_def guarded_def find_node_def at_resolve split: option.splits)


definition ex_out :: fsys where
  "ex_out = \<lparr>nodes = map (\<lambda>k. (k, \<lparr>ntype = TDir, nperm = 0x1ED, ndata = [], nlink = 2\<rparr>)) [[], [''o'']] @
       map (\<lambda>(c, d). ([''o'', c], \<lparr>ntype = TReg, nperm = 0x1A4, ndata = d, nlink = 1\<rparr>))
         [(''vreflink_1.2-rc1_linux_amd64.tar.gz'', ''tar''), (''vreflink_1.2-rc1_amd64.deb'', ''deb'')],
     cwd = Inr ''/'', umask = 0x12, fault = (\<lambda>_. None)\<rparr>"

definition ex_artifacts :: Artifacts where
  "ex_artifacts = artifacts ''/o'' ''1.2-rc1'' SupportedArch"


text \<open>A version with a space gives a checksum file that is refused, with intact artifacts.\<close>

lemma spaced_version_refused:
  assumes "os_ReadFile w p = Inr (checksum_text (artifacts ''/o'' ''1 2'' SupportedArch)
      (EncodeToString (sha256 d1)) (EncodeToString (sha256 d2)))"
  shows "VerifyChecksums w p targets \<noteq> None"
proof
  let ?h = "EncodeToString (sha256 d1)" and ?h2 = "EncodeToString (sha256 d2)"
  let ?t = "''vreflink_1 2_linux_amd64.tar.gz''" and ?d = "''vreflink_1 2_amd64.deb''"
  assume "VerifyChecksums w p targets = None"
  moreover have b: "Base (TarballPath (artifacts ''/o'' ''1 2'' SupportedArch)) = ?t"
    "Base (DebPath (artifacts ''/o'' ''1 2'' SupportedArch)) = ?d" by code_simp+
  have "hd ?h \<in> set ?h" by (rule hd_in_set) (metis length_EncodeToString length_sha256 list.size(3) mult_eq_0_iff zero_neq_numeral)
  then have h: "graphic (hd ?h)" "?h \<noteq> []" "\<forall>c \<in> set ?h. graphic c" using hex_graphic by (blast, force, blast)
  have nl: "CHR 0x0A \<notin> set (?h @ ''  '' @ ?t)" using h(3) by (auto simp: graphic_def)
  have "TrimSpace ((?h @ ''  '' @ ?t @ CHR 0x0A # ?h2 @ ''  '' @ ?d) @ [CHR 0x0A]) =
      ?h @ ''  '' @ ?t @ CHR 0x0A # ?h2 @ ''  '' @ ?d"
    using h by (intro TrimSpace_newline) (auto simp: graphic_def)
  then have "?h @ ''  '' @ ?t \<in> set (split_on (CHR 0x0A) (TrimSpace (checksum_text (artifacts ''/o'' ''1 2'' SupportedArch) ?h ?h2)))"
    using split_on_append_sep [OF nl, of "?h2 @ ''  '' @ ?d"] by (simp add: checksum_text_def b)
  ultimately have "length (Fields (?h @ ''  '' @ ?t)) = 2"
    using assms by (auto simp: VerifyChecksums_spec)
  moreover have "Fields (?h @ ''  '' @ ?t) = ?h # Fields ?t"
    using fields_graphic [OF h(3), of "[]" "''  '' @ ?t"] h(2)
    by (simp add: Fields_def fields_space del: fields_scan.simps)
  moreover have "length (Fields ?t) = 2" by code_simp
  ultimately show False by simp
qed

end
