(* ===== verification/Release_Tarball.thy ===== *)
theory Release_Tarball
  imports Release
begin

section \<open>What a tarball holds\<close>

text \<open>
  A successful \<open>createTarGz\<close> whose writes succeed leaves an archive with one entry for each place below
  the packed directory, and \<open>ReadTarballEntries\<close> lists their names.
\<close>

text \<open>The bytes passed on only grow, and a complete archive reads back as the names in it.\<close>

definition tar_encoder :: "encoder \<Rightarrow> bool" where
  "tar_encoder enc \<longleftrightarrow> enc [] = [] \<and> (\<forall>es e. prefix (enc es) (enc (es @ [e])))"

fun entry_names :: "tar_event list \<Rightarrow> string list" where
  "entry_names [] = []"
| "entry_names (THeader h # es) = hdrName h # entry_names es"
| "entry_names (e # es) = entry_names es"

lemma entry_names_append [simp]: "entry_names (xs @ ys) = entry_names xs @ entry_names ys"
  by (induction xs rule: entry_names.induct) simp_all

text \<open>Every entry is followed by as much data as its header announces.\<close>

fun whole_entries :: "nat \<Rightarrow> tar_event list \<Rightarrow> bool" where
  "whole_entries left [] = (left = 0)"
| "whole_entries left (THeader h # es) = (left = 0 \<and> whole_entries (hdrSize h) es)"
| "whole_entries left (TData d # es) = (length d \<le> left \<and> whole_entries (left - length d) es)"
| "whole_entries left (_ # es) = False"

lemma whole_entries_append:
  "whole_entries n xs \<Longrightarrow> whole_entries 0 ys \<Longrightarrow> whole_entries n (xs @ ys)"
  by (induction n xs rule: whole_entries.induct) simp_all

definition tar_decoder :: "encoder \<Rightarrow> decoder \<Rightarrow> bool" where
  "tar_decoder enc untar \<longleftrightarrow>
     (\<forall>es. whole_entries 0 es \<longrightarrow> untar (enc (es @ [TTrailer, TGzipEnd])) = (entry_names es, None))"

subsection \<open>The writers without a failing write\<close>

text \<open>
  \<open>packing enc w1 k s\<close>: since the archive \<open>k\<close> was created in \<open>w1\<close> nothing changed but its data, which
  are what the encoder has passed on.
\<close>

definition packing :: "encoder \<Rightarrow> fsys \<Rightarrow> key \<Rightarrow> fsys \<times> tar_writer \<Rightarrow> bool" where
  "packing enc w1 k s \<longleftrightarrow> same_env w1 (fst s) \<and> (\<forall>q. q \<noteq> k \<longrightarrow> node_at (fst s) q = node_at w1 q) \<and>
     (\<exists>n. node_at w1 k = Some n \<and> ntype n \<notin> {TDir, TSymlink} \<and>
        node_at (fst s) k = Some (n\<lparr>ndata := enc (twEvents (snd s))\<rparr>)) \<and> twErr (snd s) = None"

lemma packing_left: "packing enc w1 k (w, tw\<lparr>twLeft := m\<rparr>) = packing enc w1 k (w, tw)"
  by (simp add: packing_def)

lemma packing_ext: "packing enc w1 k s \<Longrightarrow> fs_ext w1 (fst s)"
  unfolding packing_def fs_ext_def by (metis insertCI option.inject)

lemma emit_ok:
  assumes "tar_encoder enc" "packing enc w1 k s" "fault w1 (SysWrite dst) = None"
  shows "\<exists>s'. tw_emit enc dst k s e = (s', None) \<and> packing enc w1 k s' \<and>
    twEvents (snd s') = twEvents (snd s) @ [e] \<and> twLeft (snd s') = twLeft (snd s)"
proof -
  obtain w tw where s: "s = (w, tw)" by fastforce
  let ?old = "enc (twEvents tw)" and ?new = "enc (twEvents tw @ [e])"
  have cat: "?new = ?old @ drop (length ?old) ?new"
    using assms(1) by (metis append_eq_conv_conj prefixE tar_encoder_def)
  from assms(2) s obtain n where n: "node_at w1 k = Some n" "ntype n \<notin> {TDir, TSymlink}"
      "node_at w k = Some (n\<lparr>ndata := ?old\<rparr>)" "same_env w1 w" "twErr tw = None"
      "\<And>q. q \<noteq> k \<Longrightarrow> node_at w q = node_at w1 q" by (auto simp: packing_def)
  show ?thesis
  proof (cases "drop (length ?old) ?new = []")
    case True
    with cat have "?new = ?old" by simp
    with True n s show ?thesis by (auto simp: tw_emit_def packing_def)
  next
    case False
    let ?w = "put_node w k (n\<lparr>ndata := ?new\<rparr>)"
    have "file_Write w dst k (drop (length ?old) ?new) = (?w, None)"
      using n(3,4) assms(3) by (subst (2) cat) (simp add: file_Write_def same_env_def)
    with False n s show ?thesis
      by (auto simp: tw_emit_def packing_def Let_def fs_simps same_env_def)
  qed
qed

lemma flush_ok: "packing enc w1 k s \<Longrightarrow> twLeft (snd s) = 0 \<Longrightarrow> tw_flush (snd s) = None"
  by (simp add: tw_flush_def packing_def)

lemma WriteHeader_ok:
  assumes "tar_encoder enc" "packing enc w1 k s" "fault w1 (SysWrite dst) = None" "twLeft (snd s) = 0"
  shows "\<exists>s'. tw_WriteHeader enc dst k s h = (s', None) \<and> packing enc w1 k s' \<and>
    twEvents (snd s') = twEvents (snd s) @ [THeader h] \<and> twLeft (snd s') = hdrSize h"
proof -
  obtain w' tw' where "tw_emit enc dst k s (THeader h) = ((w', tw'), None)" "packing enc w1 k (w', tw')"
      "twEvents tw' = twEvents (snd s) @ [THeader h]" using emit_ok [OF assms(1-3)] by force
  with assms(2,4) show ?thesis by (simp add: tw_WriteHeader_def flush_ok packing_left)
qed

lemma Write_ok:
  assumes "tar_encoder enc" "packing enc w1 k s" "fault w1 (SysWrite dst) = None"
    and "tw_Write enc dst k s data = (s', None)"
  shows "packing enc w1 k s' \<and> length data \<le> twLeft (snd s) \<and> twLeft (snd s') = twLeft (snd s) - length data \<and>
    twEvents (snd s') = twEvents (snd s) @ (if data = [] then [] else [TData data])"
proof -
  obtain w tw where s: "s = (w, tw)" by fastforce
  have e: "twErr tw = None" using assms(2) s by (simp add: packing_def)
  obtain w' tw' where em: "tw_emit enc dst k (w, tw) (TData (take (twLeft tw) data)) = ((w', tw'), None)"
      "packing enc w1 k (w', tw')" "twEvents tw' = twEvents tw @ [TData (take (twLeft tw) data)]"
      "twLeft tw' = twLeft tw"
    using emit_ok [OF assms(1-3)] s by force
  from assms(4) s e em(1) have le: "length data \<le> twLeft tw"
    by (auto simp: tw_Write_def Let_def split: if_splits)
  with assms(2,4) s e em show ?thesis
    by (auto simp: tw_Write_def Let_def packing_left split: if_splits)
qed

subsection \<open>One entry of the walk\<close>

definition entry_header :: "string \<Rightarrow> key \<Rightarrow> node \<Rightarrow> tar_header \<Rightarrow> tar_header" where
  "entry_header rootName x n h =
     h\<lparr>hdrName := render False (rootName # x) @ (if ntype n = TDir then [sep] else [])\<rparr>"

definition entry_events :: "string \<Rightarrow> key \<times> node \<Rightarrow> tar_event list" where
  "entry_events rootName e =
     (case e of (x, n) \<Rightarrow>
      case FileInfoHeader n of
        Inl _ \<Rightarrow> []
      | Inr h \<Rightarrow> THeader (entry_header rootName x n h) #
          (if hdrSize h = 0 then [] else [TData (ndata n)]))"

lemma FileInfoHeader_size: "FileInfoHeader n = Inr h \<Longrightarrow> hdrSize h = (if ntype n = TReg then length (ndata n) else 0)"
  by (auto simp: FileInfoHeader_def Let_def split: ntype.splits)

lemma entry_events_facts:
  "FileInfoHeader n = Inr h \<Longrightarrow> whole_entries 0 (entry_events rootName (x, n)) \<and>
     entry_names (entry_events rootName (x, n)) =
       [render False (rootName # x) @ (if ntype n = TDir then [sep] else [])]"
  by (auto simp: entry_events_def entry_header_def FileInfoHeader_size)

lemma Join_relative:
  assumes "plain_comp r" "plain_comps x" "x \<noteq> []"
  shows "Join [r, render False x] = render False (r # x)"
proof -
  have r: "r \<noteq> []" using assms(1) by (auto dest: plain_compD)
  have "join_with sep [r, render False x] = render False (r # x)"
    using assms(3) by (simp add: render_def join_with_Cons)
  moreover have "Clean (render False (r # x)) = render False (r # x)"
    using assms(1,2) by (intro Clean_render plain_imp_normal) simp
  ultimately show ?thesis using r by (simp only: Join.simps if_True not_False_eq_True simp_thms)
qed

lemma pack_visit_entry:
  assumes "tar_encoder enc" "packing enc w1 k s" "fault w1 (SysWrite dst) = None" "twLeft (snd s) = 0"
    and "plain_comps ps" "plain_comp rootName" "plain_comps (x @ [c])"
    and "leads w1 (render True (ps @ x)) (S @ x)" "dir_at w1 (S @ x)" "S @ x @ [c] \<noteq> k"
    and "node_at w1 (S @ x @ [c]) = Some n"
    and "tar_visit enc dst k rootName (render True ps) s (render True (ps @ x @ [c])) (IsDir n) None = (s', None)"
  shows "packing enc w1 k s' \<and> twLeft (snd s') = 0 \<and>
    twEvents (snd s') = twEvents (snd s) @ entry_events rootName (x @ [c], n) \<and>
    is_ok (FileInfoHeader n) \<and> (ntype n \<noteq> TSymlink \<longrightarrow> at (fst s') (render True (ps @ x @ [c])) (S @ x @ [c]) \<and>
      at w1 (render True (ps @ x @ [c])) (S @ x @ [c]))"
proof -
  let ?p = "render True (ps @ x @ [c])"
  have path: "?p = Join [render True (ps @ x), c]" using assms(5,7) by (simp add: Join_name)
  have rel: "Rel (render True ps) ?p = Inr (render False (x @ [c]))"
    using assms(5,7) by (intro Rel_render) auto
  have dot: "render False (x @ [c]) \<noteq> ''.''"
    using render_inject [of False "x @ [c]" "[]"] plain_imp_normal [OF assms(7), of False]
    by (auto simp: render_def)
  have name: "Join [rootName, render False (x @ [c])] = render False (rootName # x @ [c])"
    using assms(6,7) by (intro Join_relative) auto
  obtain info where st: "os_Lstat (fst s) ?p = Inr info"
    using assms(12) dot by (auto simp: tar_visit_def rel split: sum.splits)
  have leads: "leads (fst t) (render True (ps @ x)) (S @ x)" and dir: "dir_at (fst t) (S @ x)"
    and node: "node_at (fst t) (S @ x @ [c]) = Some n" if "packing enc w1 k t" for t
    using leads_ext [OF assms(8,9) packing_ext [OF that]] fs_ext_dir [OF packing_ext [OF that] assms(9)]
      that assms(10,11) by (auto simp: packing_def)
  from Lstat_child [OF st [unfolded path] leads [OF assms(2)]] assms(7) node [OF assms(2)]
  have info: "info = n" and short: "length ?p < PATH_MAX" by (simp_all add: path)
  have at: "at (fst t) ?p (S @ x @ [c])" if "packing enc w1 k t" "ntype n \<noteq> TSymlink" for t
  proof -
    have "ntype m \<noteq> TSymlink" if "node_at (fst t) (S @ x @ [c]) = Some m" for m
      using that node [OF \<open>packing enc w1 k t\<close>] \<open>ntype n \<noteq> TSymlink\<close> by simp
    with at_child [OF leads [OF that(1)] _ dir [OF that(1)]] assms(7) short show ?thesis by (simp add: path)
  qed
  have at1: "at w1 ?p (S @ x @ [c])" if "ntype n \<noteq> TSymlink"
  proof -
    have "ntype m \<noteq> TSymlink" if "node_at w1 (S @ x @ [c]) = Some m" for m
      using that assms(11) \<open>ntype n \<noteq> TSymlink\<close> by simp
    with at_child [OF assms(8) _ assms(9)] assms(7) short show ?thesis by (simp add: path)
  qed
  obtain h where h: "FileInfoHeader n = Inr h"
    using assms(12) dot st info by (auto simp: tar_visit_def rel split: sum.splits)
  let ?h = "entry_header rootName (x @ [c]) n h"
  obtain s1 where s1: "tw_WriteHeader enc dst k s ?h = (s1, None)" "packing enc w1 k s1"
      "twEvents (snd s1) = twEvents (snd s) @ [THeader ?h]" "twLeft (snd s1) = hdrSize ?h"
    using WriteHeader_ok [OF assms(1-4)] by blast
  have left: "hdrSize ?h = hdrSize h" by (simp add: entry_header_def)
  have ev: "entry_events rootName (x @ [c], n) = THeader ?h # (if hdrSize h = 0 then [] else [TData (ndata n)])"
    by (simp add: entry_events_def h)
  have go: "(if IsDir n then (s1, None) else tar_copy enc dst k ?p s1) = (s', None)"
    using assms(12) dot s1(1) by (simp add: tar_visit_def rel st info h name ToSlash_def entry_header_def)
  have "packing enc w1 k s' \<and> twLeft (snd s') = 0 \<and>
      twEvents (snd s') = twEvents (snd s1) @ (if hdrSize h = 0 then [] else [TData (ndata n)])"
  proof (cases "ntype n = TDir")
    case True
    with go s1 left show ?thesis by (simp add: FileInfoHeader_size [OF h])
  next
    case False
    with go obtain src data where c: "os_Open (fst s1) ?p = Inr src" "file_read (fst s1) ?p src = Inr data"
        "tw_Write enc dst k s1 data = (s', None)"
      by (auto simp: tar_copy_def split: sum.splits prod.splits option.splits)
    note wr = Write_ok [OF assms(1) s1(2) assms(3) c(3)]
    show ?thesis
    proof (cases "ntype n = TReg")
      case True
      have "data = ndata n"
        using Open_at [OF c(1) at [OF s1(2)]] c(2) node [OF s1(2)] True by (simp add: file_read_def)
      with wr s1 left show ?thesis by (simp add: FileInfoHeader_size [OF h] True)
    next
      case False
      with wr s1 left show ?thesis by (simp add: FileInfoHeader_size [OF h])
    qed
  qed
  with s1(3) at at1 h show ?thesis by (simp add: ev)
qed

subsection \<open>The walk\<close>

lemma visit_error: "tar_visit enc dst k rootName rootDir s path isdir (Some e) = (s, Some e)"
  by (simp add: tar_visit_def)

text \<open>
  \<open>packs rootName src K s s'\<close>: from \<open>s\<close> to \<open>s'\<close> the writer got one entry for each place of \<open>src\<close> at
  or below those in \<open>K\<close>.
\<close>

definition packs :: "string \<Rightarrow> (key \<Rightarrow> node option) \<Rightarrow> key set \<Rightarrow> fsys \<times> tar_writer \<Rightarrow> fsys \<times> tar_writer \<Rightarrow> bool" where
  "packs rootName src K s s' \<longleftrightarrow> (\<exists>xs. distinct (map fst xs) \<and>
     set xs = {(y, n). src y = Some n \<and> (\<exists>z \<in> K. prefix z y)} \<and> (\<forall>e \<in> set xs. is_ok (FileInfoHeader (snd e))) \<and>
     twEvents (snd s') = twEvents (snd s) @ concat (map (entry_events rootName) xs))"

lemma packs_empty: "packs rootName src {} s s"
  by (auto simp: packs_def intro: exI [of _ "[]"])

lemma packs_Un:
  assumes "packs rootName src K s s1" "packs rootName src L s1 s2" "\<And>y z. y \<in> K \<Longrightarrow> z \<in> L \<Longrightarrow> y \<parallel> z"
  shows "packs rootName src (K \<union> L) s s2"
proof -
  obtain xs where xs: "distinct (map fst xs)" "set xs = {(y, n). src y = Some n \<and> (\<exists>z \<in> K. prefix z y)}"
      "\<forall>e \<in> set xs. is_ok (FileInfoHeader (snd e))"
      "twEvents (snd s1) = twEvents (snd s) @ concat (map (entry_events rootName) xs)"
    using assms(1) unfolding packs_def by blast
  obtain ys where ys: "distinct (map fst ys)" "set ys = {(y, n). src y = Some n \<and> (\<exists>z \<in> L. prefix z y)}"
      "\<forall>e \<in> set ys. is_ok (FileInfoHeader (snd e))"
      "twEvents (snd s2) = twEvents (snd s1) @ concat (map (entry_events rootName) ys)"
    using assms(2) unfolding packs_def by blast
  have no: "\<not> (\<exists>y \<in> K. \<exists>z \<in> L. prefix y q \<and> prefix z q)" for q
    using assms(3) by (meson parallelD1 parallelD2 prefix_same_cases)
  have "fst ` set xs \<inter> fst ` set ys = {}" using no by (fastforce simp: xs(2) ys(2))
  then have "distinct (map fst (xs @ ys))" using xs(1) ys(1) by simp
  moreover have "set (xs @ ys) = {(y, n). src y = Some n \<and> (\<exists>z \<in> K \<union> L. prefix z y)}"
    using xs(2) ys(2) by auto
  moreover have "\<forall>e \<in> set (xs @ ys). is_ok (FileInfoHeader (snd e))" using xs(3) ys(3) by auto
  ultimately show ?thesis
    unfolding packs_def using xs(4) ys(4) by (intro exI [of _ "xs @ ys"] conjI) simp_all
qed

lemma packs_dir:
  assumes "src z = Some n" "is_ok (FileInfoHeader n)" "twEvents (snd s1) = twEvents (snd s) @ entry_events rootName (z, n)"
    and "packs rootName src ((\<lambda>c. z @ [c]) ` {c. src (z @ [c]) \<noteq> None}) s1 s'"
    and "\<And>c y. src (z @ [c]) = None \<Longrightarrow> src (z @ c # y) = None"
  shows "packs rootName src {z} s s'"
proof -
  let ?K = "(\<lambda>c. z @ [c]) ` {c. src (z @ [c]) \<noteq> None}"
  obtain xs where xs: "distinct (map fst xs)" "set xs = {(y, n). src y = Some n \<and> (\<exists>z \<in> ?K. prefix z y)}"
      "\<forall>e \<in> set xs. is_ok (FileInfoHeader (snd e))"
      "twEvents (snd s') = twEvents (snd s1) @ concat (map (entry_events rootName) xs)"
    using assms(4) unfolding packs_def by blast
  have below: "(\<exists>q \<in> ?K. prefix q y) \<longleftrightarrow> prefix z y \<and> y \<noteq> z" if "src y \<noteq> None" for y
  proof
    assume "prefix z y \<and> y \<noteq> z"
    then obtain c ys where y: "y = z @ c # ys" by (metis append_Nil2 neq_Nil_conv prefixE)
    with assms(5) that have "src (z @ [c]) \<noteq> None" by metis
    with y show "\<exists>q \<in> ?K. prefix q y" by (intro bexI [of _ "z @ [c]"]) auto
  qed (auto simp: prefix_def)
  have "set ((z, n) # xs) = {(y, n). src y = Some n \<and> (\<exists>q \<in> {z}. prefix q y)}"
    using assms(1) below by (auto simp: xs(2))
  moreover have "distinct (map fst ((z, n) # xs))"
    using xs(1) below [of z] assms(1) by (auto simp: xs(2))
  moreover have "\<forall>e \<in> set ((z, n) # xs). is_ok (FileInfoHeader (snd e))" using xs(3) assms(2) by simp
  ultimately show ?thesis
    unfolding packs_def using xs(4) assms(3) by (intro exI [of _ "(z, n) # xs"] conjI) simp_all
qed

text \<open>What the walk needs of the packed tree, and what it keeps.\<close>

definition packable :: "encoder \<Rightarrow> string \<Rightarrow> key \<Rightarrow> string list \<Rightarrow> key \<Rightarrow> string \<Rightarrow> fsys \<Rightarrow> bool" where
  "packable enc dst k ps S rootName w1 \<longleftrightarrow> tar_encoder enc \<and> fault w1 (SysWrite dst) = None \<and> wf_fs w1 \<and>
     plain_comps ps \<and> plain_comp rootName \<and> \<not> prefix S k"

abbreviation pack_visit :: "encoder \<Rightarrow> string \<Rightarrow> key \<Rightarrow> string \<Rightarrow> string list \<Rightarrow> (fsys \<times> tar_writer) walk_fn" where
  "pack_visit enc dst k rootName ps \<equiv> tar_visit enc dst k rootName (render True ps)"

definition ready :: "encoder \<Rightarrow> fsys \<Rightarrow> key \<Rightarrow> fsys \<times> tar_writer \<Rightarrow> bool" where
  "ready enc w1 k s \<longleftrightarrow> packing enc w1 k s \<and> twLeft (snd s) = 0"

lemma pack_entries:
  assumes "\<And>s c d s'. ready enc w1 k s \<Longrightarrow> plain_comp c \<Longrightarrow> node_at w1 (S @ x @ [c]) = Some d \<Longrightarrow>
      walkDir fuel (pack_visit enc dst k rootName ps) s (render True (ps @ x @ [c])) (IsDir d) = Some (s', None) \<Longrightarrow>
      ready enc w1 k s' \<and> packs rootName (\<lambda>y. node_at w1 (S @ y)) {x @ [c]} s s'"
    and "ready enc w1 k s" "plain_comps (ps @ x)" "distinct cs"
    and "\<forall>c \<in> set cs. plain_comp c \<and> node_at w1 (S @ x @ [c]) \<noteq> None"
    and "walkEntries fuel (pack_visit enc dst k rootName ps) s (render True (ps @ x))
      (map (\<lambda>c. (c, the (node_at w1 (S @ x @ [c])))) cs) = Some (s', None)"
  shows "ready enc w1 k s' \<and> packs rootName (\<lambda>y. node_at w1 (S @ y)) ((\<lambda>c. x @ [c]) ` set cs) s s'"
  using assms(2-)
proof (induction cs arbitrary: s)
  case Nil
  then show ?case by (simp add: packs_empty)
next
  case (Cons c cs)
  then obtain d where c: "plain_comp c" "node_at w1 (S @ x @ [c]) = Some d" by auto
  have path: "Join [render True (ps @ x), c] = render True (ps @ x @ [c])"
    using c(1) Cons.prems(2) by (simp add: Join_name)
  from Cons.prems(5) c(2) path obtain s1 where
      wd: "walkDir fuel (pack_visit enc dst k rootName ps) s (render True (ps @ x @ [c])) (IsDir d) = Some (s1, None)"
      and rest: "walkEntries fuel (pack_visit enc dst k rootName ps) s1 (render True (ps @ x))
        (map (\<lambda>c. (c, the (node_at w1 (S @ x @ [c])))) cs) = Some (s', None)"
    by (auto split: option.splits prod.splits)
  from assms(1) [OF Cons.prems(1) c wd] have one: "ready enc w1 k s1"
      "packs rootName (\<lambda>y. node_at w1 (S @ y)) {x @ [c]} s s1" by auto
  from Cons.IH [OF one(1) Cons.prems(2) _ _ rest] Cons.prems(3,4)
  have two: "ready enc w1 k s'" "packs rootName (\<lambda>y. node_at w1 (S @ y)) ((\<lambda>c. x @ [c]) ` set cs) s1 s'" by auto
  have "y \<parallel> z" if "y \<in> {x @ [c]}" "z \<in> (\<lambda>c. x @ [c]) ` set cs" for y z
    using that Cons.prems(3) by (auto simp: parallel_def)
  from packs_Un [OF one(2) two(2) this] two(1) show ?case by simp
qed

text \<open>Reading a directory and packing what is in it.\<close>

lemma pack_read:
  assumes pk: "packable enc dst k ps S rootName w1"
    and st: "ready enc w1 k s" "at (fst s) (render True (ps @ x)) (S @ x)" "plain_comps x"
    and rd: "os_ReadDir (fst s) (render True (ps @ x)) = Inr es"
    and we: "walkEntries fuel (pack_visit enc dst k rootName ps) s (render True (ps @ x)) es = Some (s', None)"
    and IH: "\<And>s c d s'. ready enc w1 k s \<Longrightarrow> plain_comp c \<Longrightarrow> node_at w1 (S @ x @ [c]) = Some d \<Longrightarrow>
      walkDir fuel (pack_visit enc dst k rootName ps) s (render True (ps @ x @ [c])) (IsDir d) = Some (s', None) \<Longrightarrow>
      ready enc w1 k s' \<and> packs rootName (\<lambda>y. node_at w1 (S @ y)) {x @ [c]} s s'"
  shows "ready enc w1 k s' \<and>
    packs rootName (\<lambda>y. node_at w1 (S @ y)) ((\<lambda>c. x @ [c]) ` {c. node_at w1 (S @ x @ [c]) \<noteq> None}) s s'"
proof -
  have same: "node_at (fst s) (S @ y) = node_at w1 (S @ y)" for y
  proof -
    have "S @ y \<noteq> k" using pk by (auto simp: packable_def)
    with st(1) show ?thesis by (simp add: ready_def packing_def)
  qed
  let ?cs = "child_names (fst s) (S @ x)"
  have cs: "set ?cs = {c. node_at w1 (S @ x @ [c]) \<noteq> None}" by (simp add: same)
  have es: "es = map (\<lambda>c. (c, the (node_at w1 (S @ x @ [c])))) ?cs"
    using ReadDir_at [OF rd st(2)] by (simp add: same)
  have wf: "wf_fs w1" and ps: "plain_comps (ps @ x)" using pk st(3) by (simp_all add: packable_def)
  have each: "\<forall>c \<in> set ?cs. plain_comp c \<and> node_at w1 (S @ x @ [c]) \<noteq> None"
    using wf_fs_child [OF wf, of "S @ x"] unfolding cs by auto
  have "ready enc w1 k s' \<and> packs rootName (\<lambda>y. node_at w1 (S @ y)) ((\<lambda>c. x @ [c]) ` set ?cs) s s'"
    by (rule pack_entries [OF _ st(1) ps child_names_distinct each we [unfolded es]]) (rule IH)
  then show ?thesis unfolding cs .
qed

lemma pack_walk:
  assumes pk: "packable enc dst k ps S rootName w1"
  shows "ready enc w1 k s \<Longrightarrow> plain_comps (x @ [c]) \<Longrightarrow> leads w1 (render True (ps @ x)) (S @ x) \<Longrightarrow>
    dir_at w1 (S @ x) \<Longrightarrow> node_at w1 (S @ x @ [c]) = Some d \<Longrightarrow>
    walkDir fuel (pack_visit enc dst k rootName ps) s (render True (ps @ x @ [c])) (IsDir d) = Some (s', None) \<Longrightarrow>
    ready enc w1 k s' \<and> packs rootName (\<lambda>y. node_at w1 (S @ y)) {x @ [c]} s s'"
proof (induction fuel arbitrary: s x c d s')
  case (Suc fuel)
  have pk': "tar_encoder enc" "fault w1 (SysWrite dst) = None" "plain_comps ps" "plain_comp rootName"
    "S @ x @ [c] \<noteq> k" "wf_fs w1" using pk by (auto simp: packable_def)
  obtain s1 where v: "pack_visit enc dst k rootName ps s (render True (ps @ x @ [c])) (IsDir d) None = (s1, None)"
    using Suc.prems(6) by (auto split: prod.splits option.splits)
  have r: "packing enc w1 k s" "twLeft (snd s) = 0" using Suc.prems(1) by (simp_all add: ready_def)
  from pack_visit_entry [OF pk'(1) r(1) pk'(2) r(2) pk'(3,4) Suc.prems(2,3,4) pk'(5) Suc.prems(5) v]
  have s1: "ready enc w1 k s1" "is_ok (FileInfoHeader d)"
      "twEvents (snd s1) = twEvents (snd s) @ entry_events rootName (x @ [c], d)"
      "ntype d \<noteq> TSymlink \<Longrightarrow> at (fst s1) (render True (ps @ x @ [c])) (S @ x @ [c])"
      "ntype d \<noteq> TSymlink \<Longrightarrow> at w1 (render True (ps @ x @ [c])) (S @ x @ [c])"
    by (simp_all add: ready_def)
  have none: "node_at w1 (S @ (x @ [c]) @ c' # y) = None" if "node_at w1 (S @ (x @ [c]) @ [c']) = None" for c' y
    using wf_fs_none [OF pk'(6) that, of y] by simp
  show ?case
  proof (cases "IsDir d")
    case False
    have "node_at w1 (S @ (x @ [c]) @ [c']) = None" for c'
      using wf_fs_child [OF pk'(6), of "S @ x @ [c]" c'] False Suc.prems(5)
      by (cases "node_at w1 (S @ x @ [c, c'])") (auto simp: dir_at_def)
    then have "packs rootName (\<lambda>y. node_at w1 (S @ y)) {x @ [c]} s s1"
      using packs_dir [of "\<lambda>y. node_at w1 (S @ y)" "x @ [c]" d s1 s rootName s1] s1 Suc.prems(5) none packs_empty by simp
    moreover have "s' = s1" using Suc.prems(6) v False by simp
    ultimately show ?thesis using s1(1) by simp
  next
    case True
    then have d: "ntype d = TDir" by simp
    from Suc.prems(6) v True obtain es where es: "os_ReadDir (fst s1) (render True (ps @ (x @ [c]))) = Inr es"
        "walkEntries fuel (pack_visit enc dst k rootName ps) s1 (render True (ps @ (x @ [c]))) es = Some (s', None)"
      by (auto simp: visit_error split: sum.splits)
    have at: "at (fst s1) (render True (ps @ (x @ [c]))) (S @ (x @ [c]))" using s1(4) d by simp
    have "leads w1 (render True (ps @ (x @ [c]))) (S @ (x @ [c]))" "dir_at w1 (S @ (x @ [c]))"
      using at_leads [OF s1(5)] d Suc.prems(5) by (simp_all add: dir_at_def)
    then have IH: "ready enc w1 k s \<Longrightarrow> plain_comp c' \<Longrightarrow> node_at w1 (S @ (x @ [c]) @ [c']) = Some d \<Longrightarrow>
      walkDir fuel (pack_visit enc dst k rootName ps) s (render True (ps @ (x @ [c]) @ [c'])) (IsDir d) = Some (s', None) \<Longrightarrow>
      ready enc w1 k s' \<and> packs rootName (\<lambda>y. node_at w1 (S @ y)) {(x @ [c]) @ [c']} s s'" for s c' d s'
      using Suc.IH [of s "x @ [c]" c' d s'] Suc.prems(2) by simp
    have both: "ready enc w1 k s' \<and> packs rootName (\<lambda>y. node_at w1 (S @ y))
        ((\<lambda>c'. (x @ [c]) @ [c']) ` {c'. node_at w1 (S @ (x @ [c]) @ [c']) \<noteq> None}) s1 s'"
      by (rule pack_read [OF pk s1(1) at Suc.prems(2) es]) (rule IH)
    have "packs rootName (\<lambda>y. node_at w1 (S @ y)) {x @ [c]} s s'"
      by (rule packs_dir [where src = "\<lambda>y. node_at w1 (S @ y)", OF Suc.prems(5) s1(2,3) conjunct2 [OF both]])
        (rule none)
    with both show ?thesis by blast
  qed
qed simp

text \<open>The whole tree.\<close>

lemma pack_tree:
  assumes pk: "packable enc dst k ps S rootName w1" and at: "at w1 (render True ps) S" "dir_at w1 S"
    and arch: "node_at w1 k = Some n" "ntype n \<notin> {TDir, TSymlink}" "ndata n = []"
    and run: "WalkDir fuel (pack_visit enc dst k rootName ps) (w1, tw_new) (render True ps) = Some (s', None)"
  shows "ready enc w1 k s' \<and>
    packs rootName (\<lambda>y. node_at w1 (S @ y)) ((\<lambda>c. [c]) ` {c. node_at w1 (S @ [c]) \<noteq> None}) (w1, tw_new) s'"
proof -
  have enc: "enc [] = []" using pk by (simp add: packable_def tar_encoder_def)
  have r: "ready enc w1 k (w1, tw_new)" using arch enc by (simp add: ready_def packing_def tw_new_def)
  have ps: "plain_comps ps" using pk by (simp add: packable_def)
  have root: "pack_visit enc dst k rootName ps s (render True ps) d None = (s, None)" for s d
    using Rel_render [OF ps, of "[]"] by (simp add: tar_visit_def render_def [of False])
  obtain info where info: "os_Lstat w1 (render True ps) = Inr info"
    using run by (auto simp: WalkDir_def visit_error split: sum.splits)
  obtain d where d: "node_at w1 S = Some d" "ntype d = TDir" using at(2) by (auto simp: dir_at_def split: option.splits)
  with Lstat_at [OF info at(1)] have id: "IsDir info" by simp
  then obtain f es where f: "fuel = Suc f" and rd: "os_ReadDir w1 (render True ps) = Inr es"
    and we: "walkEntries f (pack_visit enc dst k rootName ps) (w1, tw_new) (render True ps) es = Some (s', None)"
    using run info by (cases fuel) (auto simp: WalkDir_def root visit_error split: sum.splits)
  have IH: "ready enc w1 k s \<Longrightarrow> plain_comp c \<Longrightarrow> node_at w1 (S @ [] @ [c]) = Some d \<Longrightarrow>
      walkDir f (pack_visit enc dst k rootName ps) s (render True (ps @ [] @ [c])) (IsDir d) = Some (s', None) \<Longrightarrow>
      ready enc w1 k s' \<and> packs rootName (\<lambda>y. node_at w1 (S @ y)) {[] @ [c]} s s'" for s c d s'
    by (rule pack_walk [OF pk]) (use at at_leads [OF at(1)] in simp_all)
  have "ready enc w1 k s' \<and>
      packs rootName (\<lambda>y. node_at w1 (S @ y)) ((\<lambda>c. [] @ [c]) ` {c. node_at w1 (S @ [] @ [c]) \<noteq> None}) (w1, tw_new) s'"
    by (rule pack_read [OF pk r, where x = "[]"]) (use at rd we IH in simp_all)
  then show ?thesis by simp
qed

subsection \<open>The archive\<close>

lemma Create_at:
  assumes "os_Create w dst = (w1, r)" "at w dst k"
  shows "case r of Inl e \<Rightarrow> True | Inr f \<Rightarrow> f = k \<and> (\<exists>n. w1 = put_node w k (n\<lparr>ndata := []\<rparr>) \<and> ntype n \<noteq> TDir \<and>
    (node_at w k = Some n \<or> node_at w k = None \<and> n = new_file w 0x1B6))"
  using assms by (cases "node_at w k")
    (auto simp: os_Create_def guarded_def at_resolve Let_def split: option.splits if_splits)

lemma put_leaf:
  assumes "wf_fs w" "at w dst k" "\<And>m. node_at w k = Some m \<Longrightarrow> ntype m = ntype n" "ntype n \<notin> {TDir, TSymlink}"
  shows "wf_fs (put_node w k n)" "fs_ext w (put_node w k n)"
proof -
  show "fs_ext w (put_node w k n)" using assms(3,4) by (intro fs_ext_put) auto
  show "wf_fs (put_node w k n)"
  proof (cases "node_at w k")
    case None
    then obtain q c where "plain_comp c" "k = q @ [c]" "dir_at w q" using at_free_split [OF assms(2) _ assms(1)] by blast
    with None wf_fs_put_new [OF assms(1)] show ?thesis by simp
  next
    case (Some m)
    with assms(3) wf_fs_put_old [OF assms(1)] show ?thesis by simp
  qed
qed

definition entry_name :: "string \<Rightarrow> key \<times> node \<Rightarrow> string" where
  "entry_name rootName e = render False (rootName # fst e) @ (if ntype (snd e) = TDir then [sep] else [])"

lemma entries_whole:
  "\<forall>e \<in> set xs. is_ok (FileInfoHeader (snd e)) \<Longrightarrow> whole_entries 0 (concat (map (entry_events rootName) xs)) \<and>
     entry_names (concat (map (entry_events rootName) xs)) = map (entry_name rootName) xs"
proof (induction xs)
  case (Cons e xs)
  obtain y n where e: "e = (y, n)" by fastforce
  with Cons.prems obtain h where "FileInfoHeader n = Inr h" by (auto simp: is_ok_iff)
  from entry_events_facts [OF this, of rootName y] Cons e show ?case
    by (auto simp: entry_name_def intro: whole_entries_append)
qed simp

text \<open>C35: A tarball holds the packed tree.  If \<open>createTarGz\<close> returns no error and writing the archive does
  not fail, the archive has exactly one entry for each place below the packed directory, with its
  type, mode and data, nothing else changed, and \<open>ReadTarballEntries\<close> lists the entries' names.\<close>

theorem createTarGz_packs:
  assumes "tar_encoder enc" "tar_decoder enc untar" "wf_fs w" "plain_comps ps" "at w (render True ps) S" "dir_at w S"
    and "at w dst k" "\<not> prefix S k" "\<And>n. node_at w k = Some n \<Longrightarrow> ntype n \<noteq> TSymlink" "plain_comp rootName"
    and "fault w (SysWrite dst) = None" "fault w (SysOpen dst) = None"
    and "createTarGz fuel enc w dst rootName (render True ps) = Some (w', None)"
  shows "\<exists>xs. distinct (map fst xs) \<and> set xs = {(y, n). y \<noteq> [] \<and> node_at w (S @ y) = Some n} \<and>
    os_ReadFile w' dst = Inr (enc (concat (map (entry_events rootName) xs) @ [TTrailer, TGzipEnd])) \<and>
    ReadTarballEntries untar w' dst = Inr (map (entry_name rootName) xs) \<and>
    (\<forall>q. q \<noteq> k \<longrightarrow> node_at w' q = node_at w q)"
proof -
  obtain w1 r where cr: "os_Create w dst = (w1, r)" by fastforce
  with assms(13) obtain f where "r = Inr f" by (cases r) (auto simp: createTarGz_def)
  with Create_at [OF cr assms(7)] obtain n where r: "r = Inr k" and w1: "w1 = put_node w k (n\<lparr>ndata := []\<rparr>)"
    and n: "ntype n \<noteq> TDir" "node_at w k = Some n \<or> node_at w k = None \<and> n = new_file w 0x1B6" by auto
  have n2: "ntype n \<notin> {TDir, TSymlink}" using n assms(9) by (auto simp: new_file_def)
  have pl: "wf_fs w1" "fs_ext w w1"
    using put_leaf [OF assms(3,7), of "n\<lparr>ndata := []\<rparr>"] n n2 by (auto simp: w1)
  have pk: "packable enc dst k ps S rootName w1"
    using assms(1,4,8,10,11) pl(1) by (simp add: packable_def w1 fs_simps)
  have dirs: "at w1 (render True ps) S" "dir_at w1 S"
    using at_ext [OF assms(5,6) pl(2)] fs_ext_dir [OF pl(2) assms(6)] by simp_all
  have arch: "node_at w1 k = Some (n\<lparr>ndata := []\<rparr>)" "ntype (n\<lparr>ndata := []\<rparr>) \<notin> {TDir, TSymlink}" "ndata (n\<lparr>ndata := []\<rparr>) = []"
    using n2 by (simp_all add: w1 fs_simps)
  from assms(13) cr r obtain s where
    s: "WalkDir fuel (pack_visit enc dst k rootName ps) (w1, tw_new) (render True ps) = Some (s, None)"
    and w': "w' = fst (fst (gzip_Close enc dst k (fst (tw_Close enc dst k s))))"
    by (auto simp: createTarGz_def Let_def split: option.splits)
  from pack_tree [OF pk dirs arch s] have rd: "packing enc w1 k s" "twLeft (snd s) = 0"
    and ps: "packs rootName (\<lambda>y. node_at w1 (S @ y)) ((\<lambda>c. [c]) ` {c. node_at w1 (S @ [c]) \<noteq> None}) (w1, tw_new) s"
    by (simp_all add: ready_def)
  have src: "node_at w1 (S @ y) = node_at w (S @ y)" for y
    using assms(8) by (auto simp: w1 fs_simps)
  obtain xs where xs: "distinct (map fst xs)" "\<forall>e \<in> set xs. is_ok (FileInfoHeader (snd e))"
      "twEvents (snd s) = concat (map (entry_events rootName) xs)"
      "set xs = {(y, n). node_at w (S @ y) = Some n \<and> (\<exists>c. node_at w (S @ [c]) \<noteq> None \<and> prefix [c] y)}"
    using ps by (auto simp: packs_def src tw_new_def)
  have set: "set xs = {(y, n). y \<noteq> [] \<and> node_at w (S @ y) = Some n}"
  proof -
    have "(\<exists>c. node_at w (S @ [c]) \<noteq> None \<and> prefix [c] y) \<longleftrightarrow> y \<noteq> []" if "node_at w (S @ y) = Some m" for y m
      using wf_fs_none [OF assms(3), of "S @ [hd y]" "tl y"] that by (cases y) auto
    then show ?thesis unfolding xs(4) by auto
  qed
  have fw: "fault w1 (SysWrite dst) = None" using assms(11) by (simp add: w1 fs_simps)
  obtain s1 where s1: "tw_emit enc dst k s TTrailer = (s1, None)" "packing enc w1 k s1"
      "twEvents (snd s1) = twEvents (snd s) @ [TTrailer]"
    using emit_ok [OF assms(1) rd(1) fw, of TTrailer] by blast
  obtain s2 where s2: "tw_emit enc dst k s1 TGzipEnd = (s2, None)" "packing enc w1 k s2"
      "twEvents (snd s2) = twEvents (snd s) @ [TTrailer, TGzipEnd]"
    using emit_ok [OF assms(1) s1(2) fw, of TGzipEnd] s1(3) by fastforce
  have w'2: "w' = fst s2" using s1 s2 flush_ok [OF rd] by (simp add: w' tw_Close_def gzip_Close_def)
  let ?data = "enc (concat (map (entry_events rootName) xs) @ [TTrailer, TGzipEnd])"
  have kd: "node_at w' k = Some (n\<lparr>ndata := ?data\<rparr>)" and others: "\<forall>q. q \<noteq> k \<longrightarrow> node_at w' q = node_at w q"
    and nf: "fault w' = fault w" and ext: "fs_ext w w'"
    using s2(2,3) arch(1) xs(3) fs_ext_trans [OF pl(2) packing_ext [OF s2(2)]]
    by (auto simp: packing_def w'2 same_env_def w1 fs_simps)
  have at': "at w' dst k"
    using at_leaf_ext [OF assms(7) _ assms(3) ext] n n2 kd by (auto simp: dir_at_def)
  have reads: "os_Open w' dst = Inr k" "os_ReadFile w' dst = Inr ?data"
    using at' kd n2 assms(12) nf by (auto simp: os_Open_def os_ReadFile_def guarded_def find_node_def at_resolve)
  have "ReadTarballEntries untar w' dst = Inr (map (entry_name rootName) xs)"
    using reads(1) kd n2 entries_whole [OF xs(2), of rootName] assms(2)
    by (simp add: ReadTarballEntries_def file_read_def tar_decoder_def)
  with xs(1) set reads(2) others show ?thesis by blast
qed

subsection \<open>An encoding and an example\<close>

text \<open>A byte encoding that has both properties: the names of the entries, each byte marked.\<close>

fun ex_event :: "tar_event \<Rightarrow> bytes" where
  "ex_event (THeader h) = concat (map (\<lambda>c. [CHR ''x'', c]) (hdrName h)) @ ''e''"
| "ex_event TGzipEnd = ''.''"
| "ex_event _ = []"

definition ex_enc :: encoder where "ex_enc es = concat (map ex_event es)"

fun ex_untar_from :: "string \<Rightarrow> bytes \<Rightarrow> string list \<times> go_error option" where
  "ex_untar_from acc [] = ([], Some (Sentinel IoErrUnexpectedEOF))"
| "ex_untar_from acc (m # bs) =
     (if m = CHR ''e'' then (case ex_untar_from [] bs of (ns, err) \<Rightarrow> (rev acc # ns, err))
      else if m = CHR ''.'' then ([], None)
      else case bs of [] \<Rightarrow> ([], Some (Sentinel IoErrUnexpectedEOF)) | c # bs \<Rightarrow> ex_untar_from (c # acc) bs)"

lemma ex_untar_name:
  "ex_untar_from acc (concat (map (\<lambda>c. [CHR ''x'', c]) s) @ bs) = ex_untar_from (rev s @ acc) bs"
  by (induction s arbitrary: acc) auto

lemma ex_untar_events:
  "whole_entries m es \<Longrightarrow> ex_untar_from [] (ex_enc (es @ [TTrailer, TGzipEnd])) = (entry_names es, None)"
proof (induction m es rule: whole_entries.induct)
  case (2 m h es)
  then show ?case by (simp add: ex_enc_def ex_untar_name)
qed (simp_all add: ex_enc_def)

lemma ex_enc_ok: "tar_encoder ex_enc" "tar_decoder ex_enc (ex_untar_from [])"
  using ex_untar_events [of 0] by (simp_all add: tar_encoder_def tar_decoder_def) (simp add: ex_enc_def)

definition ex_stage :: fsys where
  "ex_stage = \<lparr>nodes = map (\<lambda>k. (k, \<lparr>ntype = TDir, nperm = 0x1ED, ndata = [], nlink = 2\<rparr>)) [[], [''t''], [''t'', ''usr'']] @
       [([''t'', ''usr'', ''vreflink''], \<lparr>ntype = TReg, nperm = 0x1ED, ndata = ''bin'', nlink = 1\<rparr>),
        ([''t'', ''LICENSE''], \<lparr>ntype = TReg, nperm = 0x1A4, ndata = [], nlink = 1\<rparr>)],
     cwd = Inr ''/'', umask = 0x12, fault = (\<lambda>_. None)\<rparr>"

lemma ex_stage_wf: "wf_fs ex_stage"
  unfolding wf_fs_def
proof (intro conjI allI impI)
  show "dir_at ex_stage []" by (simp add: dir_at_def node_at_def ex_stage_def)
  fix k :: key and c
  assume "node_at ex_stage (k @ [c]) \<noteq> None"
  then have "(k, c) \<in> {([], ''t''), ([''t''], ''usr''), ([''t'', ''usr''], ''vreflink''), ([''t''], ''LICENSE'')}"
    by (auto simp: node_at_def ex_stage_def append_eq_Cons_conv split: if_splits)
  then show "plain_comp c" "dir_at ex_stage k"
    by (auto simp: plain_comp_def dir_at_def node_at_def ex_stage_def)
qed (simp_all add: ex_stage_def IsAbs_def has_prefix_iff)

lemma ex_stage_at:
  "at ex_stage (render True [''t'']) [''t'']" "at ex_stage (render True [''a.tgz'']) [''a.tgz'']"
proof -
  have "namei ex_stage MAXSYMLINKS [] [''t''] f = Inr ([''t''], MAXSYMLINKS)"
    "namei ex_stage MAXSYMLINKS [] [''a.tgz''] f = Inr ([''a.tgz''], MAXSYMLINKS)" for f
    by (cases f; code_simp)+
  moreover have "length (render True [''t'']) < PATH_MAX" "length (render True [''a.tgz'']) < PATH_MAX" by code_simp+
  ultimately show "at ex_stage (render True [''t'']) [''t'']" "at ex_stage (render True [''a.tgz'']) [''a.tgz'']"
    by (auto simp: plain_comp_def intro!: at_check)
qed

lemma createTarGz_packs_witness:
  "\<exists>w' es. createTarGz 5 ex_enc ex_stage (render True [''a.tgz'']) ''r'' (render True [''t'']) = Some (w', None) \<and>
     ReadTarballEntries (ex_untar_from []) w' (render True [''a.tgz'']) = Inr es \<and>
     set es = {''r/LICENSE'', ''r/usr/'', ''r/usr/vreflink''}"
proof -
  let ?run = "createTarGz 5 ex_enc ex_stage (render True [''a.tgz'']) ''r'' (render True [''t''])"
  have "(case ?run of Some (w', None) \<Rightarrow> True | _ \<Rightarrow> False)" by code_simp
  then obtain w' where run: "?run = Some (w', None)" by (auto split: option.splits prod.splits)
  have h: "plain_comps [''t'']" "dir_at ex_stage [''t'']" "\<not> prefix [''t''] [''a.tgz'']" "plain_comp ''r''"
    "\<And>n. node_at ex_stage [''a.tgz''] = Some n \<Longrightarrow> ntype n \<noteq> TSymlink"
    "fault ex_stage (SysWrite (render True [''a.tgz''])) = None" "fault ex_stage (SysOpen (render True [''a.tgz''])) = None"
    by (simp_all add: plain_comp_def dir_at_def node_at_def ex_stage_def)
  from createTarGz_packs [OF ex_enc_ok ex_stage_wf h(1) ex_stage_at(1) h(2) ex_stage_at(2) h(3,5,4,6,7) run]
  obtain xs where xs: "set xs = {(y, n). y \<noteq> [] \<and> node_at ex_stage ([''t''] @ y) = Some n}"
    "ReadTarballEntries (ex_untar_from []) w' (render True [''a.tgz'']) = Inr (map (entry_name ''r'') xs)" by blast
  have "set xs = {([''usr''], \<lparr>ntype = TDir, nperm = 0x1ED, ndata = [], nlink = 2\<rparr>),
      ([''usr'', ''vreflink''], \<lparr>ntype = TReg, nperm = 0x1ED, ndata = ''bin'', nlink = 1\<rparr>),
      ([''LICENSE''], \<lparr>ntype = TReg, nperm = 0x1A4, ndata = [], nlink = 1\<rparr>)}"
    unfolding xs(1) by (auto simp: node_at_def ex_stage_def split: if_splits)
  then have "set (map (entry_name ''r'') xs) = {''r/LICENSE'', ''r/usr/'', ''r/usr/vreflink''}"
    by (auto simp: entry_name_def render_def)
  with run xs(2) show ?thesis by blast
qed

subsection \<open>A tarball cut short\<close>

lemma walk_invariant:
  assumes "\<And>s p d e s' r. P s \<Longrightarrow> fn s p d e = (s', r) \<Longrightarrow> P s'"
  shows "walkDir fuel fn s path isdir = Some (s', r) \<Longrightarrow> P s \<Longrightarrow> P s'"
    and "walkEntries fuel fn s path es = Some (s', r) \<Longrightarrow> P s \<Longrightarrow> P s'"
  using assms
proof (induction fuel fn s path isdir and fuel fn s path es arbitrary: s' r and s' r rule: walkDir_walkEntries.induct)
  case (2 fuel fn s path isdir)
  obtain s1 e where v: "fn s path isdir None = (s1, e)" by fastforce
  with "2.prems" have s1: "P s1" by blast
  have err: "P s'" if "fn s1 path isdir (Some x) = (s', r)" for x using "2.prems"(3) [OF s1 that] .
  note run = "2.prems"(1) [unfolded walkDir.simps v, simplified]
  show ?case
  proof (cases "e = None \<and> isdir")
    case False
    with run s1 show ?thesis by (cases e) auto
  next
    case True
    show ?thesis
    proof (cases "os_ReadDir (fst s1) path")
      case (Inl x)
      with run True err show ?thesis by simp
    next
      case (Inr es)
      with run True have we: "walkEntries fuel fn s1 path es = Some (s', r)" by simp
      show ?thesis by (rule "2.IH" [OF v [symmetric] _ _ Inr we s1 "2.prems"(3)]) (use True in auto)
    qed
  qed
next
  case (4 fuel fn s path name d1 dirs)
  then obtain s1 e where wd: "walkDir fuel fn s (Join [path, name]) (IsDir d1) = Some (s1, e)"
    by (cases "walkDir fuel fn s (Join [path, name]) (IsDir d1)") auto
  from "4.IH"(1) [OF wd "4.prems"(2,3)] have s1: "P s1" .
  show ?case
  proof (cases e)
    case None
    with "4.prems"(1) wd have we: "walkEntries fuel fn s1 path dirs = Some (s', r)" by simp
    show ?thesis by (rule "4.IH"(2) [OF wd refl None we s1 "4.prems"(3)])
  next
    case (Some x)
    with "4.prems"(1) wd s1 show ?thesis by simp
  qed
qed simp_all


definition ex_buffered :: encoder where
  "ex_buffered es = (if TGzipEnd \<in> set es then ex_enc es else [])"

definition ex_full :: fsys where
  "ex_full = ex_stage\<lparr>fault := (\<lambda>c. case c of SysWrite p \<Rightarrow> Some ENOSPC | _ \<Rightarrow> None)\<rparr>"


end
