(* ===== verification/Fixtures.thy ===== *)
theory Fixtures
  imports Dev_Support
begin

section \<open>Test fixtures (internal/testsupport)\<close>

text \<open>
  \<open>testsupport.go\<close>, \<open>fixtures.go\<close> and \<open>vm.go\<close>, but for the helpers of a running test (Test_Helpers): probing a
  directory for reflinks, checking what a test suite needs, and preparing a scratch file system on a
  loop device.  \<open>clone\<close> is reflink.Reflink and \<open>run\<close> runs a command, as elsewhere.
\<close>

type_synonym 'a outcome = "(fsys \<times> 'a) option"

definition CodeOf :: "go_error option \<Rightarrow> string" where
  "CodeOf err =
     (case err of
        None \<Rightarrow> []
      | Some e \<Rightarrow> (case AsCoded e of Some (c, m) \<Rightarrow> c | None \<Rightarrow> []))"

definition squoted :: "string \<Rightarrow> string" where "squoted s = CHR 0x27 # s @ [CHR 0x27]"

subsection \<open>Probing a directory\<close>

definition ReflinkTestRootEnv :: string where "ReflinkTestRootEnv = ''VREFLINK_TEST_REFLINK_ROOT''"
definition VMShareRootEnv :: string where "VMShareRootEnv = ''VREFLINK_VM_SHARE_ROOT''"
definition defaultReflinkFixtureSize :: nat where "defaultReflinkFixtureSize = 256 * 2 ^ 20"
definition defaultVMShareFixtureSize :: nat where "defaultVMShareFixtureSize = 512 * 2 ^ 20"

text \<open>The steps in the probe directory; whatever a failed clone means, the answer is no.\<close>

definition probe_dir_steps :: "clone_fun \<Rightarrow> string \<Rightarrow> fsys \<Rightarrow> fsys \<times> (go_error + bool)" where
  "probe_dir_steps clone probeDir w =
     (let srcPath = Join [probeDir, ''src'']; dstPath = Join [probeDir, ''dst''] in
      case os_WriteFile w srcPath ''probe'' 0x180 of
        (w1, Some err) \<Rightarrow> (w1, Inl err)
      | (w1, None) \<Rightarrow>
          (case os_Open w1 srcPath of
             Inl err \<Rightarrow> (w1, Inl err)
           | Inr src \<Rightarrow>
               (case os_CreateExcl w1 dstPath 0x180 of
                  (w2, Inl err) \<Rightarrow> (w2, Inl err)
                | (w2, Inr dst) \<Rightarrow>
                    (case clone w2 dst src of
                       (w3, Some err) \<Rightarrow> (w3, Inr False)
                     | (w3, None) \<Rightarrow> (w3, Inr True)))))"

definition HasReflinkFS :: "(nat \<Rightarrow> u32) \<Rightarrow> clone_fun \<Rightarrow> fsys \<Rightarrow> string \<Rightarrow> fsys \<times> (go_error + bool)" where
  "HasReflinkFS rnd clone w path =
     (case os_MkdirTemp rnd w path ''.reflinkfs-probe-'' of
        (w1, Inl err) \<Rightarrow> (w1, Inl err)
      | (w1, Inr probeDir) \<Rightarrow>
          (case probe_dir_steps clone probeDir w1 of
             (w2, r) \<Rightarrow> (fst (os_RemoveAll w2 probeDir), r)))"

definition not_usable :: "string \<Rightarrow> go_error \<Rightarrow> go_error" where
  "not_usable cleaned err =
     WrapErr (cleaned @ '' is not usable as a reflink-capable directory: '' @ error_msg err) [err]"

definition ValidateReflinkRoot :: "(nat \<Rightarrow> u32) \<Rightarrow> clone_fun \<Rightarrow> fsys \<Rightarrow> string \<Rightarrow> fsys \<times> go_error option" where
  "ValidateReflinkRoot rnd clone w root =
     (let cleaned = Clean root in
      case os_Stat w cleaned of
        Inl err \<Rightarrow> (w, Some (not_usable cleaned err))
      | Inr info \<Rightarrow>
          if \<not> IsDir info then (w, Some (ErrorString (cleaned @ '' is not a directory'')))
          else (case HasReflinkFS rnd clone w cleaned of
                  (w1, Inl err) \<Rightarrow> (w1, Some (not_usable cleaned err))
                | (w1, Inr ok) \<Rightarrow>
                    (w1, if ok then None
                         else Some (ErrorString (cleaned @ '' does not support reflink'')))))"

definition invalid_root :: "string \<Rightarrow> string \<Rightarrow> go_error \<Rightarrow> go_error" where
  "invalid_root envName root err =
     WrapErr (envName @ ''='' @ Quote root @ '' is invalid: '' @ error_msg err) [err]"

definition resolvePreparedReflinkRoot ::
  "(nat \<Rightarrow> u32) \<Rightarrow> clone_fun \<Rightarrow> process \<Rightarrow> fsys \<Rightarrow> string \<Rightarrow> string \<Rightarrow> string \<Rightarrow> fsys \<times> (go_error + string)" where
  "resolvePreparedReflinkRoot rnd clone p w envName command suite =
     (let root = TrimSpace (Getenv p envName) in
      if root = [] then
        (w, Inl (ErrorString (suite @ '' tests require '' @ envName @
           '' to point at a prepared reflink-capable directory; use '' @ squoted command)))
      else (case ValidateReflinkRoot rnd clone w root of
              (w1, Some err) \<Rightarrow> (w1, Inl (invalid_root envName root err))
            | (w1, None) \<Rightarrow> (w1, Inr (Clean root))))"

definition reflinkfs_command :: string where
  "reflinkfs_command = ''go run ./cmd/vreflink-dev test reflinkfs''"

definition vm_command :: string where "vm_command = ''go run ./cmd/vreflink-dev test vm''"

definition ResolvePreparedReflinkTestRoot ::
  "(nat \<Rightarrow> u32) \<Rightarrow> clone_fun \<Rightarrow> process \<Rightarrow> fsys \<Rightarrow> fsys \<times> (go_error + string)" where
  "ResolvePreparedReflinkTestRoot rnd clone p w =
     resolvePreparedReflinkRoot rnd clone p w ReflinkTestRootEnv reflinkfs_command ''reflinkfs''"

definition ResolvePreparedVMShareRoot ::
  "(nat \<Rightarrow> u32) \<Rightarrow> clone_fun \<Rightarrow> process \<Rightarrow> fsys \<Rightarrow> fsys \<times> (go_error + string)" where
  "ResolvePreparedVMShareRoot rnd clone p w =
     resolvePreparedReflinkRoot rnd clone p w VMShareRootEnv vm_command ''vm''"

subsection \<open>Groups and commands\<close>

definition ResolveVirtiofsdPath :: "process \<Rightarrow> fsys \<Rightarrow> string option" where
  "ResolveVirtiofsdPath p w = LookPathAny p w [''virtiofsd'', ''/usr/lib/qemu/virtiofsd'']"

definition HasSupplementaryGroup :: "process \<Rightarrow> bool" where
  "HasSupplementaryGroup p =
     (case Getgroups p of
        Inl err \<Rightarrow> False
      | Inr groups \<Rightarrow> list_ex (\<lambda>group. group \<noteq> Getgid p) groups)"

definition FirstSupplementaryGroup :: "process \<Rightarrow> u32 option" where
  "FirstSupplementaryGroup p =
     (case Getgroups p of
        Inl err \<Rightarrow> None
      | Inr groups \<Rightarrow>
          map_option word_of_int (find (\<lambda>group. 0 \<le> group \<and> group \<noteq> Getgid p) groups))"

definition NonInteractiveSudoAvailable :: "fsys runner \<Rightarrow> process \<Rightarrow> fsys \<Rightarrow> bool outcome" where
  "NonInteractiveSudoAvailable run p w =
     (if Geteuid p = 0 then Some (w, True)
      else case RunCommand run w [] None ''sudo'' [''-n'', ''true''] of
        None \<Rightarrow> None
      | Some (w1, result, err) \<Rightarrow> Some (w1, err = None))"

definition RequirePrivilegedSuiteAccess ::
  "fsys runner \<Rightarrow> process \<Rightarrow> fsys \<Rightarrow> string \<Rightarrow> string \<Rightarrow> go_error option outcome" where
  "RequirePrivilegedSuiteAccess run p w suite command =
     (if Geteuid p = 0 then Some (w, None)
      else case NonInteractiveSudoAvailable run p w of
        None \<Rightarrow> None
      | Some (w1, ok) \<Rightarrow>
          Some (w1, if ok then None
            else Some (ErrorString (suite @ '' tests require root or non-interactive sudo; use '' @
              squoted command))))"

definition SudoPrefix :: "fsys runner \<Rightarrow> process \<Rightarrow> fsys \<Rightarrow> (go_error + string list) outcome" where
  "SudoPrefix run p w =
     (if Geteuid p = 0 then Some (w, Inr [])
      else case NonInteractiveSudoAvailable run p w of
        None \<Rightarrow> None
      | Some (w1, ok) \<Rightarrow>
          Some (w1, if \<not> ok then Inl (ErrorString ''non-interactive sudo is required'')
                    else Inr [''sudo'', ''-n'']))"

definition FormatCommand :: "string list \<Rightarrow> string" where
  "FormatCommand args = join_with (CHR '' '') (map Quote args)"

definition RunCommandOrStderr ::
  "'s runner \<Rightarrow> 's \<Rightarrow> string \<Rightarrow> string list option \<Rightarrow> string \<Rightarrow> string list \<Rightarrow> ('s \<times> go_error option) option" where
  "RunCommandOrStderr run w dir env name args =
     (case RunCommand run w dir env name args of
        None \<Rightarrow> None
      | Some (w1, result, None) \<Rightarrow> Some (w1, None)
      | Some (w1, result, Some err) \<Rightarrow>
          let stderr = TrimSpace (Stderr result) in
          Some (w1, Some (if stderr = [] then err
            else WrapErr (error_msg err @ [CHR 0x0A] @ stderr) [err])))"

definition runPrefixedCommandOrStderr ::
  "'s runner \<Rightarrow> 's \<Rightarrow> string \<Rightarrow> string list option \<Rightarrow> string list \<Rightarrow> string \<Rightarrow> string list \<Rightarrow>
    ('s \<times> go_error option) option" where
  "runPrefixedCommandOrStderr run w dir env pre name args =
     (let command = pre @ [name] @ args in
      if command = [] then Some (w, None)
      else RunCommandOrStderr run w dir env (hd command) (tl command))"

subsection \<open>What a suite needs\<close>

definition missing :: "bool \<Rightarrow> string \<Rightarrow> string list" where
  "missing found issue = (if found then [] else [issue])"

definition CheckReflinkFSPrereqs :: "fsys runner \<Rightarrow> process \<Rightarrow> fsys \<Rightarrow> string list outcome" where
  "CheckReflinkFSPrereqs run p w =
     (let issues = missing (LookPathAny p w [''mkfs.btrfs''] \<noteq> None)
        ''missing mkfs.btrfs (install btrfs-progs to let the runner provision a reflink-capable scratch root)''
      in case RequirePrivilegedSuiteAccess run p w ''reflinkfs'' reflinkfs_command of
           None \<Rightarrow> None
         | Some (w1, None) \<Rightarrow> Some (w1, issues)
         | Some (w1, Some err) \<Rightarrow> Some (w1, issues @ [error_msg err]))"

definition CheckVMPrereqs :: "fsys runner \<Rightarrow> process \<Rightarrow> fsys \<Rightarrow> string list outcome" where
  "CheckVMPrereqs run p w =
     (let issues =
        concat (map (\<lambda>bin. missing (LookPathAny p w [bin] \<noteq> None) (''missing '' @ bin))
          [''go'', ''ssh'', ''ssh-keygen'', ''qemu-system-x86_64'', ''qemu-img'', ''cloud-localds'']) @
        (if Getenv p VMShareRootEnv = [] then missing (LookPathAny p w [''mkfs.btrfs''] \<noteq> None)
           ''missing mkfs.btrfs (install btrfs-progs or set VREFLINK_VM_SHARE_ROOT to an existing reflink-capable export)''
         else []) @
        missing (ResolveVirtiofsdPath p w \<noteq> None)
          ''missing virtiofsd (expected in PATH or /usr/lib/qemu/virtiofsd)'' @
        missing (is_ok (os_Stat w ''/dev/kvm'')) ''missing /dev/kvm'' @
        missing (is_ok (os_Stat w ''/dev/vhost-vsock''))
          ''missing /dev/vhost-vsock (try: sudo modprobe vhost_vsock)'' @
        missing (HasSupplementaryGroup p)
          ''missing supplementary host groups (the vm suite uses one to verify token-mapped group access)''
      in case RequirePrivilegedSuiteAccess run p w ''vm'' vm_command of
           None \<Rightarrow> None
         | Some (w1, None) \<Rightarrow> Some (w1, issues)
         | Some (w1, Some err) \<Rightarrow> Some (w1, issues @ [error_msg err]))"

subsection \<open>A scratch file system on a loop device\<close>

definition errors_Join :: "go_error list \<Rightarrow> go_error option" where
  "errors_Join errs = (if errs = [] then None else Some (JoinErr errs))"

text \<open>The cleanup keeps whether the image is mounted; its result carries the flag it leaves.\<close>

definition loopback_cleanup ::
  "fsys runner \<Rightarrow> string \<Rightarrow> string list \<Rightarrow> string \<Rightarrow> string \<Rightarrow> bool \<Rightarrow> fsys \<Rightarrow> (bool \<times> go_error option) outcome" where
  "loopback_cleanup run repoRoot sudoPrefix runRoot shareRoot mounted w =
     (case (if mounted
            then (case runPrefixedCommandOrStderr run w repoRoot None sudoPrefix ''umount'' [shareRoot] of
                    None \<Rightarrow> None
                  | Some (w1, Some err) \<Rightarrow> Some (w1, True, [err])
                  | Some (w1, None) \<Rightarrow> Some (w1, False, []))
            else Some (w, False, [])) of
        None \<Rightarrow> None
      | Some (w1, mounted, errs) \<Rightarrow>
          (case os_RemoveAll w1 runRoot of
             (w2, Some err) \<Rightarrow> Some (w2, mounted, errors_Join (errs @ [err]))
           | (w2, None) \<Rightarrow> Some (w2, mounted, errors_Join errs)))"

definition cleanup_fun :: "fsys runner \<Rightarrow> string \<Rightarrow> string list \<Rightarrow> string \<Rightarrow> string \<Rightarrow> fsys \<Rightarrow> go_error option outcome" where
  "cleanup_fun run repoRoot sudoPrefix runRoot shareRoot w =
     map_option (\<lambda>(w1, mounted, err). (w1, err)) (loopback_cleanup run repoRoot sudoPrefix runRoot shareRoot True w)"

text \<open>The image file: created, extended to its size, closed.\<close>

definition make_image :: "fsys \<Rightarrow> string \<Rightarrow> nat \<Rightarrow> fsys \<times> go_error option" where
  "make_image w shareImage sizeBytes =
     (case os_Create w shareImage of
        (w1, Inl err) \<Rightarrow> (w1, Some err)
      | (w1, Inr f) \<Rightarrow>
          (case file_Truncate w1 shareImage f sizeBytes of
             (w2, Some err) \<Rightarrow> (w2, Some err)
           | (w2, None) \<Rightarrow> (w2, file_Close w2 shareImage)))"

text \<open>Every failure after the run directory was made removes it; after the mount, the cleanup does.\<close>

definition fail_removing :: "string \<Rightarrow> go_error \<Rightarrow> fsys \<Rightarrow> (go_error + 'a) outcome" where
  "fail_removing runRoot err w = Some (fst (os_RemoveAll w runRoot), Inl err)"

definition fail_cleaning ::
  "(fsys \<Rightarrow> go_error option outcome) \<Rightarrow> go_error \<Rightarrow> fsys \<Rightarrow> (go_error + 'a) outcome" where
  "fail_cleaning cleanup err w = map_option (\<lambda>(w1, cerr). (w1, Inl err)) (cleanup w)"

definition mount_scratch ::
  "fsys runner \<Rightarrow> (nat \<Rightarrow> u32) \<Rightarrow> clone_fun \<Rightarrow> process \<Rightarrow> string \<Rightarrow> string list \<Rightarrow> string \<Rightarrow> nat \<Rightarrow> fsys \<Rightarrow>
    (go_error + string \<times> (fsys \<Rightarrow> go_error option outcome)) outcome" where
  "mount_scratch run rnd clone p repoRoot sudoPrefix runRoot sizeBytes w =
     (let shareRoot = Join [runRoot, ''root''];
          shareImage = Join [runRoot, ''scratch.btrfs.img''];
          cleanup = cleanup_fun run repoRoot sudoPrefix runRoot shareRoot;
          owner = show_int (Getuid p) @ '':'' @ show_int (Getgid p)
      in case os_MkdirAll w shareRoot 0x1ED of
        (w, Some err) \<Rightarrow> fail_removing runRoot err w
      | (w, None) \<Rightarrow>
      (case make_image w shareImage sizeBytes of
        (w, Some err) \<Rightarrow> fail_removing runRoot err w
      | (w, None) \<Rightarrow>
      (case RunCommandOrStderr run w repoRoot None ''mkfs.btrfs'' [''-q'', shareImage] of
        None \<Rightarrow> None
      | Some (w, Some err) \<Rightarrow> fail_removing runRoot err w
      | Some (w, None) \<Rightarrow>
      (case runPrefixedCommandOrStderr run w repoRoot None sudoPrefix ''mount''
          [''-o'', ''loop'', shareImage, shareRoot] of
        None \<Rightarrow> None
      | Some (w, Some err) \<Rightarrow> fail_removing runRoot err w
      | Some (w, None) \<Rightarrow>
      (case runPrefixedCommandOrStderr run w repoRoot None sudoPrefix ''chown'' [owner, shareRoot] of
        None \<Rightarrow> None
      | Some (w, Some err) \<Rightarrow> fail_cleaning cleanup err w
      | Some (w, None) \<Rightarrow>
      (case ValidateReflinkRoot rnd clone w shareRoot of
        (w, Some err) \<Rightarrow> fail_cleaning cleanup err w
      | (w, None) \<Rightarrow> Some (w, Inr (shareRoot, cleanup))))))))"

definition prepareLoopbackReflinkRoot ::
  "fsys runner \<Rightarrow> (nat \<Rightarrow> u32) \<Rightarrow> (nat \<Rightarrow> u32) \<Rightarrow> clone_fun \<Rightarrow> process \<Rightarrow> string \<Rightarrow> string \<Rightarrow> nat \<Rightarrow> string \<Rightarrow> string \<Rightarrow>
    fsys \<Rightarrow> (go_error + string \<times> (fsys \<Rightarrow> go_error option outcome)) outcome" where
  "prepareLoopbackReflinkRoot run rnd1 rnd2 clone p repoRoot tempDirName sizeBytes suite command w =
     (case RequirePrivilegedSuiteAccess run p w suite command of
        None \<Rightarrow> None
      | Some (w, Some err) \<Rightarrow> Some (w, Inl err)
      | Some (w, None) \<Rightarrow>
      if LookPathAny p w [''mkfs.btrfs''] = None then
        Some (w, Inl (ErrorString (''mkfs.btrfs is required to provision the '' @ suite @ '' scratch root'')))
      else
      (case SudoPrefix run p w of
        None \<Rightarrow> None
      | Some (w, Inl err) \<Rightarrow> Some (w, Inl err)
      | Some (w, Inr sudoPrefix) \<Rightarrow>
      let base = Join [repoRoot, ''.tmp'', tempDirName] in
      (case os_MkdirAll w base 0x1ED of
        (w, Some err) \<Rightarrow> Some (w, Inl err)
      | (w, None) \<Rightarrow>
      (case os_MkdirTemp rnd1 w base ''run.'' of
        (w, Inl err) \<Rightarrow> Some (w, Inl err)
      | (w, Inr runRoot) \<Rightarrow>
          mount_scratch run rnd2 clone p repoRoot sudoPrefix runRoot sizeBytes w))))"

definition PrepareReflinkTestRoot ::
  "fsys runner \<Rightarrow> (nat \<Rightarrow> u32) \<Rightarrow> (nat \<Rightarrow> u32) \<Rightarrow> clone_fun \<Rightarrow> process \<Rightarrow> string \<Rightarrow>
    fsys \<Rightarrow> (go_error + string \<times> (fsys \<Rightarrow> go_error option outcome)) outcome" where
  "PrepareReflinkTestRoot run rnd1 rnd2 clone p repoRoot w =
     prepareLoopbackReflinkRoot run rnd1 rnd2 clone p repoRoot ''reflinkfs-fixtures''
       defaultReflinkFixtureSize ''reflinkfs'' reflinkfs_command w"

definition PrepareVMShareRoot ::
  "fsys runner \<Rightarrow> (nat \<Rightarrow> u32) \<Rightarrow> (nat \<Rightarrow> u32) \<Rightarrow> clone_fun \<Rightarrow> process \<Rightarrow> string \<Rightarrow>
    fsys \<Rightarrow> (go_error + string \<times> (fsys \<Rightarrow> go_error option outcome)) outcome" where
  "PrepareVMShareRoot run rnd1 rnd2 clone p repoRoot w =
     prepareLoopbackReflinkRoot run rnd1 rnd2 clone p repoRoot ''vm-share-fixtures''
       defaultVMShareFixtureSize ''vm'' vm_command w"

end
