(* ===== verification/Dev_Runner.thy ===== *)
theory Dev_Runner
  imports Fixtures Release_Build
begin

section \<open>The development runner (cmd/vreflink-dev)\<close>

text \<open>
  \<open>main.go\<close>: the commands \<open>test\<close>, \<open>release build\<close> and \<open>vm check-prereqs\<close> over the record \<open>deps\<close> of
  what they call.  The state is a parameter \<open>'s\<close> with the output of the process beside it; \<open>None\<close> is
  a command that never ends.  The command line itself is third-party: \<open>race\<close> is the value of the
  flag, or the error of reading it.
\<close>

type_synonym 's io = "'s \<times> string \<times> string"

record 's suitePreparation =
  prepEnv :: "string list"
  prepCleanup :: "('s \<Rightarrow> ('s \<times> go_error option) option) option"

type_synonym 's preparer = "'s \<Rightarrow> string \<Rightarrow> ('s \<times> (go_error + 's suitePreparation)) option"

record 's deps =
  repoRoot_dep :: "go_error + string"
  runCommand_dep :: "'s io \<Rightarrow> string \<Rightarrow> string list option \<Rightarrow> string \<Rightarrow> string list \<Rightarrow> ('s io \<times> go_error option) option"
  buildRelease_dep :: "Options \<Rightarrow> 's \<Rightarrow> ('s \<times> (go_error + Artifacts)) option"
  checkVMPrereqs_dep :: "'s \<Rightarrow> ('s \<times> string list) option"
  prepareReflinkSuite_dep :: "'s preparer"
  prepareVMSuite_dep :: "'s preparer"
  environ_dep :: "string list"

subsection \<open>The environment of a command\<close>

text \<open>The first entry of a variable is replaced, an entry without one is added.\<close>

fun replace_entry :: "string \<Rightarrow> string \<Rightarrow> string list \<Rightarrow> string list" where
  "replace_entry key kv [] = [kv]"
| "replace_entry key kv (entry # env) =
     (if has_prefix entry (key @ ''='') then kv # env else entry # replace_entry key kv env)"

fun merge_loop :: "string list \<Rightarrow> string list \<Rightarrow> string list" where
  "merge_loop env [] = env"
| "merge_loop env (kv # extra) =
     merge_loop
       (if CHR ''='' \<in> set kv then replace_entry (takeWhile (\<lambda>c. c \<noteq> CHR ''='') kv) kv env
        else env @ [kv]) extra"

definition mergeEnv :: "string list \<Rightarrow> string list \<Rightarrow> string list option" where
  "mergeEnv environ extra = (if extra = [] then None else Some (merge_loop environ extra))"

subsection \<open>Running go\<close>

definition runGoWithEnv :: "'s deps \<Rightarrow> string list \<Rightarrow> string list \<Rightarrow> 's io \<Rightarrow> ('s io \<times> go_error option) option" where
  "runGoWithEnv d extraEnv args s =
     (case repoRoot_dep d of
        Inl err \<Rightarrow> Some (s, Some err)
      | Inr repoRoot \<Rightarrow> runCommand_dep d s repoRoot (mergeEnv (environ_dep d) extraEnv) ''go'' args)"

definition runGo :: "'s deps \<Rightarrow> string list \<Rightarrow> 's io \<Rightarrow> ('s io \<times> go_error option) option" where
  "runGo d args s = runGoWithEnv d [] args s"

definition cleanup_error :: "go_error option \<Rightarrow> go_error option \<Rightarrow> go_error option" where
  "cleanup_error err cleanupErr =
     (case cleanupErr of
        None \<Rightarrow> err
      | Some ce \<Rightarrow>
          (case err of
             None \<Rightarrow> Some ce
           | Some e \<Rightarrow> Some (WrapErr (error_msg e @ [CHR 0x0A] @ ''cleanup error: '' @ error_msg ce) [e])))"

definition runPreparedGoSuite ::
  "'s deps \<Rightarrow> string list \<Rightarrow> 's preparer option \<Rightarrow> 's io \<Rightarrow> ('s io \<times> go_error option) option" where
  "runPreparedGoSuite d args prepare s =
     (case prepare of
        None \<Rightarrow> runGo d args s
      | Some prepare \<Rightarrow>
          (case repoRoot_dep d of
             Inl err \<Rightarrow> Some (s, Some err)
           | Inr repoRoot \<Rightarrow>
               (case prepare (fst s) repoRoot of
                  None \<Rightarrow> None
                | Some (st, Inl err) \<Rightarrow> Some ((st, snd s), Some err)
                | Some (st, Inr prepared) \<Rightarrow>
                    (case runCommand_dep d (st, snd s) repoRoot
                        (mergeEnv (environ_dep d) (prepEnv prepared)) ''go'' args of
                       None \<Rightarrow> None
                     | Some ((st1, out), err) \<Rightarrow>
                         (case prepCleanup prepared of
                            None \<Rightarrow> Some ((st1, out), err)
                          | Some cleanup \<Rightarrow>
                              (case cleanup st1 of
                                 None \<Rightarrow> None
                               | Some (st2, cleanupErr) \<Rightarrow>
                                   Some ((st2, out), cleanup_error err cleanupErr)))))))"

subsection \<open>The commands\<close>

definition race_error :: "string \<Rightarrow> string" where
  "race_error suite =
     (if suite = ''vm'' then
        ''the vm suite does not support --race; use '' @ squoted ''test quick --race'' @ '' or '' @
          squoted ''test reflinkfs --race'' @ '' instead''
      else if suite = ''release'' then ''the release suite does not support --race''
      else ''the '' @ suite @ '' suite does not support --race'')"

definition newGoTestSuiteCmd :: "'s deps \<Rightarrow> string \<Rightarrow> string list \<Rightarrow> bool \<Rightarrow> 's preparer option \<Rightarrow>
    go_error + bool \<Rightarrow> 's io \<Rightarrow> ('s io \<times> go_error option) option" where
  "newGoTestSuiteCmd d suite baseArgs allowRace prepare race s =
     (case race of
        Inl err \<Rightarrow> Some (s, Some err)
      | Inr race \<Rightarrow>
          if race \<and> \<not> allowRace then Some (s, Some (ErrorString (race_error suite)))
          else
            let args = (if race then [''test'', ''-race''] @ tl baseArgs else baseArgs)
            in runPreparedGoSuite d args prepare s)"

definition quick_args :: "string list" where "quick_args = [''test'', ''./...'']"
definition reflinkfs_args :: "string list" where
  "reflinkfs_args = [''test'', ''-tags'', ''reflinkfstest'', ''./internal/service'']"
definition vm_args :: "string list" where
  "vm_args = [''test'', ''-count=1'', ''-tags'', ''vmtest'', ''./integration/vm'']"
definition release_args :: "string list" where
  "release_args = [''test'', ''-count=1'', ''-tags'', ''releasetest'', ''./integration/release'']"

fun run_suites :: "'s deps \<Rightarrow> (string list \<times> 's preparer option) list \<Rightarrow> 's io \<Rightarrow> ('s io \<times> go_error option) option" where
  "run_suites d [] s = Some (s, None)"
| "run_suites d ((args, prepare) # specs) s =
     (case runPreparedGoSuite d args prepare s of
        None \<Rightarrow> None
      | Some (s1, Some err) \<Rightarrow> Some (s1, Some err)
      | Some (s1, None) \<Rightarrow> run_suites d specs s1)"

definition newAllTestsCmd :: "'s deps \<Rightarrow> go_error + bool \<Rightarrow> 's io \<Rightarrow> ('s io \<times> go_error option) option" where
  "newAllTestsCmd d race s =
     (case race of
        Inl err \<Rightarrow> Some (s, Some err)
      | Inr race \<Rightarrow>
          if race then Some (s, Some (ErrorString (''the all suite does not support --race because the vm and '' @
            ''release suites do not run with race; run quick --race and reflinkfs --race separately'')))
          else run_suites d [(quick_args, None), (reflinkfs_args, Some (prepareReflinkSuite_dep d)),
            (vm_args, Some (prepareVMSuite_dep d))] s)"

text \<open>\<open>vreflink-dev test SUITE\<close>; an unknown suite is refused by the command line.\<close>

definition newTestCmd :: "'s deps \<Rightarrow> string \<Rightarrow> go_error + bool \<Rightarrow> 's io \<Rightarrow> ('s io \<times> go_error option) option option" where
  "newTestCmd d suite race s =
     (if suite = ''quick'' then Some (newGoTestSuiteCmd d suite quick_args True None race s)
      else if suite = ''reflinkfs'' then
        Some (newGoTestSuiteCmd d suite reflinkfs_args True (Some (prepareReflinkSuite_dep d)) race s)
      else if suite = ''vm'' then
        Some (newGoTestSuiteCmd d suite vm_args False (Some (prepareVMSuite_dep d)) race s)
      else if suite = ''release'' then Some (newGoTestSuiteCmd d suite release_args False None race s)
      else if suite = ''all'' then Some (newAllTestsCmd d race s)
      else None)"

definition newReleaseBuildCmd :: "'s deps \<Rightarrow> Options \<Rightarrow> 's io \<Rightarrow> ('s io \<times> go_error option) option" where
  "newReleaseBuildCmd d opts s =
     (case s of (st, out, err) \<Rightarrow>
      case buildRelease_dep d opts st of
        None \<Rightarrow> None
      | Some (st1, Inl e) \<Rightarrow> Some ((st1, out, err), Some e)
      | Some (st1, Inr a) \<Rightarrow>
          Some ((st1, out @ ''built '' @ TarballPath a @ [CHR 0x0A] @ ''built '' @ DebPath a @ [CHR 0x0A] @
            ''wrote '' @ ChecksumsPath a @ [CHR 0x0A], err), None))"

definition checkPrereqsCmd :: "'s deps \<Rightarrow> 's io \<Rightarrow> ('s io \<times> go_error option) option" where
  "checkPrereqsCmd d s =
     (case s of (st, out, err) \<Rightarrow>
      case checkVMPrereqs_dep d st of
        None \<Rightarrow> None
      | Some (st1, issues) \<Rightarrow>
          if issues = [] then Some ((st1, out @ ''vm prerequisites look good'' @ [CHR 0x0A], err), None)
          else Some ((st1, out, err @ concat (map (\<lambda>issue. issue @ [CHR 0x0A]) issues)),
            Some (ErrorString ''vm prerequisites are not satisfied'')))"

subsection \<open>The dependencies of the program\<close>

definition formatPrereqError :: "string \<Rightarrow> string list \<Rightarrow> go_error" where
  "formatPrereqError suite issues =
     ErrorString (suite @ '' prerequisites are not satisfied:'' @ [CHR 0x0A] @ join_with (CHR 0x0A) issues)"

definition no_preparation :: "fsys suitePreparation" where
  "no_preparation = \<lparr>prepEnv = [], prepCleanup = None\<rparr>"

definition prepared_root :: "string \<Rightarrow> (go_error + string \<times> (fsys \<Rightarrow> go_error option outcome)) outcome \<Rightarrow>
    (fsys \<times> (go_error + fsys suitePreparation)) option" where
  "prepared_root envName r =
     (case r of
        None \<Rightarrow> None
      | Some (w, Inl err) \<Rightarrow> Some (w, Inl err)
      | Some (w, Inr (root, cleanup)) \<Rightarrow>
          Some (w, Inr \<lparr>prepEnv = [envName @ ''='' @ root], prepCleanup = Some cleanup\<rparr>))"

definition defaultPrepareReflinkSuite ::
  "fsys runner \<Rightarrow> (nat \<Rightarrow> u32) \<Rightarrow> (nat \<Rightarrow> u32) \<Rightarrow> clone_fun \<Rightarrow> process \<Rightarrow> fsys preparer" where
  "defaultPrepareReflinkSuite run rnd1 rnd2 clone p w repoRoot =
     (let root = Getenv p ReflinkTestRootEnv in
      if root \<noteq> [] then
        (case RequirePrivilegedSuiteAccess run p w ''reflinkfs'' reflinkfs_command of
           None \<Rightarrow> None
         | Some (w, Some err) \<Rightarrow> Some (w, Inl err)
         | Some (w, None) \<Rightarrow>
             (case ValidateReflinkRoot rnd2 clone w root of
                (w, Some err) \<Rightarrow> Some (w, Inl (invalid_root ReflinkTestRootEnv root err))
              | (w, None) \<Rightarrow> Some (w, Inr no_preparation)))
      else
        (case CheckReflinkFSPrereqs run p w of
           None \<Rightarrow> None
         | Some (w, issues) \<Rightarrow>
             if issues \<noteq> [] then Some (w, Inl (formatPrereqError ''reflinkfs'' issues))
             else prepared_root ReflinkTestRootEnv (PrepareReflinkTestRoot run rnd1 rnd2 clone p repoRoot w)))"

definition defaultPrepareVMSuite ::
  "fsys runner \<Rightarrow> (nat \<Rightarrow> u32) \<Rightarrow> (nat \<Rightarrow> u32) \<Rightarrow> clone_fun \<Rightarrow> process \<Rightarrow> fsys preparer" where
  "defaultPrepareVMSuite run rnd1 rnd2 clone p w repoRoot =
     (case CheckVMPrereqs run p w of
        None \<Rightarrow> None
      | Some (w, issues) \<Rightarrow>
          if issues \<noteq> [] then Some (w, Inl (formatPrereqError ''vm'' issues))
          else
            let shareRoot = Getenv p VMShareRootEnv in
            if shareRoot \<noteq> [] then
              (case ValidateReflinkRoot rnd2 clone w shareRoot of
                 (w, Some err) \<Rightarrow> Some (w, Inl (invalid_root VMShareRootEnv shareRoot err))
               | (w, None) \<Rightarrow> Some (w, Inr no_preparation))
            else prepared_root VMShareRootEnv (PrepareVMShareRoot run rnd1 rnd2 clone p repoRoot w))"

definition defaultDeps :: "nat \<Rightarrow> encoder \<Rightarrow> fsys runner \<Rightarrow> (nat \<Rightarrow> u32) \<Rightarrow> (nat \<Rightarrow> u32) \<Rightarrow> clone_fun \<Rightarrow>
    process \<Rightarrow> assets \<Rightarrow> fsys deps" where
  "defaultDeps fuel enc run rnd1 rnd2 clone p as =
     \<lparr>repoRoot_dep = SourceRepoRoot p,
      runCommand_dep = RunCommandStreaming run,
      buildRelease_dep = Build fuel enc run rnd1 p as,
      checkVMPrereqs_dep = CheckVMPrereqs run p,
      prepareReflinkSuite_dep = defaultPrepareReflinkSuite run rnd1 rnd2 clone p,
      prepareVMSuite_dep = defaultPrepareVMSuite run rnd1 rnd2 clone p,
      environ_dep = Environ p\<rparr>"

end
