(* ===== verification/Fixture_Properties.thy ===== *)
theory Fixture_Properties
  imports Dev_Runner Example
begin

section \<open>What the development tools leave behind\<close>

text \<open>
  Probing a directory for reflinks leaves no trace; a test suite releases what was prepared for it;
  the environment of a suite is that of the process, with its own variables replaced.
\<close>

subsection \<open>A probe directory\<close>

lemma mkdirtemp_result:
  assumes "leads w (render True ps) k" "plain_comps ps" "dir_at w k" "sep \<notin> set pre" "2 < length pre"
    and "mkdirtemp_loop rnd dir (temp_prefix (render True ps) pre) tries w = (w', r)"
  shows "case r of Inl e \<Rightarrow> w' = w | Inr p \<Rightarrow>
      \<exists>c. plain_comp c \<and> p = Join [render True ps, c] \<and> node_at w (k @ [c]) = None \<and> at w p (k @ [c]) \<and>
        w' = put_node w (k @ [c]) (new_dir w (k @ [c]) 0x1C0)"
  using assms(6)
proof (induction "10000 - tries" arbitrary: tries rule: less_induct)
  case less
  let ?t = "pre @ show_nat (unat (rnd tries))"
  let ?p = "Join [render True ps, ?t]"
  have name: "temp_prefix (render True ps) pre @ show_nat (unat (rnd tries)) = ?p" and t: "plain_comp ?t"
    using temp_prefix_Join [OF assms(2,4,5)] plain_temp [OF assms(4,5)] by simp_all
  obtain w1 x where mk: "os_Mkdir w ?p 0x1C0 = (w1, x)" by fastforce
  show ?case
  proof (cases x)
    case None
    note m = Mkdir_child [OF mk [unfolded None] assms(1) t]
    have "w' = w1" "r = Inr ?p"
      using less.prems mk None by (subst (asm) mkdirtemp_loop.simps; auto simp: name Let_def)+
    with m t show ?thesis by auto
  next
    case (Some e)
    with mk have "w1 = w" by (auto dest: Mkdir_Some)
    show ?thesis
    proof (cases "os_IsExist e \<and> Suc tries < 10000")
      case True
      then have "mkdirtemp_loop rnd dir (temp_prefix (render True ps) pre) (Suc tries) w = (w', r)"
        using less.prems mk Some \<open>w1 = w\<close>
        by (subst (asm) mkdirtemp_loop.simps) (simp add: name Let_def)
      with True show ?thesis by (intro less.hyps) auto
    next
      case False
      then have "w' = w \<and> (\<exists>e. r = Inl e)"
        using less.prems mk Some \<open>w1 = w\<close>
        by (subst (asm) mkdirtemp_loop.simps) (auto simp: name Let_def split: if_splits sum.splits)
      then show ?thesis by auto
    qed
  qed
qed

text \<open>\<open>inside q w w'\<close>: from \<open>w\<close> to \<open>w'\<close> only the contents of the directory \<open>q\<close> changed.\<close>

definition inside :: "key \<Rightarrow> fsys \<Rightarrow> fsys \<Rightarrow> bool" where
  "inside q w w' \<longleftrightarrow> same_env w w' \<and> (\<forall>x. x = q \<or> \<not> prefix q x \<longrightarrow> node_at w' x = node_at w x)"

lemma inside_refl: "inside q w w"
  by (simp add: inside_def)

lemma inside_trans: "inside q w w' \<Longrightarrow> inside q w' w'' \<Longrightarrow> inside q w w''"
  unfolding inside_def by (metis same_env_trans)

lemma inside_put: "inside q w (put_node w (q @ [c]) n)"
  by (auto simp: inside_def fs_simps)

lemma probe_dir_inside:
  assumes "clone_contract clone" "leads w p q" "dir_at w q" "\<And>c. node_at w (q @ [c]) = None"
    and "probe_dir_steps clone p w = (w', r)"
  shows "inside q w w'"
proof -
  let ?s = "Join [p, ''src'']" and ?d = "Join [p, ''dst'']"
  have pl: "plain_comp ''src''" "plain_comp ''dst''" by (simp_all add: plain_comp_def)
  obtain w1 e1 where wr: "os_WriteFile w ?s ''probe'' 0x180 = (w1, e1)" by fastforce
  have leads1: "leads w' p q" "dir_at w' q" if "fs_ext w w'" for w'
    using leads_ext [OF assms(2,3) that] fs_ext_dir [OF that assms(3)] by simp_all
  have w1: "w1 = w \<and> e1 \<noteq> None \<or> length ?s < PATH_MAX \<and> (\<exists>n. w1 = put_node w (q @ [''src'']) n \<and> ntype n = TReg)"
  proof (cases "length ?s < PATH_MAX")
    case True
    then have "resolve w ?s True = Inr (q @ [''src''])"
      using assms(2-4) pl by (intro at_resolve at_child) auto
    with wr assms(4) True show ?thesis
      by (auto simp: os_WriteFile_def guarded_def Let_def new_file_def split: option.splits if_splits)
  next
    case False
    obtain cs where "plain_comps cs" "p = render True cs" using assms(2) by (auto simp: leads_def)
    with False pl have "resolve w ?s True = Inl ENAMETOOLONG" by (simp add: Join_name resolve_render)
    with wr show ?thesis by (auto simp: os_WriteFile_def guarded_def split: option.splits)
  qed
  have in1: "inside q w w1" using w1 inside_refl inside_put by auto
  show ?thesis
  proof (cases "e1 = None \<and> (\<exists>src. os_Open w1 ?s = Inr src)")
    case False
    with wr assms(5) have "w' = w1" by (auto simp: probe_dir_steps_def Let_def split: option.splits sum.splits)
    with in1 show ?thesis by simp
  next
    case True
    then obtain src where src: "os_Open w1 ?s = Inr src" by blast
    obtain n where n: "w1 = put_node w (q @ [''src'']) n" "ntype n = TReg" "length ?s < PATH_MAX" using w1 True by auto
    have ext1: "fs_ext w w1" unfolding n(1) using assms(4) by (intro fs_ext_put) simp
    have "at w1 ?s (q @ [''src''])"
      using leads1 [OF ext1] pl n by (intro at_child) (auto simp: fs_simps)
    with src have s: "src = q @ [''src'']" using Open_at by blast
    obtain w2 x where cr: "os_CreateExcl w1 ?d 0x180 = (w2, x)" by fastforce
    show ?thesis
    proof (cases x)
      case (Inl e)
      with cr have "w2 = w1" by (auto dest: CreateExcl_Inl)
      with Inl True wr cr src assms(5) in1 show ?thesis by (simp add: probe_dir_steps_def Let_def)
    next
      case (Inr dst)
      with cr have d: "resolve w1 ?d False = Inr dst" "node_at w1 dst = None" "w2 = put_node w1 dst (new_file w1 0x180)"
        by (auto simp: os_CreateExcl_def guarded_def free_place_def split: option.splits sum.splits if_splits)
      have dst: "dst = q @ [''dst'']" using resolve_child [OF leads1(1) [OF ext1] pl(2) d(1)] by simp
      have in2: "inside q w1 w2" unfolding d(3) dst by (rule inside_put)
      obtain w3 c where cl: "clone w2 dst src = (w3, c)" by fastforce
      have "node_at w2 dst = Some (new_file w1 0x180)" "node_at w2 src = Some n" "dst \<noteq> src"
        by (auto simp: d(3) s dst n(1) fs_simps)
      then obtain nd where "w3 = put_node w2 dst nd" using assms(1) cl unfolding clone_contract_def by blast
      then have in3: "inside q w2 w3" unfolding dst by (auto intro: inside_put)
      have "w' = w3" using True wr cr Inr src cl assms(5) by (simp add: probe_dir_steps_def Let_def split: option.splits)
      with in1 in2 in3 show ?thesis by (blast intro: inside_trans)
    qed
  qed
qed

lemma map_of_filter_keys: "map_of (filter (\<lambda>(q, n). P q) xs) x = (if P x then map_of xs x else None)"
  by (induction xs) auto

lemma RemoveAll_below:
  assumes "at w p q" "node_at w q = Some n" "\<And>x. fault w (SysRemove x) = None"
    and "p \<noteq> []" "p \<noteq> ''.''" "\<not> has_prefix (rev p) ''./''"
  shows "node_at (fst (os_RemoveAll w p)) x = (if prefix q x then None else node_at w x)"
proof -
  have "stuck w p q r = None" for r by (simp add: stuck_def assms(3))
  then have "remove_below w p q = w\<lparr>nodes := filter (\<lambda>(r, m). \<not> prefix q r) (nodes w)\<rparr>"
    by (simp add: remove_below_def list_all_iff case_prod_beta)
  moreover have "fst (os_RemoveAll w p) = remove_below w p q"
    using assms(1,2,4-6) by (simp add: os_RemoveAll_def find_node_def at_resolve)
  ultimately show ?thesis using map_of_filter_keys [of "\<lambda>r. \<not> prefix q r" "nodes w" x] by (simp add: node_at_def)
qed

lemma render_plain_end:
  assumes "plain_comps ps" "plain_comp c"
  shows "render True (ps @ [c]) \<noteq> []" "render True (ps @ [c]) \<noteq> ''.''" "\<not> has_prefix (rev (render True (ps @ [c]))) ''./''"
proof -
  obtain xs where r: "render True (ps @ [c]) = xs @ sep # c"
    by (cases "ps = []") (auto simp: render_def join_with_append)
  obtain d ds where d: "rev c = d # ds" using plain_compD(1) [OF assms(2)] by (cases "rev c") auto
  have "\<not> (d = CHR ''.'' \<and> (ds = [] \<or> (\<exists>e es. ds = e # es \<and> e = sep)))"
  proof
    assume a: "d = CHR ''.'' \<and> (ds = [] \<or> (\<exists>e es. ds = e # es \<and> e = sep))"
    have "c = rev (d # ds)" using d by (metis rev_rev_ident)
    with a assms(2) show False by (auto simp: plain_comp_def)
  qed
  then have "\<not> has_prefix (d # ds @ sep # rev xs) ''./''" by (cases ds) auto
  then show "\<not> has_prefix (rev (render True (ps @ [c]))) ''./''" by (simp add: r d)
  show "render True (ps @ [c]) \<noteq> []" "render True (ps @ [c]) \<noteq> ''.''" by (simp_all add: render_def)
qed

text \<open>C38: Probing a directory for reflinks leaves no trace: whatever fails, every place of the host is as it
  was, if removal does not fail.\<close>

theorem HasReflinkFS_no_trace:
  assumes "clone_contract clone" "wf_fs w" "leads w (render True ps) k" "plain_comps ps" "dir_at w k"
    and "\<And>x. fault w (SysRemove x) = None" "HasReflinkFS rnd clone w (render True ps) = (w', r)"
  shows "node_at w' x = node_at w x"
proof -
  have pre: "sep \<notin> set ''.reflinkfs-probe-''" "2 < length ''.reflinkfs-probe-''" by simp_all
  obtain w1 y where mk: "os_MkdirTemp rnd w (render True ps) ''.reflinkfs-probe-'' = (w1, y)" by fastforce
  note m = mkdirtemp_result [OF assms(3-5) pre mk [unfolded os_MkdirTemp_def]]
  show ?thesis
  proof (cases y)
    case (Inl e)
    with m mk assms(7) show ?thesis by (simp add: HasReflinkFS_def)
  next
    case (Inr p)
    with m obtain c where c: "plain_comp c" "p = Join [render True ps, c]" "node_at w (k @ [c]) = None"
      "at w p (k @ [c])" "w1 = put_node w (k @ [c]) (new_dir w (k @ [c]) 0x1C0)" by auto
    let ?q = "k @ [c]"
    obtain w2 z where st: "probe_dir_steps clone p w1 = (w2, z)" by fastforce
    have ext: "fs_ext w w1" unfolding c(5) using c(3) by (intro fs_ext_put) simp
    have at1: "at w1 p ?q" using at_free_ext [OF c(4,3) assms(2) ext] by (simp add: c(5) fs_simps new_dir_def)
    have d1: "dir_at w1 ?q" by (simp add: c(5) fs_simps new_dir_def)
    have free: "node_at w1 (?q @ [c']) = None" for c'
      using wf_fs_none [OF assms(2) c(3), of "[c']"] by (simp add: c(5) fs_simps)
    note ins = probe_dir_inside [OF assms(1) at_leads [OF at1] d1 free st]
    have ext2: "fs_ext w1 w2"
      unfolding fs_ext_def
    proof (intro allI impI)
      fix q n assume n: "node_at w1 q = Some n \<and> (ntype n = TDir \<or> ntype n = TSymlink)"
      have "q = ?q \<or> \<not> prefix ?q q"
      proof (rule ccontr)
        assume "\<not> (q = ?q \<or> \<not> prefix ?q q)"
        then obtain zs where "q = ?q @ zs" "q \<noteq> ?q" by (auto simp: prefix_def)
        with n wf_fs_none [OF assms(2) c(3), of zs] show False by (simp add: c(5) fs_simps)
      qed
      with ins n show "\<exists>n'. node_at w2 q = Some n' \<and> ntype n' = ntype n \<and> ndata n' = ndata n"
        by (auto simp: inside_def)
    qed
    have at2: "at w2 p ?q" by (rule at_ext [OF at1 d1 ext2])
    obtain nd where nd: "node_at w2 ?q = Some nd" using fs_ext_dir [OF ext2 d1] by (auto simp: dir_at_def split: option.splits)
    have p: "p \<noteq> []" "p \<noteq> ''.''" "\<not> has_prefix (rev p) ''./''"
      using render_plain_end [OF assms(4) c(1)] by (simp_all add: c(2) Join_name [OF assms(4) c(1)])
    have f: "fault w2 (SysRemove x) = None" for x
      using ins assms(6) by (simp add: inside_def same_env_def c(5) fs_simps)
    have "w' = fst (os_RemoveAll w2 p)" using assms(7) mk Inr st by (simp add: HasReflinkFS_def)
    with RemoveAll_below [OF at2 nd f p, of x] have "node_at w' x = (if prefix ?q x then None else node_at w2 x)" by simp
    moreover have "node_at w x = None" if "prefix ?q x"
      using that wf_fs_none [OF assms(2) c(3)] by (auto simp: prefix_def)
    moreover have "node_at w2 x = node_at w x" if "\<not> prefix ?q x"
      using that ins by (auto simp: inside_def c(5) fs_simps)
    ultimately show ?thesis by simp
  qed
qed

text \<open>A clone of an unprivileged process on a file system without reflinks: the answer is no.\<close>

lemma HasReflinkFS_no_trace_witness:
  "\<exists>w'. HasReflinkFS (\<lambda>_. 7) (ficlone (\<lambda>_ _. False)) ex_fs (render True [''s'']) = (w', Inr False) \<and>
     node_at w' [''s'', ''.reflinkfs-probe-7''] = node_at ex_fs [''s'', ''.reflinkfs-probe-7'']"
proof -
  have r: "plain_comps [''s'']" "length (render True [''s'']) < PATH_MAX"
    "namei ex_fs MAXSYMLINKS [] [''s''] True = Inr ([''s''], MAXSYMLINKS)" by code_simp+
  then have l: "leads ex_fs (render True [''s'']) [''s'']" unfolding leads_def by blast
  have d: "dir_at ex_fs [''s'']" by (simp add: dir_at_def node_at_def ex_fs_def ex_dir_def)
  have f: "fault ex_fs (SysRemove x) = None" for x by (simp add: ex_fs_def)
  have "snd (HasReflinkFS (\<lambda>_. 7) (ficlone (\<lambda>_ _. False)) ex_fs (render True [''s''])) = Inr False" by code_simp
  then obtain w' where run: "HasReflinkFS (\<lambda>_. 7) (ficlone (\<lambda>_ _. False)) ex_fs (render True [''s'']) = (w', Inr False)"
    by (metis prod.collapse)
  from HasReflinkFS_no_trace [OF ficlone.clone_ok ex_wf l r(1) d f run] run show ?thesis by blast
qed

subsection \<open>The environment of a suite\<close>

definition env_key :: "string \<Rightarrow> string" where "env_key kv = takeWhile (\<lambda>c. c \<noteq> CHR ''='') kv"
definition env_value :: "string \<Rightarrow> string" where "env_value kv = tl (dropWhile (\<lambda>c. c \<noteq> CHR ''='') kv)"
definition env_map :: "string list \<Rightarrow> string \<Rightarrow> string option" where
  "env_map env = map_of (map (\<lambda>kv. (env_key kv, env_value kv)) env)"

lemma env_split: "CHR ''='' \<in> set kv \<Longrightarrow> kv = env_key kv @ CHR ''='' # env_value kv"
  unfolding env_key_def env_value_def by (induction kv) auto

lemma env_key_no: "CHR ''='' \<notin> set (env_key kv)"
  by (auto simp: env_key_def dest: set_takeWhileD)

lemma env_key_append: "CHR ''='' \<notin> set key \<Longrightarrow> env_key (key @ CHR ''='' # v) = key"
  by (auto simp: env_key_def takeWhile_append)

lemma entry_prefix:
  assumes "CHR ''='' \<in> set kv" "CHR ''='' \<notin> set key"
  shows "has_prefix kv (key @ ''='') \<longleftrightarrow> env_key kv = key"
proof
  assume "has_prefix kv (key @ ''='')"
  then obtain v where "kv = key @ CHR ''='' # v" by (auto simp: has_prefix_iff prefix_def)
  with env_key_append [OF assms(2)] show "env_key kv = key" by simp
next
  assume "env_key kv = key"
  with env_split [OF assms(1)] show "has_prefix kv (key @ ''='')"
    by (metis append.assoc append_Cons append_Nil has_prefix_iff prefixI)
qed

lemma replace_entry_spec:
  assumes "\<forall>e \<in> set env. CHR ''='' \<in> set e" "CHR ''='' \<in> set kv"
  shows "env_map (replace_entry (env_key kv) kv env) = (env_map env)(env_key kv \<mapsto> env_value kv)"
    and "set (map env_key (replace_entry (env_key kv) kv env)) = insert (env_key kv) (set (map env_key env))"
    and "distinct (map env_key env) \<Longrightarrow> distinct (map env_key (replace_entry (env_key kv) kv env))"
    and "\<forall>e \<in> set (replace_entry (env_key kv) kv env). CHR ''='' \<in> set e"
proof -
  have "env_map (replace_entry (env_key kv) kv env) = (env_map env)(env_key kv \<mapsto> env_value kv) \<and>
      set (map env_key (replace_entry (env_key kv) kv env)) = insert (env_key kv) (set (map env_key env)) \<and>
      (distinct (map env_key env) \<longrightarrow> distinct (map env_key (replace_entry (env_key kv) kv env))) \<and>
      (\<forall>e \<in> set (replace_entry (env_key kv) kv env). CHR ''='' \<in> set e)"
    using assms(1)
  proof (induction env)
    case (Cons e env)
    then show ?case
      using entry_prefix [of e "env_key kv"] env_key_no [of kv] assms(2)
      by (cases "env_key e = env_key kv") (auto simp: env_map_def fun_upd_twist)
  qed (simp add: env_map_def assms(2))
  then show "env_map (replace_entry (env_key kv) kv env) = (env_map env)(env_key kv \<mapsto> env_value kv)"
    "set (map env_key (replace_entry (env_key kv) kv env)) = insert (env_key kv) (set (map env_key env))"
    "distinct (map env_key env) \<Longrightarrow> distinct (map env_key (replace_entry (env_key kv) kv env))"
    "\<forall>e \<in> set (replace_entry (env_key kv) kv env). CHR ''='' \<in> set e" by blast+
qed

text \<open>C39: The environment of a suite is the process's with the suite's variables set: each variable has the
  last value given for it or else its old one, and no variable is listed twice.\<close>

theorem mergeEnv_spec:
  assumes "\<forall>e \<in> set environ \<union> set extra. CHR ''='' \<in> set e" "distinct (map env_key environ)"
    and "mergeEnv environ extra = Some env"
  shows "env_map env = env_map environ ++ env_map (rev extra) \<and> distinct (map env_key env)"
proof -
  have "env_map (merge_loop environ extra) = env_map environ ++ env_map (rev extra) \<and>
      distinct (map env_key (merge_loop environ extra))"
    using assms(1,2)
  proof (induction environ extra rule: merge_loop.induct)
    case (1 env)
    then show ?case by (simp add: env_map_def)
  next
    case (2 env kv extra)
    let ?env = "replace_entry (env_key kv) kv env"
    have kv: "CHR ''='' \<in> set kv" "\<forall>e \<in> set env. CHR ''='' \<in> set e" using "2.prems"(1) by auto
    note r = replace_entry_spec [OF kv(2,1)]
    have all: "\<forall>e \<in> set ?env \<union> set extra. CHR ''='' \<in> set e" using r(4) "2.prems"(1) by auto
    have loop: "merge_loop env (kv # extra) = merge_loop ?env extra" using kv by (simp add: env_key_def [symmetric])
    have IH: "env_map (merge_loop ?env extra) = env_map ?env ++ env_map (rev extra)"
      "distinct (map env_key (merge_loop ?env extra))"
      using "2.IH" all r(3) [OF "2.prems"(2)] kv(1) by (simp_all add: env_key_def [symmetric])
    have "env_map (rev (kv # extra)) = [env_key kv \<mapsto> env_value kv] ++ env_map (rev extra)"
      by (simp add: env_map_def)
    then have "env_map ?env ++ env_map (rev extra) = env_map env ++ env_map (rev (kv # extra))"
      unfolding r(1) by (auto simp: map_add_def split: option.split)
    then show ?case using IH unfolding loop by metis
  qed
  with assms(3) show ?thesis by (auto simp: mergeEnv_def split: if_splits)
qed

lemma mergeEnv_spec_witness:
  "\<exists>env. mergeEnv [''PATH=/bin'', ''VREFLINK_VM_SHARE_ROOT=/old=1''] [''VREFLINK_VM_SHARE_ROOT=/new'', ''X=''] = Some env \<and>
     env_map env ''VREFLINK_VM_SHARE_ROOT'' = Some ''/new'' \<and> env_map env ''PATH'' = Some ''/bin'' \<and> distinct (map env_key env)"
proof -
  let ?e = "[''PATH=/bin'', ''VREFLINK_VM_SHARE_ROOT=/old=1'']" and ?x = "[''VREFLINK_VM_SHARE_ROOT=/new'', ''X='']"
  obtain env where env: "mergeEnv ?e ?x = Some env" by (simp add: mergeEnv_def)
  have "\<forall>e \<in> set ?e \<union> set ?x. CHR ''='' \<in> set e" by simp
  moreover have "distinct (map env_key ?e)" by code_simp
  ultimately have "env_map env = env_map ?e ++ env_map (rev ?x)" "distinct (map env_key env)"
    using mergeEnv_spec [OF _ _ env] by blast+
  moreover have "(env_map ?e ++ env_map (rev ?x)) ''VREFLINK_VM_SHARE_ROOT'' = Some ''/new''"
    "(env_map ?e ++ env_map (rev ?x)) ''PATH'' = Some ''/bin''" by code_simp+
  ultimately show ?thesis using env by auto
qed

subsection \<open>Fixtures are released\<close>

text \<open>
  \<open>held\<close> counts the cleanups of a state that have not been called.  A preparation that returns a cleanup
  adds one, calling that cleanup, whatever its result, takes one away; everything else keeps the count.
\<close>

definition keeps_fixtures :: "('s \<Rightarrow> nat) \<Rightarrow> 's deps \<Rightarrow> bool" where
  "keeps_fixtures held d \<longleftrightarrow>
     (\<forall>s dir env name args s' r. runCommand_dep d s dir env name args = Some (s', r) \<longrightarrow> held (fst s') = held (fst s))"

definition takes_fixtures :: "('s \<Rightarrow> nat) \<Rightarrow> 's preparer \<Rightarrow> bool" where
  "takes_fixtures held prepare \<longleftrightarrow>
     (\<forall>s root s' r. prepare s root = Some (s', r) \<longrightarrow>
        (case r of
           Inl e \<Rightarrow> held s' = held s
         | Inr prepared \<Rightarrow>
             (case prepCleanup prepared of
                None \<Rightarrow> held s' = held s
              | Some cleanup \<Rightarrow> held s' = Suc (held s) \<and>
                  (\<forall>t t' e. held t = Suc (held s) \<longrightarrow> cleanup t = Some (t', e) \<longrightarrow> held t' = held s))))"

lemma suite_releases:
  assumes "keeps_fixtures held d" "\<And>p. prepare = Some p \<Longrightarrow> takes_fixtures held p"
    and "runPreparedGoSuite d args prepare s = Some (s', r)"
  shows "held (fst s') = held (fst s)"
proof (cases prepare)
  case None
  show ?thesis
  proof (cases "repoRoot_dep d")
    case (Inl e)
    with None assms(3) show ?thesis by (simp add: runPreparedGoSuite_def runGo_def runGoWithEnv_def)
  next
    case (Inr root)
    with None assms(3) have "runCommand_dep d s root (mergeEnv (environ_dep d) []) ''go'' args = Some (s', r)"
      by (simp add: runPreparedGoSuite_def runGo_def runGoWithEnv_def)
    with assms(1) show ?thesis unfolding keeps_fixtures_def by blast
  qed
next
  case (Some p)
  note tp = assms(2) [OF Some]
  show ?thesis
  proof (cases "repoRoot_dep d")
    case (Inl e)
    with Some assms(3) show ?thesis by (simp add: runPreparedGoSuite_def)
  next
    case (Inr root)
    from assms(3) Some Inr obtain st y where p: "p (fst s) root = Some (st, y)"
      by (auto simp: runPreparedGoSuite_def split: option.splits)
    show ?thesis
    proof (cases y)
      case (Inl e)
      with p tp have "held st = held (fst s)" unfolding takes_fixtures_def by fastforce
      with Inl p Some Inr assms(3) show ?thesis by (auto simp: runPreparedGoSuite_def)
    next
      case prep: (Inr prepared)
      from assms(3) Some Inr p prep obtain st1 out err where
        run: "runCommand_dep d (st, snd s) root (mergeEnv (environ_dep d) (prepEnv prepared)) ''go'' args = Some ((st1, out), err)"
        by (auto simp: runPreparedGoSuite_def split: option.splits)
      have keep: "held st1 = held st" using assms(1) run unfolding keeps_fixtures_def by fastforce
      have t: "case prepCleanup prepared of None \<Rightarrow> held st = held (fst s)
          | Some cleanup \<Rightarrow> held st = Suc (held (fst s)) \<and>
              (\<forall>t t' e. held t = Suc (held (fst s)) \<longrightarrow> cleanup t = Some (t', e) \<longrightarrow> held t' = held (fst s))"
        using tp p prep unfolding takes_fixtures_def by fastforce
      show ?thesis
      proof (cases "prepCleanup prepared")
        case None
        with assms(3) Some Inr p prep run have "fst s' = st1" by (auto simp: runPreparedGoSuite_def)
        with None keep t show ?thesis by simp
      next
        case cl: (Some cleanup)
        from assms(3) Some Inr p prep run cl obtain st2 ce where c: "cleanup st1 = Some (st2, ce)" "fst s' = st2"
          by (auto simp: runPreparedGoSuite_def split: option.splits)
        have h: "held st = Suc (held (fst s))"
          "\<And>t t' e. held t = Suc (held (fst s)) \<Longrightarrow> cleanup t = Some (t', e) \<Longrightarrow> held t' = held (fst s)"
          using t unfolding cl option.case by blast+
        show ?thesis unfolding c(2) by (rule h(2) [OF _ c(1)]) (simp only: keep h(1))
      qed
    qed
  qed
qed

text \<open>C40: Every command \<open>vreflink-dev test SUITE\<close> that ends has called the cleanup of every suite it prepared,
  whichever of its suites fails, and whether it is the preparation, the tests or a cleanup that fails.\<close>

theorem fixtures_released:
  assumes "keeps_fixtures held d" "takes_fixtures held (prepareReflinkSuite_dep d)"
    "takes_fixtures held (prepareVMSuite_dep d)" and "newTestCmd d suite race s = Some (Some (s', r))"
  shows "held (fst s') = held (fst s)"
proof -
  have one: "held (fst s2) = held (fst s1)" if "runPreparedGoSuite d args prepare s1 = Some (s2, r)"
    "prepare \<in> {None, Some (prepareReflinkSuite_dep d), Some (prepareVMSuite_dep d)}" for args prepare s1 s2 r
    using suite_releases [OF assms(1) _ that(1)] that(2) assms(2,3) by auto
  have suite: "held (fst s2) = held (fst s1)" if "newGoTestSuiteCmd d n args allow prepare race s1 = Some (s2, r)"
    "prepare \<in> {None, Some (prepareReflinkSuite_dep d), Some (prepareVMSuite_dep d)}" for n args allow prepare s1 s2 r
    using that one by (auto simp: newGoTestSuiteCmd_def Let_def split: sum.splits if_splits) 
  have all: "held (fst s2) = held (fst s1)" if "run_suites d specs s1 = Some (s2, r)"
    "\<forall>(args, prepare) \<in> set specs. prepare \<in> {None, Some (prepareReflinkSuite_dep d), Some (prepareVMSuite_dep d)}"
    for specs s1 s2 r
    using that
  proof (induction specs arbitrary: s1)
    case (Cons spec specs)
    obtain args prepare where spec: "spec = (args, prepare)" by fastforce
    with Cons.prems obtain s3 e where run: "runPreparedGoSuite d args prepare s1 = Some (s3, e)"
      by (auto split: option.splits)
    with one Cons.prems spec have h: "held (fst s3) = held (fst s1)" by auto
    show ?case
    proof (cases e)
      case None
      with Cons.prems spec run have "run_suites d specs s3 = Some (s2, r)" by simp
      with Cons.IH Cons.prems(2) h show ?thesis by simp
    next
      case (Some x)
      with Cons.prems spec run h show ?thesis by simp
    qed
  qed simp
  show ?thesis
  proof (cases "suite = ''all''")
    case True
    let ?specs = "[(quick_args, None), (reflinkfs_args, Some (prepareReflinkSuite_dep d)), (vm_args, Some (prepareVMSuite_dep d))]"
    from True assms(4) have cmd: "newAllTestsCmd d race s = Some (s', r)" by (simp add: newTestCmd_def)
    show ?thesis
    proof (cases "race = Inr False")
      case True
      with cmd have "run_suites d ?specs s = Some (s', r)" by (simp add: newAllTestsCmd_def del: run_suites.simps)
      from all [OF this] show ?thesis by simp
    next
      case False
      with cmd show ?thesis by (auto simp: newAllTestsCmd_def simp del: run_suites.simps split: sum.splits if_splits)
    qed
  next
    case False
    with assms(4) suite show ?thesis by (auto simp: newTestCmd_def split: if_splits)
  qed
qed

text \<open>A host where the tests and every cleanup fail; the state counts what is prepared.\<close>

definition ex_deps :: "nat deps" where
  "ex_deps =
     \<lparr>repoRoot_dep = Inr ''/repo'',
      runCommand_dep = (\<lambda>s dir env name args. Some (s, if ''-tags'' \<in> set args then Some (ErrorString ''exit status 1'') else None)),
      buildRelease_dep = (\<lambda>opts s. None),
      checkVMPrereqs_dep = (\<lambda>s. Some (s, [])),
      prepareReflinkSuite_dep = (\<lambda>s root. Some (Suc s, Inr \<lparr>prepEnv = [], prepCleanup = Some (\<lambda>s. Some (s - 1, Some (ErrorString ''busy'')))\<rparr>)),
      prepareVMSuite_dep = (\<lambda>s root. Some (s, Inl (ErrorString ''no vm''))),
      environ_dep = []\<rparr>"

lemma fixtures_released_witness:
  "\<exists>s'. newTestCmd ex_deps ''all'' (Inr False) (7, [], []) = Some (Some (s', Some (WrapErr
       (''exit status 1'' @ [CHR 0x0A] @ ''cleanup error: busy'') [ErrorString ''exit status 1'']))) \<and> fst s' = 7"
proof -
  have k: "keeps_fixtures id ex_deps" by (simp add: keeps_fixtures_def ex_deps_def)
  have t: "takes_fixtures id (prepareReflinkSuite_dep ex_deps)" "takes_fixtures id (prepareVMSuite_dep ex_deps)"
    by (simp_all add: takes_fixtures_def ex_deps_def)
  obtain s' where run: "newTestCmd ex_deps ''all'' (Inr False) (7, [], []) = Some (Some (s', Some (WrapErr
       (''exit status 1'' @ [CHR 0x0A] @ ''cleanup error: busy'') [ErrorString ''exit status 1''])))"
    by (simp add: newTestCmd_def newAllTestsCmd_def runPreparedGoSuite_def runGo_def runGoWithEnv_def ex_deps_def
        quick_args_def reflinkfs_args_def cleanup_error_def)
  from fixtures_released [OF k t run] run show ?thesis by simp
qed

end
