(* ===== verification/Concurrent_Reflink.thy ===== *)
theory Concurrent_Reflink
  imports Example Tree_Success
begin

section \<open>Concurrent calls of FileReflinker.Reflink (internal/service)\<close>

text \<open>
  Every connection has its own goroutine, and no lock orders the requests: the calls of
  \<open>FileReflinker.Reflink\<close> interleave at each of their system calls.  A call is a state machine
  whose steps are the calls of \<open>os\<close> and of the clone, in the order of the source, with its deferred
  function as the last two; a run takes the steps of all calls in any order.  The open source is
  closed by a deferred call of its own that changes nothing.
\<close>

record call =
  srcPath :: string
  dstPath :: string
  mode :: FileMode

datatype call_phase =
    Opening
  | Creating key
  | Cloning key key
  | Chmodding key
  | Closing "go_error option" bool
  | Removing "go_error option"
  | Returned "go_error option"

text \<open>\<open>Closing err cleanup\<close>: the body has returned \<open>err\<close>, and \<open>cleanup\<close> is the flag of the source.\<close>

fun reflink_step :: "clone_fun \<Rightarrow> call \<Rightarrow> fsys \<Rightarrow> call_phase \<Rightarrow> (fsys \<times> call_phase) option" where
  "reflink_step clone c w Opening = Some
     (case os_Open w (srcPath c) of
        Inl err \<Rightarrow> (w, Returned (Some err))
      | Inr src \<Rightarrow> (w, Creating src))"
| "reflink_step clone c w (Creating src) = Some
     (case os_CreateExcl w (dstPath c) (Perm (mode c)) of
        (w1, Inl err) \<Rightarrow> (w1, Returned (Some err))
      | (w1, Inr dst) \<Rightarrow> (w1, Cloning src dst))"
| "reflink_step clone c w (Cloning src dst) = Some
     (case clone w dst src of
        (w1, Some err) \<Rightarrow> (w1, Closing (Some (mapReflinkError err)) True)
      | (w1, None) \<Rightarrow> (w1, Chmodding dst))"
| "reflink_step clone c w (Chmodding dst) = Some
     (case file_Chmod w (dstPath c) dst (Perm (mode c)) of
        (w1, Some err) \<Rightarrow> (w1, Closing (Some err) True)
      | (w1, None) \<Rightarrow> (w1, Closing None False))"
| "reflink_step clone c w (Closing err cleanup) = Some
     (let err = (case err of None \<Rightarrow> file_Close w (dstPath c) | Some e \<Rightarrow> Some e)
      in (w, if cleanup then Removing err else Returned err))"
| "reflink_step clone c w (Removing err) = Some (fst (os_Remove w (dstPath c)), Returned err)"
| "reflink_step clone c w (Returned r) = None"

subsection \<open>One call alone\<close>

fun run_call :: "clone_fun \<Rightarrow> call \<Rightarrow> nat \<Rightarrow> fsys \<times> call_phase \<Rightarrow> fsys \<times> call_phase" where
  "run_call clone c 0 s = s"
| "run_call clone c (Suc n) s =
     (case reflink_step clone c (fst s) (snd s) of
        None \<Rightarrow> s
      | Some s1 \<Rightarrow> run_call clone c n s1)"

lemma run_call_Returned [simp]: "run_call clone c n (w, Returned r) = (w, Returned r)"
  by (cases n) simp_all


subsection \<open>Many calls\<close>

text \<open>A run of the calls \<open>cs\<close>: the schedule says whose turn it was.\<close>

inductive runs :: "clone_fun \<Rightarrow> call list \<Rightarrow> fsys \<Rightarrow> nat list \<Rightarrow> fsys \<Rightarrow> call_phase list \<Rightarrow> bool"
  for clone cs w0 where
  start: "runs clone cs w0 [] w0 (replicate (length cs) Opening)"
| turn: "runs clone cs w0 sch w ps \<Longrightarrow> i < length cs \<Longrightarrow>
     reflink_step clone (cs ! i) w (ps ! i) = Some (w', p) \<Longrightarrow>
     runs clone cs w0 (sch @ [i]) w' (ps[i := p])"

lemma runs_length: "runs clone cs w0 sch w ps \<Longrightarrow> length ps = length cs"
  by (induction rule: runs.induct) auto

text \<open>A schedule played out, which gives the run it is the schedule of.\<close>

fun play :: "clone_fun \<Rightarrow> call list \<Rightarrow> nat list \<Rightarrow> fsys \<times> call_phase list \<Rightarrow> (fsys \<times> call_phase list) option" where
  "play clone cs [] s = Some s"
| "play clone cs (i # sch) (w, ps) =
     (if i < length cs then
        (case reflink_step clone (cs ! i) w (ps ! i) of
           None \<Rightarrow> None
         | Some (w1, p) \<Rightarrow> play clone cs sch (w1, ps[i := p]))
      else None)"

lemma play_runs:
  "play clone cs sch (w, ps) = Some (w', ps') \<Longrightarrow> runs clone cs w0 sch0 w ps \<Longrightarrow> runs clone cs w0 (sch0 @ sch) w' ps'"
proof (induction sch arbitrary: sch0 w ps)
  case (Cons i sch)
  then obtain w1 p where "i < length cs" "reflink_step clone (cs ! i) w (ps ! i) = Some (w1, p)"
      "play clone cs sch (w1, ps[i := p]) = Some (w', ps')"
    by (auto split: if_splits option.splits)
  with Cons.IH [OF this(3) runs.turn [OF Cons.prems(2) this(1,2)]] show ?case by simp
qed simp

lemmas play_run = play_runs [OF _ runs.start, simplified]

text \<open>
  \<open>calls_ready\<close>: each source is a regular file and no destination is a source or a symbolic link;
  \<open>ks\<close> are the places that the two paths of each call denote.  Destinations may coincide or exist.
\<close>

definition calls_ready :: "fsys \<Rightarrow> call list \<Rightarrow> (key \<times> key) list \<Rightarrow> bool" where
  "calls_ready w cs ks \<longleftrightarrow> wf_fs w \<and> length ks = length cs \<and> fst ` set ks \<inter> snd ` set ks = {} \<and>
     (\<forall>i < length cs.
        at w (srcPath (cs ! i)) (fst (ks ! i)) \<and>
        (\<exists>n. node_at w (fst (ks ! i)) = Some n \<and> ntype n = TReg) \<and>
        at w (dstPath (cs ! i)) (snd (ks ! i)) \<and>
        (\<forall>n. node_at w (snd (ks ! i)) = Some n \<longrightarrow> ntype n \<noteq> TSymlink))"

lemma calls_readyD:
  assumes "calls_ready w cs ks" "i < length cs"
  shows "at w (srcPath (cs ! i)) (fst (ks ! i))" "\<exists>n. node_at w (fst (ks ! i)) = Some n \<and> ntype n = TReg"
    "at w (dstPath (cs ! i)) (snd (ks ! i))" "\<And>n. node_at w (snd (ks ! i)) = Some n \<Longrightarrow> ntype n \<noteq> TSymlink"
    "snd (ks ! i) \<in> snd ` set ks" "fst (ks ! i) \<notin> snd ` set ks"
proof -
  have "ks ! i \<in> set ks" using assms by (simp add: calls_ready_def)
  then have im: "snd (ks ! i) \<in> snd ` set ks" "fst (ks ! i) \<in> fst ` set ks" by (rule imageI)+
  have "fst ` set ks \<inter> snd ` set ks = {}" using assms(1) unfolding calls_ready_def by blast
  with im show "snd (ks ! i) \<in> snd ` set ks" "fst (ks ! i) \<notin> snd ` set ks" by (metis, metis disjoint_iff)
  show "at w (srcPath (cs ! i)) (fst (ks ! i))" "\<exists>n. node_at w (fst (ks ! i)) = Some n \<and> ntype n = TReg"
    "at w (dstPath (cs ! i)) (snd (ks ! i))" "\<And>n. node_at w (snd (ks ! i)) = Some n \<Longrightarrow> ntype n \<noteq> TSymlink"
    using assms by (auto simp: calls_ready_def)
qed

text \<open>The copy a call is asked for.\<close>

definition copy_for :: "fsys \<Rightarrow> call \<Rightarrow> key \<Rightarrow> node" where
  "copy_for w c s = \<lparr>ntype = TReg, nperm = Perm (mode c), ndata = ndata (the (node_at w s)), nlink = 1\<rparr>"

text \<open>A call holds its destination from its creation to its removal, or for good when it succeeds.\<close>

fun holds :: "call_phase \<Rightarrow> bool" where
  "holds (Cloning s d) = True"
| "holds (Chmodding d) = True"
| "holds (Closing err cleanup) = True"
| "holds (Removing err) = True"
| "holds (Returned None) = True"
| "holds _ = False"

fun phase_ok :: "fsys \<Rightarrow> fsys \<Rightarrow> call \<Rightarrow> key \<Rightarrow> key \<Rightarrow> call_phase \<Rightarrow> bool" where
  "phase_ok w0 w c s d Opening \<longleftrightarrow> True"
| "phase_ok w0 w c s d (Creating s') \<longleftrightarrow> s' = s"
| "phase_ok w0 w c s d (Cloning s' d') \<longleftrightarrow> s' = s \<and> d' = d \<and> node_at w d = Some (new_file w0 (Perm (mode c)))"
| "phase_ok w0 w c s d (Chmodding d') \<longleftrightarrow> d' = d \<and>
     (\<exists>m. node_at w d = Some ((copy_for w0 c s)\<lparr>nperm := m\<rparr>))"
| "phase_ok w0 w c s d (Closing err cleanup) \<longleftrightarrow>
     (if cleanup then err \<noteq> None \<and> (\<exists>n. node_at w d = Some n \<and> ntype n = TReg)
      else err = None \<and> node_at w d = Some (copy_for w0 c s))"
| "phase_ok w0 w c s d (Removing err) \<longleftrightarrow> err \<noteq> None \<and> (\<exists>n. node_at w d = Some n \<and> ntype n = TReg)"
| "phase_ok w0 w c s d (Returned r) \<longleftrightarrow> (r = None \<longrightarrow> node_at w d = Some (copy_for w0 c s))"

text \<open>
  What holds throughout a run: nothing that existed changed, new nodes are regular files at
  destinations, and each destination is held by at most one call.
\<close>

definition call_inv :: "fsys \<Rightarrow> call list \<Rightarrow> (key \<times> key) list \<Rightarrow> fsys \<Rightarrow> call_phase list \<Rightarrow> bool" where
  "call_inv w0 cs ks w ps \<longleftrightarrow> same_env w0 w \<and> length ps = length cs \<and>
     (\<forall>q. node_at w0 q \<noteq> None \<or> q \<notin> snd ` set ks \<longrightarrow> node_at w q = node_at w0 q) \<and>
     (\<forall>q n. node_at w0 q = None \<and> node_at w q = Some n \<longrightarrow> ntype n = TReg) \<and>
     (\<forall>i < length cs. phase_ok w0 w (cs ! i) (fst (ks ! i)) (snd (ks ! i)) (ps ! i)) \<and>
     (\<forall>i < length cs. holds (ps ! i) \<longrightarrow> node_at w0 (snd (ks ! i)) = None) \<and>
     (\<forall>i < length cs. \<forall>j < length cs. holds (ps ! i) \<and> holds (ps ! j) \<and> snd (ks ! i) = snd (ks ! j) \<longrightarrow> i = j)"

lemma inv_kept:
  "call_inv w0 cs ks w ps \<Longrightarrow> node_at w0 q \<noteq> None \<or> q \<notin> snd ` set ks \<Longrightarrow> node_at w q = node_at w0 q"
  unfolding call_inv_def by blast

lemma inv_call:
  assumes "call_inv w0 cs ks w ps" "i < length cs"
  shows "phase_ok w0 w (cs ! i) (fst (ks ! i)) (snd (ks ! i)) (ps ! i)"
    "holds (ps ! i) \<Longrightarrow> node_at w0 (snd (ks ! i)) = None"
    "j < length cs \<Longrightarrow> holds (ps ! i) \<Longrightarrow> holds (ps ! j) \<Longrightarrow> snd (ks ! i) = snd (ks ! j) \<Longrightarrow> i = j"
  using assms unfolding call_inv_def by blast+

lemma phase_ok_other: "node_at w' d = node_at w d \<Longrightarrow> phase_ok w0 w' c s d p = phase_ok w0 w c s d p"
  by (cases p) simp_all

lemma phase_ok_free: "\<not> holds p \<Longrightarrow> phase_ok w0 w' c s d p = phase_ok w0 w c s d p"
  by (cases p rule: holds.cases) simp_all

lemma holds_node: "phase_ok w0 w c s d p \<Longrightarrow> holds p \<Longrightarrow> \<exists>n. node_at w d = Some n \<and> ntype n = TReg"
  by (cases p rule: holds.cases) (auto simp: copy_for_def new_file_def split: if_splits)

text \<open>The paths of the calls denote the same places in every state of a run.\<close>

lemma paths_stay:
  assumes "calls_ready w0 cs ks" "call_inv w0 cs ks w ps" "i < length cs"
  shows "at w (srcPath (cs ! i)) (fst (ks ! i))" "at w (dstPath (cs ! i)) (snd (ks ! i))"
proof -
  have kept: "node_at w q = node_at w0 q" if "node_at w0 q \<noteq> None" for q
    using assms(2) that by (simp add: call_inv_def)
  have ext: "fs_ext w0 w" unfolding fs_ext_def by (metis kept option.distinct(1))
  have stay: "at w p k" if h: "at w0 p k" "\<And>n. node_at w0 k = Some n \<Longrightarrow> ntype n \<noteq> TSymlink" for p k
  proof (cases "dir_at w0 k")
    case True
    with h ext show ?thesis by (blast intro: at_ext)
  next
    case False
    have "ntype n \<noteq> TSymlink" if n: "node_at w k = Some n" for n
    proof (cases "node_at w0 k")
      case None
      with n assms(2) have "ntype n = TReg" by (auto simp: call_inv_def)
      then show ?thesis by simp
    next
      case (Some m)
      with n kept [of k] have "m = n" by simp
      with h(2) [OF Some] show ?thesis by simp
    qed
    moreover have "wf_fs w0" using assms(1) unfolding calls_ready_def by blast
    ultimately show ?thesis using at_leaf_ext [OF h(1) False _ ext] by blast
  qed
  obtain n where n: "node_at w0 (fst (ks ! i)) = Some n" "ntype n = TReg" using calls_readyD(2) [OF assms(1,3)] by blast
  have "ntype m \<noteq> TSymlink" if "node_at w0 (fst (ks ! i)) = Some m" for m using n that by simp
  from stay [OF calls_readyD(1) [OF assms(1,3)] this] show "at w (srcPath (cs ! i)) (fst (ks ! i))" .
  from stay [OF calls_readyD(3,4) [OF assms(1,3)]] show "at w (dstPath (cs ! i)) (snd (ks ! i))" .
qed

text \<open>One step of a call changes its destination only, and only if that call holds it before or after.\<close>

definition step_effect :: "key \<Rightarrow> fsys \<Rightarrow> call_phase \<Rightarrow> fsys \<Rightarrow> call_phase \<Rightarrow> bool" where
  "step_effect d w p w' p' \<longleftrightarrow> same_env w w' \<and> (\<forall>q. q \<noteq> d \<longrightarrow> node_at w' q = node_at w q) \<and>
     (\<not> holds p \<longrightarrow> (if holds p' then node_at w d = None else node_at w' d = node_at w d)) \<and>
     (\<forall>n. node_at w' d = Some n \<longrightarrow> node_at w' d = node_at w d \<or> ntype n = TReg)"

lemma step_effect_same: "\<not> holds p' \<or> holds p \<Longrightarrow> step_effect d w p w p'"
  by (auto simp: step_effect_def)

lemma step_effect_put: "node_at w d = None \<or> holds p \<Longrightarrow> holds p' \<Longrightarrow> ntype n = TReg \<Longrightarrow> step_effect d w p (put_node w d n) p'"
  by (auto simp: step_effect_def fs_simps)

lemma step_effect_del: "holds p \<Longrightarrow> step_effect d w p (del_node w d) p'"
  by (auto simp: step_effect_def fs_simps)

text \<open>What a step of a call does when the call's phase is in order.\<close>

lemma reflink_step_ok:
  assumes "clone_contract clone" "reflink_step clone c w p = Some (w', p')" "phase_ok w0 w c s d p"
    and "same_env w0 w" "at w (srcPath c) s" "at w (dstPath c) d"
    and "node_at w0 s = Some n" "node_at w s = Some n" "d \<noteq> s"
  shows "step_effect d w p w' p' \<and> phase_ok w0 w' c s d p'"
proof -
  have env: "umask w = umask w0" "fault w = fault w0" using assms(4) by (simp_all add: same_env_def)
  show ?thesis
  proof (cases p)
    case Opening
    show ?thesis
    proof (cases "os_Open w (srcPath c)")
      case (Inl e)
      with Opening assms(2) have "w' = w" "p' = Returned (Some e)" by simp_all
      with Opening show ?thesis by (simp add: step_effect_def)
    next
      case (Inr k)
      with Opening assms(2) Open_at [OF Inr assms(5)] have "w' = w" "p' = Creating s" by simp_all
      with Opening show ?thesis by (simp add: step_effect_def)
    qed
  next
    case (Creating s')
    obtain w1 x where cr: "os_CreateExcl w (dstPath c) (Perm (mode c)) = (w1, x)" by fastforce
    show ?thesis
    proof (cases x)
      case (Inl e)
      with cr Creating assms(2) have "w' = w" "p' = Returned (Some e)" by (auto dest: CreateExcl_Inl)
      with Creating show ?thesis by (simp add: step_effect_same)
    next
      case (Inr k)
      with CreateExcl_at [OF cr [unfolded Inr] assms(6)] cr Creating assms(2,3)
      have "w' = put_node w d (new_file w (Perm (mode c)))" "p' = Cloning s d" "node_at w d = None" by auto
      then show ?thesis by (simp add: step_effect_put new_file_def env fs_simps)
    qed
  next
    case (Cloning s' d')
    with assms(3) have sd: "s' = s" "d' = d" and nd: "node_at w d = Some (new_file w0 (Perm (mode c)))" by simp_all
    obtain w1 x where cl: "clone w d s = (w1, x)" by fastforce
    obtain b where w1: "w1 = put_node w d ((new_file w0 (Perm (mode c)))\<lparr>ndata := b\<rparr>)"
      and b: "x = None \<Longrightarrow> b = ndata n"
      using FileReflinker_body [OF assms(1,9) nd assms(8) cl] by blast
    show ?thesis
    proof (cases x)
      case None
      with cl Cloning sd assms(2) have "w' = w1" "p' = Chmodding d" by simp_all
      with w1 b None assms(7) show ?thesis
        by (simp add: step_effect_put Cloning new_file_def copy_for_def fs_simps)
    next
      case (Some e)
      with cl Cloning sd assms(2) have "w' = w1" "p' = Closing (Some (mapReflinkError e)) True" by simp_all
      with w1 show ?thesis by (simp add: step_effect_put Cloning new_file_def fs_simps)
    qed
  next
    case (Chmodding d')
    with assms(3) obtain m where d': "d' = d" and nd: "node_at w d = Some ((copy_for w0 c s)\<lparr>nperm := m\<rparr>)" by auto
    show ?thesis
    proof (cases "fault w (SysFchmod (dstPath c))")
      case None
      then have "file_Chmod w (dstPath c) d (Perm (mode c)) = (put_node w d (copy_for w0 c s), None)"
        by (simp add: file_Chmod_def nd copy_for_def)
      with Chmodding d' assms(2) have "w' = put_node w d (copy_for w0 c s)" "p' = Closing None False" by simp_all
      then show ?thesis by (simp add: step_effect_put Chmodding copy_for_def fs_simps)
    next
      case (Some e)
      then have "file_Chmod w (dstPath c) d (Perm (mode c)) = (w, Some (path_error ''chmod'' (dstPath c) e))"
        by (simp add: file_Chmod_def)
      with Chmodding d' assms(2) have "w' = w" "p' = Closing (Some (path_error ''chmod'' (dstPath c) e)) True" by simp_all
      with nd show ?thesis by (simp add: step_effect_same Chmodding copy_for_def)
    qed
  next
    case (Closing err cleanup)
    with assms(2,3) show ?thesis
      by (auto simp: step_effect_same Let_def split: if_splits option.splits)
  next
    case (Removing err)
    with assms(3) obtain m where m: "err \<noteq> None" "node_at w d = Some m" "ntype m = TReg" by auto
    have "w' = fst (os_Remove w (dstPath c))" "p' = Returned err" using Removing assms(2) by simp_all
    with Remove_file [OF assms(6) m(2,3)] m(1) Removing show ?thesis
      by (cases "fault w (SysRemove (dstPath c))") (auto simp: step_effect_del step_effect_same)
  next
    case (Returned r)
    with assms(2) show ?thesis by simp
  qed
qed

lemma call_inv_start:
  assumes "calls_ready w0 cs ks"
  shows "call_inv w0 cs ks w0 (replicate (length cs) Opening)"
  by (auto simp: call_inv_def)

text \<open>A call that does not hold its destination leaves it as it is, unless it was free.\<close>

lemma call_inv_step:
  assumes "clone_contract clone" "calls_ready w0 cs ks" "call_inv w0 cs ks w ps" "i < length cs"
    and "reflink_step clone (cs ! i) w (ps ! i) = Some (w', p)"
  shows "call_inv w0 cs ks w' (ps[i := p])"
proof -
  let ?s = "\<lambda>i. fst (ks ! i)" and ?d = "\<lambda>i. snd (ks ! i)" and ?ps = "ps[i := p]"
  have len: "length ps = length cs" "length ks = length cs"
    using assms(2,3) by (simp_all add: call_inv_def calls_ready_def)
  obtain n where n0: "node_at w0 (?s i) = Some n" using calls_readyD(2) [OF assms(2,4)] by blast
  with assms(3) have n: "node_at w (?s i) = Some n" by (simp add: call_inv_def)
  have ok: "phase_ok w0 w (cs ! j) (?s j) (?d j) (ps ! j)" if "j < length cs" for j
    using assms(3) that by (simp add: call_inv_def)
  have "?d i \<noteq> ?s i" using calls_readyD(5,6) [OF assms(2,4)] by metis
  with reflink_step_ok [OF assms(1,5) ok [OF assms(4)] _ paths_stay [OF assms(2-4)] n0 n] assms(3)
  have eff: "step_effect (?d i) w (ps ! i) w' p" and ok_i: "phase_ok w0 w' (cs ! i) (?s i) (?d i) p"
    by (simp_all add: call_inv_def)
  have free: "node_at w0 (?d j) = None" if "j < length cs" "holds (ps ! j)" for j
    using assms(3) that by (simp add: call_inv_def)
  have one: "j = k" if "j < length cs" "k < length cs" "holds (ps ! j)" "holds (ps ! k)" "?d j = ?d k" for j k
    using assms(3) that by (simp add: call_inv_def)
  have others: "node_at w' q = node_at w q" if "q \<noteq> ?d i" for q using eff that by (simp add: step_effect_def)
  have taken: "node_at w (?d i) = None" if "\<not> holds (ps ! i)" "holds p"
    using eff that by (simp add: step_effect_def)
  have free_i: "node_at w0 (?d i) = None" if "holds (ps ! i) \<or> holds p"
  proof (cases "holds (ps ! i)")
    case True
    with free assms(4) show ?thesis by simp
  next
    case False
    with that taken have "node_at w (?d i) = None" by simp
    with inv_kept [OF assms(3)] show ?thesis by force
  qed
  have other_holds: "?d j \<noteq> ?d i" if "j < length cs" "holds (ps ! j)" "j \<noteq> i" "holds (ps ! i) \<or> holds p" for j
  proof
    assume d: "?d j = ?d i"
    with one that assms(4) have "\<not> holds (ps ! i)" by blast
    with that(4) taken have "node_at w (?d i) = None" by simp
    with holds_node [OF ok [OF that(1)] that(2)] d show False by simp
  qed
  have "same_env w0 w'" using eff assms(3) by (auto simp: call_inv_def step_effect_def intro: same_env_trans)
  moreover have "node_at w' q = node_at w0 q" if "node_at w0 q \<noteq> None \<or> q \<notin> snd ` set ks" for q
  proof (cases "q = ?d i")
    case True
    with that calls_readyD(5) [OF assms(2,4)] have "node_at w0 (?d i) \<noteq> None" by blast
    with free_i have "\<not> holds (ps ! i)" "\<not> holds p" by blast+
    with eff have "node_at w' (?d i) = node_at w (?d i)" by (simp add: step_effect_def)
    with True inv_kept [OF assms(3) that] show ?thesis by simp
  next
    case False
    with others inv_kept [OF assms(3) that] show ?thesis by simp
  qed
  moreover have "ntype n = TReg" if q: "node_at w0 q = None" "node_at w' q = Some n" for q n
  proof (cases "node_at w' q = node_at w q")
    case True
    with q assms(3) show ?thesis by (auto simp: call_inv_def)
  next
    case False
    with others have "q = ?d i" by blast
    with False q eff show ?thesis by (auto simp: step_effect_def)
  qed
  moreover have "phase_ok w0 w' (cs ! j) (?s j) (?d j) (?ps ! j)" if "j < length cs" for j
  proof (cases "j = i")
    case True
    with ok_i assms(4) len show ?thesis by simp
  next
    case False
    then have ps: "?ps ! j = ps ! j" by simp
    show ?thesis
    proof (cases "holds (ps ! j) \<and> ?d j = ?d i")
      case True
      with other_holds that False have "\<not> holds (ps ! i)" "\<not> holds p" by blast+
      with eff have "node_at w' (?d i) = node_at w (?d i)" by (simp add: step_effect_def)
      with True have "node_at w' (?d j) = node_at w (?d j)" by metis
      from phase_ok_other [OF this] ok [OF that] show ?thesis unfolding ps by blast
    next
      case False
      then consider "\<not> holds (ps ! j)" | "node_at w' (?d j) = node_at w (?d j)" using others by blast
      then show ?thesis
      proof cases
        case 1
        from phase_ok_free [OF this] ok [OF that] show ?thesis unfolding ps by blast
      next
        case 2
        from phase_ok_other [OF this] ok [OF that] show ?thesis unfolding ps by blast
      qed
    qed
  qed
  moreover have "node_at w0 (?d j) = None" if "j < length cs" "holds (?ps ! j)" for j
    using that free free_i len by (cases "j = i") auto
  moreover have "j = k" if "j < length cs" "k < length cs" "holds (?ps ! j)" "holds (?ps ! k)" "?d j = ?d k" for j k
  proof -
    have "?d j \<noteq> ?d k" if "j = i" "k \<noteq> i" "k < length cs" "holds (?ps ! j)" "holds (?ps ! k)" for j k
    proof -
      have "holds p" "holds (ps ! k)" using that len assms(4) by simp_all
      with other_holds [of k] that show ?thesis by metis
    qed
    note this [of j k] this [of k j]
    moreover have "j = k" if "j \<noteq> i" "k \<noteq> i" using one [of j k] that \<open>j < length cs\<close> \<open>k < length cs\<close>
        \<open>holds (?ps ! j)\<close> \<open>holds (?ps ! k)\<close> \<open>?d j = ?d k\<close> by simp
    ultimately show ?thesis using that by metis
  qed
  ultimately show ?thesis using len unfolding call_inv_def by (simp only: length_list_update) blast
qed

lemma runs_inv:
  assumes "clone_contract clone" "calls_ready w0 cs ks" "runs clone cs w0 sch w ps"
  shows "call_inv w0 cs ks w ps"
  using assms(3)
proof (induction rule: runs.induct)
  case start
  show ?case by (rule call_inv_start [OF assms(2)])
next
  case (turn sch w ps i w' p)
  then show ?case using call_inv_step [OF assms(1,2)] by blast
qed

subsection \<open>What is left of failed calls\<close>

text \<open>A new file that no call holds belongs to a call whose close or removal failed.\<close>

definition leftover :: "fsys \<Rightarrow> call list \<Rightarrow> (key \<times> key) list \<Rightarrow> key \<Rightarrow> bool" where
  "leftover w cs ks d \<longleftrightarrow> (\<exists>i < length cs. snd (ks ! i) = d \<and>
     (fault w (SysClose (dstPath (cs ! i))) \<noteq> None \<or> fault w (SysRemove (dstPath (cs ! i))) \<noteq> None))"

definition accounted :: "fsys \<Rightarrow> call list \<Rightarrow> (key \<times> key) list \<Rightarrow> fsys \<Rightarrow> call_phase list \<Rightarrow> bool" where
  "accounted w0 cs ks w ps \<longleftrightarrow> (\<forall>d. node_at w0 d = None \<and> node_at w d \<noteq> None \<longrightarrow>
     (\<exists>i < length cs. snd (ks ! i) = d \<and> holds (ps ! i)) \<or> leftover w0 cs ks d)"

text \<open>A call gives its destination up by removing it, or by failing to close or to remove it.\<close>

lemma reflink_step_gives_up:
  assumes "reflink_step clone c w p = Some (w', p')" "holds p" "\<not> holds p'" "phase_ok w0 w c s d p"
    and "at w (dstPath c) d" "node_at w' d \<noteq> None"
  shows "fault w (SysClose (dstPath c)) \<noteq> None \<or> fault w (SysRemove (dstPath c)) \<noteq> None"
proof (cases p)
  case (Closing err cleanup)
  with assms(1-4) show ?thesis by (auto simp: file_Close_def Let_def split: if_splits option.splits)
next
  case (Removing err)
  with assms(4) obtain m where m: "node_at w d = Some m" "ntype m = TReg" by auto
  have "w' = fst (os_Remove w (dstPath c))" using Removing assms(1) by simp
  with Remove_file [OF assms(5) m] assms(6) show ?thesis
    by (auto simp: fs_simps split: option.splits)
qed (use assms(1-3) in \<open>auto split: prod.splits option.splits\<close>)

lemma runs_accounted:
  assumes "clone_contract clone" "calls_ready w0 cs ks" "runs clone cs w0 sch w ps"
  shows "accounted w0 cs ks w ps"
  using assms(3)
proof (induction rule: runs.induct)
  case start
  show ?case by (auto simp: accounted_def)
next
  case (turn sch w ps i w' p)
  let ?d = "\<lambda>i. snd (ks ! i)"
  note inv = runs_inv [OF assms(1,2) turn(1)]
  note inv' = runs_inv [OF assms(1,2) runs.turn [OF turn(1-3)]]
  have i: "i < length ps" using turn(1,2) runs_length by metis
  have ok: "phase_ok w0 w (cs ! i) (fst (ks ! i)) (?d i) (ps ! i)" using inv turn(2) by (simp add: call_inv_def)
  have eff: "step_effect (?d i) w (ps ! i) w' p"
  proof -
    obtain n where n0: "node_at w0 (fst (ks ! i)) = Some n" using calls_readyD(2) [OF assms(2) turn(2)] by blast
    with inv have n: "node_at w (fst (ks ! i)) = Some n" by (simp add: call_inv_def)
    have "?d i \<noteq> fst (ks ! i)" using calls_readyD(5,6) [OF assms(2) turn(2)] by metis
    with reflink_step_ok [OF assms(1) turn(3) ok _ paths_stay [OF assms(2) inv turn(2)] n0 n] inv
    show ?thesis by (simp add: call_inv_def)
  qed
  have kept: "(\<exists>j < length cs. ?d j = d \<and> holds (ps[i := p] ! j)) \<or> leftover w0 cs ks d"
    if "node_at w0 d = None" "node_at w d \<noteq> None" "d \<noteq> ?d i \<or> \<not> holds (ps ! i)" for d
  proof -
    from turn.IH that(1,2) consider j where "j < length cs" "?d j = d" "holds (ps ! j)" | "leftover w0 cs ks d"
      unfolding accounted_def by blast
    then show ?thesis
    proof cases
      case (1 j)
      with that(3) have "j \<noteq> i" by auto
      then have "ps[i := p] ! j = ps ! j" by simp
      with 1 show ?thesis by metis
    qed simp
  qed
  show ?case
    unfolding accounted_def
  proof (intro allI impI, elim conjE)
    fix d assume d: "node_at w0 d = None" "node_at w' d \<noteq> None"
    show "(\<exists>j < length cs. ?d j = d \<and> holds (ps[i := p] ! j)) \<or> leftover w0 cs ks d"
    proof (cases "d = ?d i")
      case True
      show ?thesis
      proof (cases "holds p")
        case True
        with \<open>d = ?d i\<close> turn(2) i show ?thesis by (intro disjI1 exI [of _ i]) simp
      next
        case released: False
        show ?thesis
        proof (cases "holds (ps ! i)")
          case True
          have "fault w = fault w0" using inv by (simp add: call_inv_def same_env_def)
          with reflink_step_gives_up [OF turn(3) True released ok paths_stay(2) [OF assms(2) inv turn(2)]] d \<open>d = ?d i\<close> turn(2)
          show ?thesis unfolding leftover_def by metis
        next
          case False
          with eff released have "node_at w' (?d i) = node_at w (?d i)" by (simp add: step_effect_def)
          with d \<open>d = ?d i\<close> False kept [of d] show ?thesis by simp
        qed
      qed
    next
      case False
      with eff d have "node_at w d \<noteq> None" by (simp add: step_effect_def)
      with d(1) False kept show ?thesis by blast
    qed
  qed
qed

text \<open>What all runs have in common.\<close>

lemma concurrent_calls:
  assumes "clone_contract clone" "calls_ready w0 cs ks" "runs clone cs w0 sch w ps"
  shows "(\<forall>q. node_at w0 q \<noteq> None \<or> q \<notin> snd ` set ks \<longrightarrow> node_at w q = node_at w0 q) \<and>
    (\<forall>i < length cs. ps ! i = Returned None \<longrightarrow> node_at w0 (snd (ks ! i)) = None \<and>
       node_at w (snd (ks ! i)) = Some (copy_for w0 (cs ! i) (fst (ks ! i)))) \<and>
    (\<forall>i < length cs. \<forall>j < length cs. ps ! i = Returned None \<and> ps ! j = Returned None \<and>
       snd (ks ! i) = snd (ks ! j) \<longrightarrow> i = j) \<and>
    (\<forall>d. (\<forall>p \<in> set ps. \<exists>r. p = Returned r) \<and> node_at w0 d = None \<and> node_at w d \<noteq> None \<longrightarrow>
       (\<exists>i < length cs. snd (ks ! i) = d \<and> ps ! i = Returned None) \<or> leftover w0 cs ks d)"
proof -
  note inv = runs_inv [OF assms]
  have "node_at w0 (snd (ks ! i)) = None \<and> node_at w (snd (ks ! i)) = Some (copy_for w0 (cs ! i) (fst (ks ! i)))"
    if "i < length cs" "ps ! i = Returned None" for i
  proof -
    have "holds (ps ! i)" using that by simp
    with inv_call(1,2) [OF inv that(1)] that(2) show ?thesis by simp
  qed
  moreover have "i = j" if "i < length cs" "j < length cs" "ps ! i = Returned None" "ps ! j = Returned None"
    "snd (ks ! i) = snd (ks ! j)" for i j
  proof -
    have "holds (ps ! i)" "holds (ps ! j)" using that by simp_all
    with inv_call(3) [OF inv that(1,2)] that(5) show ?thesis by blast
  qed
  moreover have "(\<exists>i < length cs. snd (ks ! i) = d \<and> ps ! i = Returned None) \<or> leftover w0 cs ks d"
    if d: "\<forall>p \<in> set ps. \<exists>r. p = Returned r" "node_at w0 d = None" "node_at w d \<noteq> None" for d
  proof -
    from runs_accounted [OF assms] d(2,3)
    consider i where "i < length cs" "snd (ks ! i) = d" "holds (ps ! i)" | "leftover w0 cs ks d"
      unfolding accounted_def by blast
    then show ?thesis
    proof cases
      case (1 i)
      moreover obtain r where "ps ! i = Returned r" using d(1) 1(1) runs_length [OF assms(3)] by force
      ultimately show ?thesis by (cases r) auto
    qed simp
  qed
  ultimately show ?thesis using inv_kept [OF inv] by (intro conjI allI impI) blast+
qed

text \<open>C9: Concurrent calls, whatever their order and whichever system calls fail.  Nothing that existed and
  no place other than a free destination changes; a call that succeeded has left exactly the copy it
  was asked for at a place that was free; two calls never both succeed on one destination; and once all
  have returned, a destination where none succeeded is free again, if no close or removal fails there.\<close>

theorem concurrent_reflinks:
  assumes "clone_contract clone" "calls_ready w0 cs ks" "runs clone cs w0 sch w ps"
  shows "(\<forall>q. node_at w0 q \<noteq> None \<or> q \<notin> snd ` set ks \<longrightarrow> node_at w q = node_at w0 q) \<and>
    (\<forall>i < length cs. ps ! i = Returned None \<longrightarrow> node_at w0 (snd (ks ! i)) = None \<and>
       node_at w (snd (ks ! i)) = Some (copy_for w0 (cs ! i) (fst (ks ! i)))) \<and>
    (\<forall>i < length cs. \<forall>j < length cs. ps ! i = Returned None \<and> ps ! j = Returned None \<and>
       snd (ks ! i) = snd (ks ! j) \<longrightarrow> i = j) \<and>
    (\<forall>d. (\<forall>p \<in> set ps. \<exists>r. p = Returned r) \<and> node_at w0 d = None \<and> node_at w d \<noteq> None \<longrightarrow>
       (\<exists>i < length cs. snd (ks ! i) = d \<and> ps ! i = Returned None) \<or> leftover w0 cs ks d)"
  by (rule concurrent_calls [OF assms])

text \<open>
  Two requests for one destination: the second opens its source first, but the first creates the copy
  before it does.
\<close>

definition ex_calls :: "call list" where
  "ex_calls = [\<lparr>srcPath = ''/s/a'', dstPath = ''/s/b'', mode = 0x1A4\<rparr>, \<lparr>srcPath = ''/s/d/f'', dstPath = ''/s/b'', mode = 0x180\<rparr>]"

definition ex_schedule :: "nat list" where "ex_schedule = [1, 0, 0, 0, 1, 0, 0]"

definition ex_places :: "(key \<times> key) list" where
  "ex_places = [([''s'', ''a''], [''s'', ''b'']), ([''s'', ''d'', ''f''], [''s'', ''b''])]"

lemma ex_calls_ready: "calls_ready ex_fs ex_calls ex_places"
proof -
  have r: "''/s/a'' = render True [''s'', ''a'']" "''/s/b'' = render True [''s'', ''b'']" "''/s/d/f'' = render True [''s'', ''d'', ''f'']"
    by code_simp+
  have "namei ex_fs MAXSYMLINKS [] [''s'', ''a''] f = Inr ([''s'', ''a''], MAXSYMLINKS)"
    "namei ex_fs MAXSYMLINKS [] [''s'', ''b''] f = Inr ([''s'', ''b''], MAXSYMLINKS)"
    "namei ex_fs MAXSYMLINKS [] [''s'', ''d'', ''f''] f = Inr ([''s'', ''d'', ''f''], MAXSYMLINKS)" for f
    by (cases f; code_simp)+
  moreover have "length ''/s/a'' < PATH_MAX" "length ''/s/b'' < PATH_MAX" "length ''/s/d/f'' < PATH_MAX" by code_simp+
  moreover have "plain_comps [''s'', ''a'']" "plain_comps [''s'', ''b'']" "plain_comps [''s'', ''d'', ''f'']" by code_simp+
  ultimately have "at ex_fs ''/s/a'' [''s'', ''a'']" "at ex_fs ''/s/b'' [''s'', ''b'']" "at ex_fs ''/s/d/f'' [''s'', ''d'', ''f'']"
    unfolding at_def using r by metis+
  moreover have "node_at ex_fs [''s'', ''a''] = Some (ex_file 0x1A4 ''data'')" "node_at ex_fs [''s'', ''b''] = None"
    "node_at ex_fs [''s'', ''d'', ''f''] = Some (ex_file 0x180 ''more'')" by code_simp+
  ultimately show ?thesis
    by (simp add: calls_ready_def ex_wf ex_calls_def ex_places_def ex_file_def less_Suc_eq all_conj_distrib)
qed

definition ex_phases :: "call_phase list" where
  "ex_phases = [Returned None, Returned (Some (path_error ''open'' ''/s/b'' EEXIST))]"

lemma ex_run: "\<exists>w. runs ex_clone ex_calls ex_fs ex_schedule w ex_phases"
proof -
  have "map_option snd (play ex_clone ex_calls ex_schedule (ex_fs, replicate (length ex_calls) Opening)) = Some ex_phases"
    by code_simp
  then obtain w where "play ex_clone ex_calls ex_schedule (ex_fs, replicate (length ex_calls) Opening) = Some (w, ex_phases)"
    by auto
  from play_run [OF this] show ?thesis by blast
qed

lemma concurrent_reflinks_witness:
  "\<exists>w. runs ex_clone ex_calls ex_fs ex_schedule w ex_phases \<and>
     node_at w [''s'', ''b''] = Some (copy_for ex_fs (ex_calls ! 0) [''s'', ''a''])"
proof -
  obtain w where run: "runs ex_clone ex_calls ex_fs ex_schedule w ex_phases" using ex_run by blast
  have "0 < length ex_calls" "ex_phases ! 0 = Returned None" "snd (ex_places ! 0) = [''s'', ''b'']" "fst (ex_places ! 0) = [''s'', ''a'']"
    by (simp_all add: ex_calls_def ex_phases_def ex_places_def)
  with concurrent_reflinks [OF ex_clone_contract ex_calls_ready run]
  have "node_at w [''s'', ''b''] = Some (copy_for ex_fs (ex_calls ! 0) [''s'', ''a''])" by metis
  with run show ?thesis by blast
qed

subsection \<open>Concurrent calls end\<close>

fun steps_left :: "call_phase \<Rightarrow> nat" where
  "steps_left Opening = 6"
| "steps_left (Creating s) = 5"
| "steps_left (Cloning s d) = 4"
| "steps_left (Chmodding d) = 3"
| "steps_left (Closing err cleanup) = 2"
| "steps_left (Removing err) = 1"
| "steps_left (Returned r) = 0"

lemma reflink_step_less:
  "reflink_step clone c w p = Some (w', p') \<Longrightarrow> steps_left p' < steps_left p"
  by (cases p) (auto simp: Let_def split: sum.splits prod.splits option.splits if_splits)

lemma reflink_step_progress: "(\<exists>r. p = Returned r) \<or> (\<exists>s. reflink_step clone c w p = Some s)"
  by (cases p) simp_all

lemma runs_steps:
  "runs clone cs w0 sch w ps \<Longrightarrow> length sch + sum_list (map steps_left ps) \<le> 6 * length cs"
proof (induction rule: runs.induct)
  case (turn sch w ps i w' p)
  then have i: "i < length ps" using runs_length by metis
  have "sum_list (map steps_left (ps[i := p])) + steps_left (ps ! i) = sum_list (map steps_left ps) + steps_left p"
    using i elem_le_sum_list [of i "map steps_left ps"] by (simp add: map_update sum_list_update)
  with turn.IH reflink_step_less [OF turn(3)] show ?case by simp
qed (simp add: sum_list_replicate)

text \<open>Concurrent calls end: no run takes more than six steps for each call, and while a call has not
  returned it can take its next step, whatever the others do.\<close>

theorem concurrent_reflinks_end:
  assumes "runs clone cs w0 sch w ps"
  shows "length sch \<le> 6 * length cs \<and>
    (\<forall>i < length cs. (\<exists>r. ps ! i = Returned r) \<or> (\<exists>w' p. runs clone cs w0 (sch @ [i]) w' (ps[i := p])))"
proof -
  have "(\<exists>r. ps ! i = Returned r) \<or> (\<exists>w' p. runs clone cs w0 (sch @ [i]) w' (ps[i := p]))" if "i < length cs" for i
  proof (cases "\<exists>r. ps ! i = Returned r")
    case False
    then obtain w' p where "reflink_step clone (cs ! i) w (ps ! i) = Some (w', p)"
      using reflink_step_progress [of "ps ! i" clone "cs ! i" w] by auto
    with runs.turn [OF assms that] show ?thesis by blast
  qed simp
  with runs_steps [OF assms] show ?thesis by auto
qed

lemma concurrent_reflinks_end_witness:
  "\<exists>w ps. runs ex_clone ex_calls ex_fs [0] w ps \<and> length [0::nat] \<le> 6 * length ex_calls \<and>
     (\<exists>w' p. runs ex_clone ex_calls ex_fs ([0] @ [1]) w' (ps[1 := p]))"
proof -
  have "play ex_clone ex_calls [0] (ex_fs, replicate (length ex_calls) Opening) \<noteq> None"
    by code_simp
  then obtain w ps where "play ex_clone ex_calls [0] (ex_fs, replicate (length ex_calls) Opening) = Some (w, ps)" by auto
  moreover from this have "ps ! 1 = Opening"
    by (auto simp: ex_calls_def split: sum.splits)
  moreover note run = play_run [OF calculation(1)]
  moreover have "1 < length ex_calls" by (simp add: ex_calls_def)
  moreover note concurrent_reflinks_end [OF run]
  ultimately have "length [0::nat] \<le> 6 * length ex_calls" "\<exists>w' p. runs ex_clone ex_calls ex_fs ([0] @ [1]) w' (ps[1 := p])"
    by force+
  with run show ?thesis by blast
qed

subsection \<open>Exactly one call succeeds\<close>

text \<open>Where no system call fails and the file system clones, a call fails only because its destination exists.\<close>

definition fortunate :: "fsys \<Rightarrow> key \<Rightarrow> call_phase \<Rightarrow> bool" where
  "fortunate w d p \<longleftrightarrow>
     (case p of
        Closing err cleanup \<Rightarrow> \<not> cleanup
      | Removing err \<Rightarrow> False
      | Returned (Some err) \<Rightarrow> node_at w d \<noteq> None
      | _ \<Rightarrow> True)"

lemma reflink_step_fortunate:
  assumes "clones_all clone" "reflink_step clone c w p = Some (w', p')" "phase_ok w0 w c s d p"
    and "no_faults w0" "same_env w0 w" "at w (srcPath c) s" "at w (dstPath c) d"
    and "node_at w s = Some n" "d \<noteq> s" "fortunate w d p"
  shows "fortunate w' d p'"
proof -
  have nf: "fault w x = None" for x using no_faults_env [OF assms(4,5)] by (simp add: no_faults_def)
  show ?thesis
  proof (cases p)
    case Opening
    have "os_Open w (srcPath c) = Inr s" using assms(6,8) nf by (simp add: os_Open_def guarded_def find_node_def at_resolve)
    with Opening assms(2) show ?thesis by (auto simp: fortunate_def)
  next
    case (Creating s')
    show ?thesis
    proof (cases "node_at w d")
      case None
      then have "os_CreateExcl w (dstPath c) (Perm (mode c)) = (put_node w d (new_file w (Perm (mode c))), Inr d)"
        using assms(7) nf by (simp add: os_CreateExcl_def guarded_def free_place_def at_resolve)
      with Creating assms(2) show ?thesis by (auto simp: fortunate_def)
    next
      case (Some m)
      then have "os_CreateExcl w (dstPath c) (Perm (mode c)) = (w, Inl (path_error ''open'' (dstPath c) EEXIST))"
        using assms(7) nf by (simp add: os_CreateExcl_def guarded_def free_place_def at_resolve)
      with Creating Some assms(2) show ?thesis by (auto simp: fortunate_def)
    qed
  next
    case (Cloning s' d')
    with assms(1,3,8) have "snd (clone w d' s') = None" by (simp add: clones_all_def)
    then obtain w1 where "clone w d' s' = (w1, None)" by (metis prod.collapse)
    with Cloning assms(2) show ?thesis by (auto simp: fortunate_def)
  next
    case (Chmodding d')
    with assms(3) obtain m where "node_at w d' = Some m" by auto
    then have "file_Chmod w (dstPath c) d' (Perm (mode c)) = (put_node w d' (m\<lparr>nperm := Perm (mode c) AND ModeBits\<rparr>), None)"
      using nf by (simp add: file_Chmod_def)
    with Chmodding assms(2) show ?thesis by (auto simp: fortunate_def)
  next
    case (Closing err cleanup)
    with assms(3,10) have "err = None" "\<not> cleanup" by (simp_all add: fortunate_def split: if_splits)
    with Closing assms(2) nf show ?thesis by (auto simp: fortunate_def file_Close_def)
  next
    case (Removing err)
    with assms(10) show ?thesis by (simp add: fortunate_def)
  next
    case (Returned r)
    with assms(2) show ?thesis by simp
  qed
qed

lemma fortunate_kept: "fortunate w d p \<Longrightarrow> (node_at w d \<noteq> None \<Longrightarrow> node_at w' d \<noteq> None) \<Longrightarrow> fortunate w' d p"
  by (auto simp: fortunate_def split: call_phase.splits option.splits)

text \<open>A fortunate call never takes a node away.\<close>

lemma reflink_step_released:
  "reflink_step clone c w p = Some (w', p') \<Longrightarrow> holds p \<Longrightarrow> \<not> holds p' \<Longrightarrow> \<exists>e. p' = Returned (Some e)"
  by (cases p; cases p' rule: holds.cases) (auto simp: Let_def split: prod.splits option.splits if_splits)

lemma fortunate_step_keeps:
  assumes "reflink_step clone c w p = Some (w', p')" "step_effect d w p w' p'" "phase_ok w0 w' c s d p'" "fortunate w d p" "fortunate w' d p'"
    and "node_at w q \<noteq> None"
  shows "node_at w' q \<noteq> None"
proof (cases "q = d")
  case True
  show ?thesis
  proof (cases "holds p'")
    case True
    from holds_node [OF assms(3) True] \<open>q = d\<close> show ?thesis by auto
  next
    case False
    show ?thesis
    proof (cases "holds p")
      case True
      with reflink_step_released [OF assms(1)] False obtain e where "p' = Returned (Some e)" by blast
      with assms(5) \<open>q = d\<close> show ?thesis by (simp add: fortunate_def)
    next
      case False
      with \<open>\<not> holds p'\<close> assms(2,6) \<open>q = d\<close> show ?thesis by (simp add: step_effect_def)
    qed
  qed
next
  case False
  with assms(2,6) show ?thesis by (simp add: step_effect_def)
qed

lemma runs_fortunate:
  assumes "clones_all clone" "calls_ready w0 cs ks" "no_faults w0" "runs clone cs w0 sch w ps" "j < length cs"
  shows "fortunate w (snd (ks ! j)) (ps ! j)"
  using assms(4,5)
proof (induction arbitrary: j rule: runs.induct)
  case start
  then show ?case by (simp add: fortunate_def)
next
  case (turn sch w ps i w' p)
  let ?d = "\<lambda>i. snd (ks ! i)"
  have cc: "clone_contract clone" using assms(1) by (simp add: clones_all_def)
  note inv = runs_inv [OF cc assms(2) turn(1)]
  have i: "i < length ps" using turn(1,2) runs_length by metis
  have env: "same_env w0 w" using inv by (simp add: call_inv_def)
  obtain n where n0: "node_at w0 (fst (ks ! i)) = Some n" using calls_readyD(2) [OF assms(2) turn(2)] by blast
  with inv_kept [OF inv, of "fst (ks ! i)"] have n: "node_at w (fst (ks ! i)) = Some n" by simp
  have ds: "?d i \<noteq> fst (ks ! i)" using calls_readyD(5,6) [OF assms(2) turn(2)] by metis
  note ok = inv_call(1) [OF inv turn(2)] and paths = paths_stay [OF assms(2) inv turn(2)]
  note step = reflink_step_ok [OF cc turn(3) ok env paths n0 n ds]
  note f = reflink_step_fortunate [OF assms(1) turn(3) ok assms(3) env paths n ds turn.IH [OF turn(2)]]
  have "node_at w' q \<noteq> None" if "node_at w q \<noteq> None" for q
    using fortunate_step_keeps [OF turn(3) _ _ turn.IH [OF turn(2)] f that] step by blast
  with fortunate_kept [OF turn.IH [OF turn.prems]] f i show ?case by (cases "j = i") auto
qed

text \<open>C11: Where no system call fails and the file system clones, of all the calls for one free destination
  exactly one succeeds, in whatever order they run.\<close>

theorem one_reflink_wins:
  assumes "clones_all clone" "calls_ready w0 cs ks" "no_faults w0" "runs clone cs w0 sch w ps"
    and "\<forall>p \<in> set ps. \<exists>r. p = Returned r" "d \<in> snd ` set ks" "node_at w0 d = None"
  shows "\<exists>!i. i < length cs \<and> snd (ks ! i) = d \<and> ps ! i = Returned None"
proof -
  have cc: "clone_contract clone" using assms(1) by (simp add: clones_all_def)
  note all = concurrent_calls [OF cc assms(2,4)]
  have "length ks = length cs" using assms(2) by (simp add: calls_ready_def)
  with assms(6) obtain i where i: "i < length cs" "snd (ks ! i) = d" by (auto simp: in_set_conv_nth)
  moreover obtain r where "ps ! i = Returned r" using assms(5) i(1) runs_length [OF assms(4)] by force
  ultimately have "ps ! i = Returned None \<or> node_at w d \<noteq> None"
    using runs_fortunate [OF assms(1-4) i(1)] by (cases r) (auto simp: fortunate_def)
  moreover have "\<not> leftover w0 cs ks d" using assms(3) by (simp add: leftover_def no_faults_def)
  ultimately have "\<exists>i < length cs. snd (ks ! i) = d \<and> ps ! i = Returned None"
    using all assms(5,7) i by blast
  moreover have "i = j" if "i < length cs" "snd (ks ! i) = d" "ps ! i = Returned None"
    "j < length cs" "snd (ks ! j) = d" "ps ! j = Returned None" for i j
    using all that by metis
  ultimately show ?thesis by blast
qed

lemma one_reflink_wins_witness:
  "\<exists>w. runs ex_clone ex_calls ex_fs ex_schedule w ex_phases \<and>
     (\<exists>!i. i < length ex_calls \<and> snd (ex_places ! i) = [''s'', ''b''] \<and> ex_phases ! i = Returned None)"
proof -
  obtain w where run: "runs ex_clone ex_calls ex_fs ex_schedule w ex_phases" using ex_run by blast
  have h: "clones_all ex_clone" "no_faults ex_fs" "node_at ex_fs [''s'', ''b''] = None"
    "\<forall>p \<in> set ex_phases. \<exists>r. p = Returned r" "[''s'', ''b''] \<in> snd ` set ex_places"
    by (simp_all add: ex_clone_def ficlone_all no_faults_def ex_fs_def node_at_def ex_phases_def ex_places_def)
  from one_reflink_wins [OF h(1) ex_calls_ready h(2) run h(4,5,3)] run show ?thesis by blast
qed

end
