(* ===== verification/Packaging.thy ===== *)
theory Packaging
  imports Release_Build Config
begin

section \<open>The embedded texts (packaging)\<close>

text \<open>
  \<open>assets.go\<close> embeds the files of its directory; here they are, line by line.  The properties say that
  the Debian package is consistent: what its unit starts and its conffiles list is what \<open>Build\<close> stages,
  and its control file names the version and the architecture.
\<close>

definition text_of :: "string list \<Rightarrow> string" where
  "text_of ls = concat (map (\<lambda>l. l @ [CHR 0x0A]) ls)"

definition tabs :: "nat \<Rightarrow> string \<Rightarrow> string" where
  "tabs n l = replicate n (CHR 0x09) @ l"

definition debConffiles :: string where
  "debConffiles = text_of
     [''/etc/vreflinkd/config.toml'']"

definition guestConfigTemplate :: string where
  "guestConfigTemplate = text_of
     [''version = 1'',
      ''mount_root = \"/shared\"'',
      ''host_cid = 2'',
      ''port = 19090'',
      ''timeout = \"5s\"'',
      ''# Optional protocol v2 authentication token'',
      ''# token = \"\"'']"

definition debControlTemplate :: string where
  "debControlTemplate = text_of
     [''Package: vreflink'',
      ''Version: @VERSION@'',
      ''Section: admin'',
      ''Priority: optional'',
      ''Architecture: @ARCH@'',
      ''Maintainer: vreflink contributors'',
      ''Description: guest CLI and host daemon for host-side reflinks over virtiofs'',
      '' The package installs both the guest-side vreflink CLI and the host-side'',
      '' vreflinkd daemon, plus the default systemd unit and packaged config templates.'']"

definition debPostrm :: string where
  "debPostrm = text_of
     [''#!/bin/sh'',
      ''set -e'',
      [],
      ''case \"$1\" in'',
      ''purge)'',
      tabs 1 ''if command -v deb-systemd-helper >/dev/null 2>&1; then'',
      tabs 2 ''deb-systemd-helper purge vreflinkd.service >/dev/null || true'',
      tabs 1 ''fi'',
      tabs 1 ''if command -v systemctl >/dev/null 2>&1; then'',
      tabs 2 ''systemctl --system daemon-reload >/dev/null || true'',
      tabs 2 ''systemctl --system reset-failed vreflinkd.service >/dev/null || true'',
      tabs 1 ''fi'',
      tabs 1 '';;'',
      ''remove)'',
      tabs 1 ''if command -v systemctl >/dev/null 2>&1; then'',
      tabs 2 ''systemctl --system daemon-reload >/dev/null || true'',
      tabs 2 ''systemctl --system reset-failed vreflinkd.service >/dev/null || true'',
      tabs 1 ''fi'',
      tabs 1 '';;'',
      ''esac'',
      [],
      ''exit 0'']"

definition debPrerm :: string where
  "debPrerm = text_of
     [''#!/bin/sh'',
      ''set -e'',
      [],
      ''case \"$1\" in'',
      ''remove|upgrade|deconfigure)'',
      tabs 1 ''if command -v deb-systemd-invoke >/dev/null 2>&1; then'',
      tabs 2 ''deb-systemd-invoke stop vreflinkd.service >/dev/null || true'',
      tabs 1 ''elif command -v systemctl >/dev/null 2>&1; then'',
      tabs 2 ''systemctl --system stop vreflinkd.service >/dev/null || true'',
      tabs 1 ''fi'',
      tabs 1 '';;'',
      ''esac'',
      [],
      ''case \"$1\" in'',
      ''remove|deconfigure)'',
      tabs 1 ''if command -v deb-systemd-helper >/dev/null 2>&1; then'',
      tabs 2 ''deb-systemd-helper disable vreflinkd.service >/dev/null || true'',
      tabs 1 ''elif command -v systemctl >/dev/null 2>&1; then'',
      tabs 2 ''systemctl --system disable vreflinkd.service >/dev/null || true'',
      tabs 1 ''fi'',
      tabs 1 '';;'',
      ''esac'',
      [],
      ''exit 0'']"

definition systemdUnitTemplate :: string where
  "systemdUnitTemplate = text_of
     [''[Unit]'',
      ''Description=vreflink host daemon'',
      ''After=network-online.target'',
      ''Wants=network-online.target'',
      [],
      ''[Service]'',
      ''Type=simple'',
      ''ExecStart=/usr/bin/vreflinkd -c /etc/vreflinkd/config.toml'',
      ''Restart=on-failure'',
      ''RestartSec=2s'',
      [],
      ''[Install]'',
      ''WantedBy=multi-user.target'']"

definition daemonConfigTemplate :: string where
  "daemonConfigTemplate = text_of
     [''version = 1'',
      ''share_root = \"/srv/labshare\"'',
      ''port = 19090'',
      ''read_timeout = \"5s\"'',
      ''write_timeout = \"5s\"'',
      ''log_level = \"info\"'',
      ''allow_v1_fallback = false'',
      [],
      ''[[tokens]]'',
      ''name = \"project-a\"'',
      ''token = \"replace-me\"'',
      ''uid = 1000'',
      ''gid = 1000'',
      ''groups = []'']"

definition packaged :: assets where
  "packaged = \<lparr>SystemdUnitTemplate = systemdUnitTemplate, DaemonConfigTemplate = daemonConfigTemplate,
     GuestConfigTemplate = guestConfigTemplate, DebConffiles = debConffiles,
     DebControlTemplate = debControlTemplate, DebPrerm = debPrerm, DebPostrm = debPostrm\<rparr>"

subsection \<open>The contents of the Debian package\<close>

lemma Join_many:
  assumes "plain_comps ds" "plain_comps xs" "xs \<noteq> []"
  shows "Join (render True ds # xs) = render True (ds @ xs)"
proof -
  have "join_with sep (render True ds # xs) = join_with sep [render True ds, render False xs]"
    using assms(3) by (simp add: join_with_Cons render_def [of False])
  then have "Join (render True ds # xs) = Join [render True ds, render False xs]"
    by (simp add: Join.simps render_def [of True])
  with Join_render [OF assms(1,2)] show ?thesis by simp
qed

lemma render_below: "ds \<noteq> [] \<Longrightarrow> xs \<noteq> [] \<Longrightarrow> render True (ds @ xs) = render True ds @ sep # join_with sep xs"
  by (simp add: render_def join_with_append)

lemma Join_below:
  assumes "plain_comps ds" "ds \<noteq> []" "plain_comps xs" "xs \<noteq> []"
  shows "Join (render True ds # xs) = render True ds @ sep # join_with sep xs"
  using Join_many [OF assms(1,3,4)] render_below [OF assms(2,4)] by simp

text \<open>Where a staged file goes, and its mode.\<close>

fun staged_to :: "staging \<Rightarrow> string \<times> FileMode" where
  "staged_to (CopyIn src dst m) = (dst, m)"
| "staged_to (PutIn dst data m) = (dst, m)"

definition deb_files :: "(string \<times> FileMode) list" where
  "deb_files =
     [(''/usr/bin/vreflink'', 0x1ED), (''/usr/bin/vreflinkd'', 0x1ED),
      (''/lib/systemd/system/vreflinkd.service'', 0x1A4), (''/etc/vreflinkd/config.toml'', 0x180),
      (''/usr/share/vreflink/config.toml'', 0x1A4), (''/DEBIAN/conffiles'', 0x1A4), (''/DEBIAN/control'', 0x1A4),
      (''/DEBIAN/prerm'', 0x1ED), (''/DEBIAN/postrm'', 0x1ED)]"

lemma deb_staging_files:
  assumes "plain_comps ds" "ds \<noteq> []"
  shows "map staged_to (deb_staging as v a b (render True ds)) = map (\<lambda>(p, m). (render True ds @ p, m)) deb_files"
proof -
  have pl: "plain_comp ''usr''" "plain_comp ''bin''" "plain_comp ''vreflink''" "plain_comp ''vreflinkd''" "plain_comp ''lib''"
    "plain_comp ''systemd''" "plain_comp ''system''" "plain_comp ''vreflinkd.service''" "plain_comp ''etc''"
    "plain_comp ''config.toml''" "plain_comp ''share''" "plain_comp ''DEBIAN''" "plain_comp ''conffiles''"
    "plain_comp ''control''" "plain_comp ''prerm''" "plain_comp ''postrm''"
    by (simp_all add: plain_comp_def)
  have control: "Join [render True ds @ sep # ''DEBIAN'', c] = render True ds @ ''/DEBIAN/'' @ c" if "plain_comp c" for c
    using assms that pl Join_many [of "ds @ [''DEBIAN'']" "[c]"] render_below [of ds "[''DEBIAN'', c]"]
      render_below [of ds "[''DEBIAN'']"] by simp
  show ?thesis
    using assms pl by (simp add: deb_staging_def deb_files_def Let_def control Join_below)
qed

text \<open>The lines of a text, and the command that a unit starts.\<close>

definition exec_start :: "string \<Rightarrow> string list" where
  "exec_start unit =
     Fields (case find (\<lambda>l. has_prefix l ''ExecStart='') (split_on (CHR 0x0A) unit) of
               None \<Rightarrow> [] | Some l \<Rightarrow> drop (length ''ExecStart='') l)"



subsection \<open>The control file\<close>

lemma replace_scan_free:
  "c \<notin> set s \<Longrightarrow> replace_scan (c # old) new 0 (s @ t) = s @ replace_scan (c # old) new 0 t"
  by (induction s) auto

lemma replace_scan_free_end: "c \<notin> set s \<Longrightarrow> replace_scan (c # old) new 0 s = s"
  using replace_scan_free [of c s old new "[]"] by simp

lemma replace_scan_skip: "replace_scan old new (length s) (s @ t) = replace_scan old new 0 t"
  by (induction s) auto

lemma replace_scan_hit:
  "replace_scan (c # old) new 0 (c # old @ t) = new @ replace_scan (c # old) new 0 t"
  using replace_scan_skip [of "c # old" new old t] by (simp add: has_prefix_iff)

definition control_head :: string where
  "control_head = text_of [''Package: vreflink''] @ ''Version: ''"

definition control_middle :: string where
  "control_middle = [CHR 0x0A] @ text_of [''Section: admin'', ''Priority: optional''] @ ''Architecture: ''"

definition control_tail :: string where
  "control_tail = [CHR 0x0A] @ text_of [''Maintainer: vreflink contributors'',
      ''Description: guest CLI and host daemon for host-side reflinks over virtiofs'',
      '' The package installs both the guest-side vreflink CLI and the host-side'',
      '' vreflinkd daemon, plus the default systemd unit and packaged config templates.'']"

text \<open>The control file of a package is the template with the version and the architecture in their places,
  for every version without an at sign.\<close>

theorem deb_control_fields:
  assumes "CHR ''@'' \<notin> set v"
  shows "deb_control packaged v a = control_head @ v @ control_middle @ a @ control_tail"
proof -
  have t: "DebControlTemplate packaged = control_head @ ''@VERSION@'' @ control_middle @ ''@ARCH@'' @ control_tail"
    by code_simp
  have free: "CHR ''@'' \<notin> set control_head" "CHR ''@'' \<notin> set control_middle" "CHR ''@'' \<notin> set control_tail"
    by code_simp+
  obtain s where tail: "control_tail = CHR 0x0A # s" by (simp add: control_tail_def)
  have miss: "replace_scan ''@VERSION@'' v 0 (''@ARCH@'' @ control_tail) = ''@ARCH@'' @ replace_scan ''@VERSION@'' v 0 control_tail"
    unfolding tail by simp
  have hit: "replace_scan ''@VERSION@'' v 0 (''@VERSION@'' @ t) = v @ replace_scan ''@VERSION@'' v 0 t"
    "replace_scan ''@ARCH@'' a 0 (''@ARCH@'' @ t) = a @ replace_scan ''@ARCH@'' a 0 t" for t
    using replace_scan_hit [of "CHR ''@''" "''VERSION@''" v t] replace_scan_hit [of "CHR ''@''" "''ARCH@''" a t] by simp_all
  have "ReplaceAll (DebControlTemplate packaged) ''@VERSION@'' v =
      control_head @ v @ control_middle @ ''@ARCH@'' @ control_tail"
    by (simp only: t ReplaceAll_def replace_scan_free [OF free(1)] replace_scan_free [OF free(2)] hit miss
        replace_scan_free_end [OF free(3)])
  moreover have "ReplaceAll (control_head @ v @ control_middle @ ''@ARCH@'' @ control_tail) ''@ARCH@'' a =
      control_head @ v @ control_middle @ a @ control_tail"
    by (simp only: ReplaceAll_def replace_scan_free [OF free(1)] replace_scan_free [OF assms] replace_scan_free [OF free(2)] hit
        replace_scan_free_end [OF free(3)])
  ultimately show ?thesis by (simp add: deb_control_def)
qed

lemma deb_control_fields_witness:
  "deb_control packaged ''0.1.0'' ''amd64'' = control_head @ ''0.1.0'' @ control_middle @ ''amd64'' @ control_tail"
  by (rule deb_control_fields) simp

end
