(* ===== verification/Commands.thy ===== *)
theory Commands
  imports Cli Install Startup Packaging Dev_Runner
begin

section \<open>The programs and their command lines (cmd)\<close>

text \<open>
  Each \<open>main\<close> builds a tree of commands and lets cobra, a third-party package, take the command line
  apart.  The trees are data: names, argument rules, flags with their defaults.  \<open>cobra\<close> is a parameter,
  from a tree and the arguments to what is to be done: print a help text, fail, or invoke the body of a
  command with the values of its flags.  \<open>cobra_contract\<close> is the part of its documented behaviour the
  programs rely on here: arguments that are not flags, and a subcommand with one long flag.
\<close>

datatype flag_value = VBool bool | VString string | VUint32 u32 | VDuration int

record flag =
  flagName :: string
  flagShort :: string
  flagDefault :: flag_value
  flagRequired :: bool
  flagPersistent :: bool

datatype args_rule = NoArgs | ExactArgs nat | LegacyArgs

datatype command =
  Command (Use: string) (ArgsRule: args_rule) (Hidden: bool) (Flags: "flag list") (Runs: bool) (Subcommands: "command list")

record parsed =
  psPath :: "string list"
  psValue :: "string \<Rightarrow> flag_value"
  psChanged :: "string \<Rightarrow> bool"
  psArgs :: "string list"

datatype cobra_result = Help string | UsageError go_error | Invoke parsed

type_synonym cobra = "command \<Rightarrow> string list \<Rightarrow> cobra_result"

text \<open>A command is called by the first word of \<open>Use\<close>.\<close>

definition command_name :: "command \<Rightarrow> string" where
  "command_name c = takeWhile (\<lambda>ch. ch \<noteq> CHR '' '') (Use c)"

definition new_flag :: "string \<Rightarrow> flag_value \<Rightarrow> flag" where
  "new_flag name v = \<lparr>flagName = name, flagShort = [], flagDefault = v, flagRequired = False, flagPersistent = False\<rparr>"

definition default_values :: "command \<Rightarrow> string \<Rightarrow> flag_value" where
  "default_values c name =
     (case find (\<lambda>f. flagName f = name) (Flags c) of
        None \<Rightarrow> VString []
      | Some f \<Rightarrow> flagDefault f)"

definition plain_arg :: "string \<Rightarrow> bool" where
  "plain_arg a \<longleftrightarrow> a \<noteq> [] \<and> hd a \<noteq> CHR ''-''"

text \<open>Names of the commands and flags that cobra adds to a tree.\<close>

definition builtin_commands :: "string list" where
  "builtin_commands = [''help'', ''completion'', ''__complete'', ''__completeNoDesc'']"

definition builtin_flags :: "string list" where
  "builtin_flags = [''help'', ''version'']"

definition cobra_contract :: "cobra \<Rightarrow> bool" where
  "cobra_contract cobra \<longleftrightarrow>
     (\<forall>c xs. Runs c \<and> ArgsRule c = ExactArgs (length xs) \<and> list_all (\<lambda>f. \<not> flagRequired f \<and> flagName f \<notin> set builtin_flags) (Flags c) \<and>
        xs \<noteq> [] \<and> list_all plain_arg xs \<and> hd xs \<notin> set (map command_name (Subcommands c) @ builtin_commands) \<longrightarrow>
        cobra c xs = Invoke \<lparr>psPath = [], psValue = default_values c, psChanged = (\<lambda>_. False), psArgs = xs\<rparr>) \<and>
     (\<forall>c s f v. s \<in> set (Subcommands c) \<and> distinct (map command_name (Subcommands c)) \<and>
        plain_arg (command_name s) \<and> command_name s \<notin> set builtin_commands \<and>
        Runs s \<and> ArgsRule s = NoArgs \<and> Subcommands s = [] \<and> Flags s = [f] \<and> flagDefault f = VString [] \<and>
        flagName f \<noteq> [] \<and> flagName f \<notin> set builtin_flags \<and> CHR ''='' \<notin> set (flagName f) \<and> flagName f \<notin> flagName ` set (Flags c) \<longrightarrow>
        cobra c [command_name s, ''--'' @ flagName f, v] =
          Invoke \<lparr>psPath = [command_name s], psValue = (default_values s)(flagName f := VString v),
            psChanged = (\<lambda>n. n = flagName f), psArgs = []\<rparr>)"

text \<open>How a program ends: its status and what it wrote.\<close>

record outcome =
  exStatus :: nat
  exOut :: string
  exErr :: string

definition failed :: "string \<Rightarrow> go_error \<Rightarrow> outcome" where
  "failed name err = \<lparr>exStatus = 1, exOut = [], exErr = name @ '': '' @ error_msg err @ [CHR 0x0A]\<rparr>"

definition succeeded :: "string \<Rightarrow> outcome" where
  "succeeded out = \<lparr>exStatus = 0, exOut = out, exErr = []\<rparr>"

fun bool_of :: "flag_value \<Rightarrow> bool" where
  "bool_of (VBool b) = b" | "bool_of _ = False"
fun string_of :: "flag_value \<Rightarrow> string" where
  "string_of (VString s) = s" | "string_of _ = []"
fun uint32_of :: "flag_value \<Rightarrow> u32" where
  "uint32_of (VUint32 n) = n" | "uint32_of _ = 0"
fun duration_of :: "flag_value \<Rightarrow> int" where
  "duration_of (VDuration d) = d" | "duration_of _ = 0"

subsection \<open>vreflink\<close>

definition config_init_command :: command where
  "config_init_command = Command ''init'' NoArgs False [new_flag ''force'' (VBool False)] True []"

definition newConfigCmd :: command where
  "newConfigCmd = Command ''config'' LegacyArgs False [] False [config_init_command]"

definition vreflink_command :: command where
  "vreflink_command =
     (let defaults = DefaultCLI in
      Command ''vreflink [-r] SRC DST'' (ExactArgs 2) False
        [(new_flag ''recursive'' (VBool False))\<lparr>flagShort := ''r''\<rparr>,
         new_flag ''mount-root'' (VString (GuestMountRoot defaults)),
         new_flag ''cid'' (VUint32 (CLIHostCID defaults)),
         new_flag ''port'' (VUint32 (VsockPort defaults)),
         new_flag ''timeout'' (VDuration (CLITimeout defaults)),
         new_flag ''token'' (VString (AuthToken defaults))] True [newConfigCmd])"

definition flags_of :: "parsed \<Rightarrow> flags" where
  "flags_of p = \<lparr>flRecursive = bool_of (psValue p ''recursive''), flMountRoot = string_of (psValue p ''mount-root''),
     flCID = uint32_of (psValue p ''cid''), flPort = uint32_of (psValue p ''port''),
     flTimeout = duration_of (psValue p ''timeout''), flToken = string_of (psValue p ''token''), Changed = psChanged p\<rparr>"

text \<open>\<open>main\<close> on the guest's state \<open>w\<close> with the dependencies of \<open>newRootCmdWithDependencies\<close>.\<close>

definition vreflink_main :: "cobra \<Rightarrow> go_error + CLI \<Rightarrow> go_error + string \<Rightarrow> (CLI \<Rightarrow> Request \<Rightarrow> go_error + Response) \<Rightarrow>
    (nat \<Rightarrow> u32) \<Rightarrow> go_error + string \<Rightarrow> string list \<Rightarrow> fsys \<Rightarrow> fsys \<times> outcome" where
  "vreflink_main cobra load wd doRequest rnd dirs argv w =
     (case cobra vreflink_command argv of
        Help text \<Rightarrow> (w, succeeded text)
      | UsageError err \<Rightarrow> (w, failed ''vreflink'' err)
      | Invoke p \<Rightarrow>
          if psPath p = [''config'', ''init''] then
            (case newConfigInitCmd rnd dirs guestConfigTemplate (bool_of (psValue p ''force'')) w of
               (w1, Inl err) \<Rightarrow> (w1, failed ''vreflink'' err)
             | (w1, Inr out) \<Rightarrow> (w1, succeeded out))
          else (w,
            case RunE load wd doRequest (flags_of p) (hd (psArgs p)) (hd (tl (psArgs p))) of
              None \<Rightarrow> succeeded []
            | Some err \<Rightarrow> failed ''vreflink'' err))"

text \<open>The program as \<open>newRootCmd\<close> composes it; its context is never cancelled and has no deadline.\<close>

definition vreflink_program :: "cobra \<Rightarrow> cliFile toml \<Rightarrow> go_error + string \<Rightarrow> environment \<Rightarrow> go_error + string \<Rightarrow> DialFunc \<Rightarrow>
    (int option \<Rightarrow> dial_event) \<Rightarrow> (nat \<Rightarrow> u32) \<Rightarrow> string list \<Rightarrow> fsys \<Rightarrow> fsys \<times> outcome" where
  "vreflink_program cobra toml dirs env wd vsock_Dial event rnd argv w =
     vreflink_main cobra (LoadCLI toml w dirs env) wd (executeRequest vsock_Dial event None) rnd dirs argv w"

subsection \<open>vreflinkd\<close>

definition newSystemdUnitCmd :: command where
  "newSystemdUnitCmd = Command ''systemd-unit'' NoArgs False [] True []"

definition newWorkerCmd :: command where
  "newWorkerCmd = Command ''worker'' NoArgs True [new_flag ''share-root'' (VString [])] True []"

definition vreflinkd_command :: command where
  "vreflinkd_command = Command ''vreflinkd'' LegacyArgs False
     [(new_flag ''config'' (VString DefaultDaemonConfigPath))\<lparr>flagShort := ''c''\<rparr>] True [newSystemdUnitCmd, newWorkerCmd]"

text \<open>
  The body of the root command: \<open>load\<close> is \<open>config.LoadDaemonPath\<close>, \<open>daemon\<close> is \<open>runDaemon\<close>; \<open>None\<close> is a
  daemon that never returns.
\<close>

definition daemon_RunE :: "('s \<Rightarrow> string \<Rightarrow> go_error + Config.Daemon) \<Rightarrow>
    ('s \<Rightarrow> Config.Daemon \<Rightarrow> 's \<times> (go_error + 's Server \<times> conn list \<times> go_error option option)) \<Rightarrow>
    string \<Rightarrow> 's \<Rightarrow> ('s \<times> go_error option) option" where
  "daemon_RunE load daemon configPath w =
     (case load w configPath of
        Inl err \<Rightarrow> Some (w, Some err)
      | Inr cfg \<Rightarrow>
          (case daemon w cfg of
             (w1, Inl err) \<Rightarrow> Some (w1, Some err)
           | (w1, Inr (srv, conns, None)) \<Rightarrow> None
           | (w1, Inr (srv, conns, Some r)) \<Rightarrow> Some (w1, r)))"

definition vreflinkd_exit :: "go_error option \<Rightarrow> nat \<times> string" where
  "vreflinkd_exit r = (case r of None \<Rightarrow> (0, []) | Some err \<Rightarrow> (1, exErr (failed ''vreflinkd'' err)))"

definition worker_RunE :: "(string \<Rightarrow> 's requestService) \<Rightarrow> parsed \<Rightarrow> 's \<Rightarrow> reader \<Rightarrow> writer \<Rightarrow> ('s \<times> writer \<times> go_error option) option" where
  [simp]: "worker_RunE newService p w inp out = runWorker newService (string_of (psValue p ''share-root'')) w inp out"

definition systemd_unit_RunE :: "(writer \<Rightarrow> bytes \<Rightarrow> writer \<times> go_error option) \<Rightarrow> writer \<Rightarrow> writer \<times> go_error option" where
  [simp]: "systemd_unit_RunE put out = put out systemdUnitTemplate"

text \<open>\<open>main\<close> with standard input and output; the result has the status and the standard error.\<close>

definition vreflinkd_main :: "cobra \<Rightarrow> (string \<Rightarrow> 's requestService) \<Rightarrow> (string \<Rightarrow> 's \<Rightarrow> ('s \<times> go_error option) option) \<Rightarrow>
    (writer \<Rightarrow> bytes \<Rightarrow> writer \<times> go_error option) \<Rightarrow> string list \<Rightarrow> 's \<Rightarrow> reader \<Rightarrow> writer \<Rightarrow> ('s \<times> writer \<times> nat \<times> string) option" where
  "vreflinkd_main cobra newService serve put argv w inp out =
     (case cobra vreflinkd_command argv of
        Help text \<Rightarrow> Some (w, fst (put out text), 0, [])
      | UsageError err \<Rightarrow> Some (w, out, vreflinkd_exit (Some err))
      | Invoke p \<Rightarrow>
          if psPath p = [''worker''] then
            map_option (\<lambda>(w1, out1, r). (w1, out1, vreflinkd_exit r))
              (worker_RunE newService p w inp out)
          else if psPath p = [''systemd-unit''] then
            (case systemd_unit_RunE put out of (out1, r) \<Rightarrow> Some (w, out1, vreflinkd_exit r))
          else map_option (\<lambda>(w1, r). (w1, out, vreflinkd_exit r)) (serve (string_of (psValue p ''config'')) w))"

text \<open>The program on a host: its root command serves with \<open>runDaemon\<close>.\<close>

definition vreflinkd_program :: "cobra \<Rightarrow> daemonFile toml \<Rightarrow> (string \<Rightarrow> fsys requestService) \<Rightarrow> fsys os_exec \<Rightarrow> go_error + string \<Rightarrow>
    go_error + Identity \<Rightarrow> (fsys \<Rightarrow> string \<Rightarrow> fsys \<times> go_error option) \<Rightarrow> (u32 \<Rightarrow> go_error option) \<Rightarrow> accept_result list \<Rightarrow>
    (writer \<Rightarrow> bytes \<Rightarrow> writer \<times> go_error option) \<Rightarrow> string list \<Rightarrow> fsys \<Rightarrow> reader \<Rightarrow> writer \<Rightarrow>
    (fsys \<times> writer \<times> nat \<times> string) option" where
  "vreflinkd_program cobra toml newService exec exe ident probe listen accepts put =
     vreflinkd_main cobra newService
       (daemon_RunE (LoadDaemonPath toml) (runDaemon newService exec exe ident probe listen accepts)) put"

subsection \<open>vreflink-dev\<close>

definition suite_command :: "string \<Rightarrow> command" where
  "suite_command suite = Command suite NoArgs False [] True []"

definition test_command :: command where
  "test_command = Command ''test'' LegacyArgs False [(new_flag ''race'' (VBool False))\<lparr>flagPersistent := True\<rparr>] False
     (map suite_command [''quick'', ''reflinkfs'', ''vm'', ''release'', ''all''])"

definition release_build_command :: command where
  "release_build_command = Command ''build'' NoArgs False
     [(new_flag ''version'' (VString []))\<lparr>flagRequired := True\<rparr>, new_flag ''arch'' (VString SupportedArch),
      new_flag ''out-dir'' (VString [])] True []"

definition newReleaseCmd :: command where
  "newReleaseCmd = Command ''release'' LegacyArgs False [] False [release_build_command]"

definition newVMCmd :: command where
  "newVMCmd = Command ''vm'' LegacyArgs False [] False [Command ''check-prereqs'' NoArgs False [] True []]"

definition dev_command :: command where
  "dev_command = Command ''vreflink-dev'' LegacyArgs False [] False [test_command, newReleaseCmd, newVMCmd]"

text \<open>Which body a command line of the development runner invokes; \<open>None\<close> is a body that never ends.\<close>

definition dev_body :: "'s deps \<Rightarrow> parsed \<Rightarrow> 's io \<Rightarrow> ('s io \<times> go_error option) option" where
  "dev_body d p s =
     (if psPath p = [''release'', ''build''] then
        newReleaseBuildCmd d \<lparr>Version_opt = string_of (psValue p ''version''), Arch = string_of (psValue p ''arch''),
          OutDir = string_of (psValue p ''out-dir'')\<rparr> s
      else if psPath p = [''vm'', ''check-prereqs''] then checkPrereqsCmd d s
      else (case newTestCmd d (last (psPath p)) (Inr (bool_of (psValue p ''race''))) s of
              None \<Rightarrow> Some (s, None)
            | Some r \<Rightarrow> r))"

definition dev_main :: "cobra \<Rightarrow> 's deps \<Rightarrow> string list \<Rightarrow> 's io \<Rightarrow> ('s io \<times> nat) option" where
  "dev_main cobra d argv s =
     (case s of (st, out, err) \<Rightarrow>
      case cobra dev_command argv of
        Help text \<Rightarrow> Some ((st, out @ text, err), 0)
      | UsageError e \<Rightarrow> Some ((st, out, err @ exErr (failed ''vreflink-dev'' e)), 1)
      | Invoke p \<Rightarrow>
          map_option (\<lambda>((st1, out1, err1), r).
            case r of
              None \<Rightarrow> ((st1, out1, err1), 0)
            | Some e \<Rightarrow> ((st1, out1, err1 @ exErr (failed ''vreflink-dev'' e)), 1)) (dev_body d p s))"

subsection \<open>The worker's command line\<close>

text \<open>
  \<open>runs_program\<close>: the operating system runs this program with the arguments given, on its standard input
  and output, and reports its status.
\<close>

definition runs_program :: "cobra \<Rightarrow> (string \<Rightarrow> 's requestService) \<Rightarrow> (string \<Rightarrow> 's \<Rightarrow> ('s \<times> go_error option) option) \<Rightarrow>
    (writer \<Rightarrow> bytes \<Rightarrow> writer \<times> go_error option) \<Rightarrow> string list \<Rightarrow> 's Daemon_Runtime.process \<Rightarrow> bool" where
  "runs_program cobra newService serve put argv p \<longleftrightarrow>
     stdin_pipe p = None \<and> stdout_pipe p = None \<and> start p = None \<and> stdin_close p = None \<and>
     stdin_writer p = \<lparr>written = [], wfault = None\<rparr> \<and>
     (\<forall>cred w bs. child p cred w bs =
        map_option (\<lambda>(w1, out, status, err).
            (w1, written out, if status = 0 then None else Some (ErrorString (''exit status '' @ show_nat status)), err))
          (vreflinkd_main cobra newService serve put (tl argv) w \<lparr>arriving = bs, ending = Sentinel IoEOF\<rparr>
             \<lparr>written = [], wfault = None\<rparr>))"

lemma cobra_positional:
  assumes "cobra_contract cobra" "Runs c" "ArgsRule c = ExactArgs (length xs)"
    and "list_all (\<lambda>f. \<not> flagRequired f \<and> flagName f \<notin> set builtin_flags) (Flags c)" "xs \<noteq> []" "list_all plain_arg xs"
    and "hd xs \<notin> set (map command_name (Subcommands c) @ builtin_commands)"
  shows "cobra c xs = Invoke \<lparr>psPath = [], psValue = default_values c, psChanged = (\<lambda>_. False), psArgs = xs\<rparr>"
  using assms unfolding cobra_contract_def by blast

lemma cobra_worker:
  assumes "cobra_contract cobra"
  shows "cobra vreflinkd_command [''worker'', ''--share-root'', root] =
    Invoke \<lparr>psPath = [''worker''], psValue = (default_values newWorkerCmd)(''share-root'' := VString root),
      psChanged = (\<lambda>n. n = ''share-root''), psArgs = []\<rparr>"
proof -
  let ?f = "new_flag ''share-root'' (VString [])"
  have n: "command_name newWorkerCmd = ''worker''" "flagName ?f = ''share-root''"
    by (simp_all add: command_name_def newWorkerCmd_def new_flag_def)
  have "newWorkerCmd \<in> set (Subcommands vreflinkd_command)" "distinct (map command_name (Subcommands vreflinkd_command))"
    by (simp_all add: vreflinkd_command_def command_name_def newWorkerCmd_def newSystemdUnitCmd_def)
  moreover have "plain_arg (command_name newWorkerCmd)" "command_name newWorkerCmd \<notin> set builtin_commands"
    by (simp_all add: n plain_arg_def builtin_commands_def)
  moreover have "Runs newWorkerCmd" "ArgsRule newWorkerCmd = NoArgs" "Subcommands newWorkerCmd = []" "Flags newWorkerCmd = [?f]"
    by (simp_all add: newWorkerCmd_def)
  moreover have "flagDefault ?f = VString []" "flagName ?f \<noteq> []" "flagName ?f \<notin> set builtin_flags" "CHR ''='' \<notin> set (flagName ?f)"
    "flagName ?f \<notin> flagName ` set (Flags vreflinkd_command)"
    by (simp_all add: new_flag_def vreflinkd_command_def builtin_flags_def)
  ultimately have "cobra vreflinkd_command [command_name newWorkerCmd, ''--'' @ flagName ?f, root] =
      Invoke \<lparr>psPath = [command_name newWorkerCmd], psValue = (default_values newWorkerCmd)(flagName ?f := VString root),
        psChanged = (\<lambda>n. n = flagName ?f), psArgs = []\<rparr>"
    using assms unfolding cobra_contract_def by blast
  then show ?thesis by (simp add: n)
qed

text \<open>C14: The command line that the daemon starts its worker with is understood by the worker: the program,
  run on it, serves the one request on its standard input below the daemon's share root, whatever
  characters the share root has, and fails only if the response cannot be written.\<close>

theorem worker_command_line:
  assumes "cobra_contract cobra"
  shows "vreflinkd_main cobra newService serve put (tl (worker_argv cw)) w inp out =
    map_option (\<lambda>(w1, out1, r). (w1, out1, vreflinkd_exit r)) (runWorker newService (shareRoot cw) w inp out)"
  by (simp add: vreflinkd_main_def worker_argv_def cobra_worker [OF assms])

lemma runs_program_worker:
  assumes "cobra_contract cobra" "runs_program cobra newService serve put (worker_argv cw) p"
  shows "runs_worker newService (shareRoot cw) p"
  using assms(2)
  by (simp add: runs_program_def runs_worker_def vreflinkd_main_def worker_argv_def cobra_worker [OF assms(1)] vreflinkd_exit_def)

text \<open>A parser that does what the contract says and refuses everything else.\<close>

definition ex_cobra :: cobra where
  "ex_cobra c argv =
     (if Runs c \<and> ArgsRule c = ExactArgs (length argv) \<and> argv \<noteq> [] \<and> list_all plain_arg argv then
        Invoke \<lparr>psPath = [], psValue = default_values c, psChanged = (\<lambda>_. False), psArgs = argv\<rparr>
      else case argv of
        [name, fl, v] \<Rightarrow>
          (case find (\<lambda>s. command_name s = name) (Subcommands c) of
             None \<Rightarrow> UsageError (ErrorString ''unknown command'')
           | Some s \<Rightarrow>
               (case Flags s of
                  [f] \<Rightarrow> Invoke \<lparr>psPath = [name], psValue = (default_values s)(flagName f := VString v),
                      psChanged = (\<lambda>n. n = flagName f), psArgs = []\<rparr>
                | _ \<Rightarrow> UsageError (ErrorString ''unknown flag'')))
      | _ \<Rightarrow> UsageError (ErrorString ''wrong number of arguments''))"

lemma find_distinct:
  "x \<in> set xs \<Longrightarrow> distinct (map f xs) \<Longrightarrow> find (\<lambda>y. f y = f x) xs = Some x"
  by (induction xs) (auto simp: image_iff)

lemma ex_cobra_ok: "cobra_contract ex_cobra"
  unfolding cobra_contract_def
proof (intro conjI allI impI, goal_cases)
  case (1 c xs)
  then show ?case by (simp add: ex_cobra_def)
next
  case (2 c s f v)
  have "\<not> list_all plain_arg [command_name s, ''--'' @ flagName f, v]" by (simp add: plain_arg_def)
  with 2 find_distinct [of s "Subcommands c" command_name] show ?case by (simp add: ex_cobra_def)
qed

theorem worker_command_line_witness:
  "vreflinkd_main ex_cobra ex_service (\<lambda>_ _. None) (\<lambda>o1 _. (o1, None)) [''worker'', ''--share-root'', ''/my share''] 4
      \<lparr>arriving = frame (marshal_Request ex_wire_request), ending = Sentinel IoEOF\<rparr> empty_writer =
    Some (5, \<lparr>written = frame (marshal_Response (FailureResponse CodeEEXIST ''destination already exists'')), wfault = None\<rparr>,
      0, [])"
proof -
  let ?cw = "\<lparr>executablePath = ''/usr/bin/vreflinkd'', shareRoot = ''/my share'', currentIdentity = ex_identity\<rparr>"
  have a: "tl (worker_argv ?cw) = [''worker'', ''--share-root'', ''/my share'']" "shareRoot ?cw = ''/my share''"
    by (simp_all add: worker_argv_def)
  have svc: "ex_service ''/my share'' 4 ex_wire_request = Some (5, Some (Errno EEXIST))"
    by (simp add: ex_service_def ex_wire_request_def)
  show ?thesis
    unfolding worker_command_line [OF ex_cobra_ok, where cw = ?cw, unfolded a] runWorker_frame [OF ex_wire_ok(1) ex_wire_small(1)] svc
    by (simp add: ex_exists_response Write_frame empty_writer_def vreflinkd_exit_def)
qed

subsection \<open>The guest's command line\<close>

lemma cobra_vreflink:
  assumes "cobra_contract cobra" "plain_arg src" "plain_arg dst" "src \<notin> set (''config'' # builtin_commands)"
  shows "cobra vreflink_command [src, dst] = Invoke \<lparr>psPath = [], psValue = default_values vreflink_command,
    psChanged = (\<lambda>_. False), psArgs = [src, dst]\<rparr>"
  using assms(2-4)
  by (intro cobra_positional [OF assms(1)])
    (simp_all add: vreflink_command_def new_flag_def newConfigCmd_def command_name_def builtin_flags_def Let_def)

text \<open>What the command prints for the daemon's response to a request.\<close>

definition exit_for :: "Request \<Rightarrow> Response \<Rightarrow> outcome" where
  "exit_for req resp =
     (if OK resp then succeeded []
      else failed ''vreflink'' (case Error resp of
             None \<Rightarrow> ErrorString ''daemon returned an unknown error''
           | Some d \<Rightarrow> CodedError (Code d) (responseErrorMessage req (Some d)) None))"

lemma vreflink_program_response:
  assumes "cobra_contract cobra" "plain_arg src" "plain_arg dst" "src \<notin> set (''config'' # builtin_commands)"
    and "LoadCLI toml g dirs env = Inr cfg"
    and "buildRequest (Inr wd) cfg wd src dst False = Inr req"
    and "executeRequest vsock_Dial event None cfg req = Inr resp"
  shows "vreflink_program cobra toml dirs env (Inr wd) vsock_Dial event rnd [src, dst] g = (g, exit_for req resp)"
proof -
  have "resolveRuntimeConfig (Inr cfg) (flags_of \<lparr>psPath = [], psValue = default_values vreflink_command,
      psChanged = (\<lambda>_. False), psArgs = [src, dst]\<rparr>) = Inr cfg"
    by (simp add: resolveRuntimeConfig_def flags_of_def Let_def)
  moreover have "default_values vreflink_command ''recursive'' = VBool False"
    by (simp add: default_values_def vreflink_command_def new_flag_def Let_def)
  ultimately show ?thesis
    using assms(5-7)
    by (simp add: vreflink_program_def vreflink_main_def cobra_vreflink [OF assms(1-4)] RunE_def flags_of_def exit_for_def
        split: option.splits)
qed

end
