(* ===== verification/Test_Helpers.thy ===== *)
theory Test_Helpers
  imports Fixtures
begin

section \<open>Helpers of a running test (internal/testsupport)\<close>

text \<open>
  The functions that take a \<open>*testing.T\<close>.  A test has the state of the host and the directories that its
  \<open>Cleanup\<close> calls will remove, the last one first; a helper ends the test with the message of \<open>t.Fatal\<close>
  (\<open>Inl\<close>) or returns.  The other functions of \<open>testsupport.go\<close> pass their arguments on to devsupport.
\<close>

record testT =
  testHost :: fsys
  testCleanups :: "string list"

type_synonym 'a tested = "testT \<times> (string + 'a)"

definition fatal :: "testT \<Rightarrow> string \<Rightarrow> 'a tested" where
  "fatal t msg = (t, Inl msg)"

text \<open>What package testing does when the test has ended, whether it failed or not.\<close>

definition run_cleanups :: "testT \<Rightarrow> fsys" where
  "run_cleanups t = foldl (\<lambda>w dir. fst (os_RemoveAll w dir)) (testHost t) (testCleanups t)"

text \<open>The \<open>%v\<close> verb.\<close>

definition show_error :: "go_error option \<Rightarrow> string" where
  "show_error err = (case err of None \<Rightarrow> ''<nil>'' | Some e \<Rightarrow> error_msg e)"

definition AssertCode :: "testT \<Rightarrow> go_error option \<Rightarrow> string \<Rightarrow> unit tested" where
  "AssertCode t err want =
     (let got = CodeOf err in
      if got \<noteq> want then
        fatal t (''error code = '' @ Quote got @ '', want '' @ Quote want @ '' (err='' @ show_error err @ '')'')
      else (t, Inr ()))"

definition testsupport_SourceRepoRoot :: "process \<Rightarrow> go_error + string" where
  "testsupport_SourceRepoRoot p = SourceRepoRoot p"

definition RepoRoot :: "process \<Rightarrow> testT \<Rightarrow> string tested" where
  "RepoRoot p t =
     (case testsupport_SourceRepoRoot p of
        Inl err \<Rightarrow> fatal t (error_msg err)
      | Inr root \<Rightarrow> (t, Inr root))"

definition TempDirUnder :: "(nat \<Rightarrow> u32) \<Rightarrow> testT \<Rightarrow> string \<Rightarrow> string tested" where
  "TempDirUnder rnd t base =
     (case os_MkdirAll (testHost t) base 0x1ED of
        (w1, Some err) \<Rightarrow> fatal (t\<lparr>testHost := w1\<rparr>) (''os.MkdirAll() error = '' @ error_msg err)
      | (w1, None) \<Rightarrow>
          (case os_MkdirTemp rnd w1 base ''case-'' of
             (w2, Inl err) \<Rightarrow> fatal (t\<lparr>testHost := w2\<rparr>) (''os.MkdirTemp() error = '' @ error_msg err)
           | (w2, Inr dir) \<Rightarrow> (t\<lparr>testHost := w2, testCleanups := dir # testCleanups t\<rparr>, Inr dir)))"

definition RepoTempDir :: "(nat \<Rightarrow> u32) \<Rightarrow> process \<Rightarrow> testT \<Rightarrow> string \<Rightarrow> string tested" where
  "RepoTempDir rnd p t suite =
     (case RepoRoot p t of
        (t1, Inl msg) \<Rightarrow> (t1, Inl msg)
      | (t1, Inr root) \<Rightarrow> TempDirUnder rnd t1 (Join [root, ''.tmp'', suite]))"

definition RequireReflinkFS :: "(nat \<Rightarrow> u32) \<Rightarrow> clone_fun \<Rightarrow> testT \<Rightarrow> string \<Rightarrow> unit tested" where
  "RequireReflinkFS rnd clone t path =
     (case HasReflinkFS rnd clone (testHost t) path of
        (w1, Inl err) \<Rightarrow> fatal (t\<lparr>testHost := w1\<rparr>) (''HasReflinkFS() error = '' @ error_msg err)
      | (w1, Inr ok) \<Rightarrow>
          if \<not> ok then fatal (t\<lparr>testHost := w1\<rparr>) (path @ '' does not support reflink'')
          else (t\<lparr>testHost := w1\<rparr>, Inr ()))"

subsection \<open>Commands\<close>

definition testsupport_RunCommand :: "'s runner \<Rightarrow> 's \<Rightarrow> string \<Rightarrow> string list option \<Rightarrow> string \<Rightarrow> string list \<Rightarrow>
    ('s \<times> CommandResult \<times> go_error option) option" where
  "testsupport_RunCommand run s dir env name args = RunCommand run s dir env name args"

definition testsupport_RunCommandStreaming :: "'s runner \<Rightarrow> 's \<times> string \<times> string \<Rightarrow> string \<Rightarrow> string list option \<Rightarrow>
    string \<Rightarrow> string list \<Rightarrow> (('s \<times> string \<times> string) \<times> go_error option) option" where
  "testsupport_RunCommandStreaming run s dir env name args = RunCommandStreaming run s dir env name args"

definition testsupport_LookPathAny :: "process \<Rightarrow> fsys \<Rightarrow> string list \<Rightarrow> string option" where
  "testsupport_LookPathAny p w paths = LookPathAny p w paths"

definition testsupport_HashFile :: "fsys \<Rightarrow> string \<Rightarrow> go_error + string" where
  "testsupport_HashFile w path = HashFile w path"

text \<open>
  \<open>StartCommand\<close> starts a command and does not wait for it: \<open>launch\<close> is \<open>Cmd.Start\<close> with its files for
  the output, and the command is returned with its error.
\<close>

definition StartCommand :: "('s \<Rightarrow> cmd \<Rightarrow> 'f \<Rightarrow> 'f \<Rightarrow> 's \<times> go_error option) \<Rightarrow> 's \<Rightarrow> string \<Rightarrow> string list option \<Rightarrow> 'f \<Rightarrow> 'f \<Rightarrow>
    string \<Rightarrow> string list \<Rightarrow> 's \<times> cmd \<times> go_error option" where
  "StartCommand launch s dir env stdout stderr name args =
     (let c = \<lparr>cmdDir = dir, cmdEnv = env, cmdName = name, cmdArgs = args\<rparr> in
      case launch s c stdout stderr of (s1, err) \<Rightarrow> (s1, c, err))"

text \<open>The lines of the output, trimmed, without the empty ones.\<close>

fun tracked_loop :: "string list \<Rightarrow> string list" where
  "tracked_loop [] = []"
| "tracked_loop (line # lines) =
     (let line = TrimSpace line in
      if line = [] then tracked_loop lines else line # tracked_loop lines)"

definition TrackedFiles :: "fsys runner \<Rightarrow> process \<Rightarrow> testT \<Rightarrow> string list tested option" where
  "TrackedFiles run p t =
     (case RepoRoot p t of
        (t1, Inl msg) \<Rightarrow> Some (t1, Inl msg)
      | (t1, Inr root) \<Rightarrow>
          (case testsupport_RunCommand run (testHost t1) root None ''git'' [''ls-files''] of
             None \<Rightarrow> None
           | Some (w1, result, Some err) \<Rightarrow>
               Some (fatal (t1\<lparr>testHost := w1\<rparr>)
                 (''git ls-files failed: '' @ error_msg err @ [CHR 0x0A] @ Stderr result))
           | Some (w1, result, None) \<Rightarrow>
               Some (t1\<lparr>testHost := w1\<rparr>, Inr (tracked_loop (split_on (CHR 0x0A) (TrimSpace (Stdout result)))))))"

subsection \<open>The list of tracked files\<close>

text \<open>No space of Unicode has a newline in it but the newline itself.\<close>

lemma newline_tokens:
  "t \<in> set space_encodings \<Longrightarrow> CHR 0x0A \<in> set t \<Longrightarrow> t = [CHR 0x0A]"
  by (simp add: space_encodings_def) (elim disjE; simp)

lemma strip_end:
  assumes "\<And>t. t \<in> set toks \<Longrightarrow> CHR 0x0A \<in> set t \<Longrightarrow> t = [CHR 0x0A]"
    and "CHR 0x0A \<notin> set f" "f \<noteq> []" "strip_tokens toks f = f"
  shows "strip_tokens toks (f @ CHR 0x0A # rest) = f @ CHR 0x0A # rest"
proof (rule strip_tokens_fixed, unfold find_None_iff, rule notI)
  assume "\<exists>t. t \<in> set toks \<and> t \<noteq> [] \<and> has_prefix (f @ CHR 0x0A # rest) t"
  then obtain t where t: "t \<in> set toks" "t \<noteq> []" "prefix t (f @ CHR 0x0A # rest)" by (auto simp: has_prefix_iff)
  have "prefix t f"
  proof (rule ccontr)
    assume n: "\<not> prefix t f"
    with t(3) have "CHR 0x0A \<in> set t"
      by (auto simp: prefix_append prefix_Cons)
    with assms(1) [OF t(1)] have "t = [CHR 0x0A]" by simp
    with t(3) assms(2,3) show False by (cases f) auto
  qed
  then have "has_prefix f t" by (simp add: has_prefix_iff)
  with t strip_tokens_stable [of toks f] assms(4) show False by (auto simp: find_None_iff)
qed

lemma strip_newline:
  assumes "\<And>t. t \<in> set toks \<Longrightarrow> hd t = CHR 0x0A \<Longrightarrow> t = [CHR 0x0A]" "[CHR 0x0A] \<in> set toks"
  shows "strip_tokens toks (CHR 0x0A # s) = strip_tokens toks s"
proof -
  have "find (\<lambda>t. t \<noteq> [] \<and> has_prefix (CHR 0x0A # s) t) toks \<noteq> None"
    using assms(2) by (auto simp: find_None_iff)
  then obtain t where f: "find (\<lambda>t. t \<noteq> [] \<and> has_prefix (CHR 0x0A # s) t) toks = Some t" by blast
  then have t: "t \<in> set toks" "t \<noteq> []" "has_prefix (CHR 0x0A # s) t" unfolding find_Some_iff by auto
  from t(2,3) have "hd t = CHR 0x0A" by (cases t) simp_all
  with assms(1) t(1) have "t = [CHR 0x0A]" by blast
  with f show ?thesis by (subst strip_tokens.simps) simp
qed

text \<open>A name that \<open>git ls-files\<close> prints and that this list can hold.\<close>

definition listable :: "string \<Rightarrow> bool" where
  "listable f \<longleftrightarrow> f \<noteq> [] \<and> CHR 0x0A \<notin> set f \<and> TrimSpace f = f"

lemma listable_ends:
  assumes "listable f"
  shows "TrimLeftSpace f = f" "TrimRightSpace f = f"
proof -
  have s: "suffix (TrimLeftSpace f) f" by (simp add: TrimLeftSpace_def strip_tokens_suffix)
  have p: "prefix (TrimSpace f) (TrimLeftSpace f)" by (simp add: TrimSpace_def TrimRightSpace_prefix)
  have "length f \<le> length (TrimLeftSpace f)" using assms prefix_length_le [OF p] by (simp add: listable_def)
  with s show l: "TrimLeftSpace f = f" by (metis suffix_def append_eq_conv_conj le_antisym length_append le_add2
    suffix_length_le append_Nil length_0_conv add_cancel_left_left)
  with assms show "TrimRightSpace f = f" by (simp add: TrimSpace_def listable_def)
qed

lemma TrimSpace_lines:
  assumes "fs \<noteq> []" "list_all listable fs"
  shows "TrimSpace (concat (map (\<lambda>f. f @ [CHR 0x0A]) fs)) = join_with (CHR 0x0A) fs"
proof -
  let ?n = "CHR 0x0A"
  have lines: "concat (map (\<lambda>f. f @ [?n]) gs) = join_with ?n gs @ [?n]" if "gs \<noteq> []" for gs
    using that by (induction gs rule: list_nonempty_induct) (simp_all add: join_with_Cons)
  obtain f gs where f: "fs = f # gs" using assms(1) by (cases fs) auto
  obtain ls l where l: "fs = ls @ [l]" using assms(1) by (cases fs rule: rev_cases) auto
  have lf: "listable f" "listable l" using assms(2) unfolding list_all_iff by (simp add: f, simp add: l)
  have "\<exists>rest. join_with ?n fs @ [?n] = f @ ?n # rest"
    unfolding f by (cases gs) auto
  then have left: "TrimLeftSpace (join_with ?n fs @ [?n]) = join_with ?n fs @ [?n]"
    using strip_end [of space_encodings f] newline_tokens lf(1) listable_ends(1) [OF lf(1)]
    by (auto simp: listable_def TrimLeftSpace_def)
  let ?toks = "map rev space_encodings"
  have toks: "t = [?n]" if "t \<in> set ?toks" "?n \<in> set t" for t
  proof -
    from that obtain u where "u \<in> set space_encodings" "t = rev u" by auto
    with that(2) newline_tokens [of u] show ?thesis by simp
  qed
  have toks_hd: "t = [?n]" if "t \<in> set ?toks" "hd t = ?n" for t
  proof -
    have "[] \<notin> set ?toks" by (simp add: space_encodings_def)
    with that(1) have "t \<noteq> []" by metis
    with that(2) have "?n \<in> set t" by (metis list.set_sel(1))
    with toks [OF that(1)] show ?thesis .
  qed
  have rl: "strip_tokens ?toks (rev l) = rev l"
    using listable_ends(2) [OF lf(2)] by (simp add: TrimRightSpace_def rev_swap)
  have "strip_tokens ?toks (rev (join_with ?n fs)) = rev (join_with ?n fs)"
  proof (cases "ls = []")
    case True
    with l rl show ?thesis by simp
  next
    case False
    then have "rev (join_with ?n fs) = rev l @ ?n # rev (join_with ?n ls)"
      unfolding l by (simp add: join_with_append)
    moreover have "?n \<notin> set (rev l)" "rev l \<noteq> []" using lf(2) by (simp_all add: listable_def)
    ultimately show ?thesis using strip_end [OF toks _ _ rl] by simp
  qed
  moreover have "[?n] \<in> set ?toks" by (simp add: space_encodings_def)
  then have "strip_tokens ?toks (?n # rev (join_with ?n fs)) = strip_tokens ?toks (rev (join_with ?n fs))"
    using strip_newline [OF toks_hd] by blast
  ultimately have "TrimRightSpace (join_with ?n fs @ [?n]) = join_with ?n fs"
    by (simp add: TrimRightSpace_def)
  with left show ?thesis by (simp add: lines [OF assms(1)] TrimSpace_def)
qed

lemma tracked_loop_listable: "list_all listable fs \<Longrightarrow> tracked_loop fs = fs"
  by (induction fs) (auto simp: listable_def)

text \<open>
  \<open>TrackedFiles\<close> returns the tracked files, in git's order, whatever other characters their names have:
  a name must not begin or end with a space, and must have no newline.
\<close>

theorem TrackedFiles_lists:
  assumes "RepoRoot p t = (t, Inr root)" "list_all listable fs"
    and "run (testHost t) \<lparr>cmdDir = root, cmdEnv = None, cmdName = ''git'', cmdArgs = [''ls-files'']\<rparr> =
      Some (w1, \<lparr>Stdout = concat (map (\<lambda>f. f @ [CHR 0x0A]) fs), Stderr = se\<rparr>, None)"
  shows "TrackedFiles run p t = Some (t\<lparr>testHost := w1\<rparr>, Inr fs)"
proof -
  have "tracked_loop (split_on (CHR 0x0A) (TrimSpace (concat (map (\<lambda>f. f @ [CHR 0x0A]) fs)))) = fs"
  proof (cases "fs = []")
    case True
    have "TrimSpace [] = []" by code_simp
    with True show ?thesis by simp
  next
    case False
    moreover have "\<forall>f \<in> set fs. CHR 0x0A \<notin> set f" using assms(2) by (auto simp: list_all_iff listable_def)
    ultimately show ?thesis
      by (simp add: TrimSpace_lines [OF _ assms(2)] split_join tracked_loop_listable [OF assms(2)])
  qed
  with assms(1,3) show ?thesis by (simp add: TrackedFiles_def testsupport_RunCommand_def RunCommand_def)
qed

text \<open>A temporary directory is registered for removal exactly if it was made.\<close>

lemma TempDirUnder_cleanup:
  assumes "TempDirUnder rnd t base = (t', r)"
  shows "testCleanups t' = (case r of Inl _ \<Rightarrow> testCleanups t | Inr dir \<Rightarrow> dir # testCleanups t)"
  using assms by (auto simp: TempDirUnder_def fatal_def split: prod.splits option.splits sum.splits)

end
