(* ===== verification/Spec2Isabelle.thy ===== *)
theory Spec2Isabelle
  imports Startup Cli Install Server_Steps Config_Properties Release_Properties Release_Tarball Fixture_Properties
    Concurrent_Reflink Commands Test_Helpers
begin

text \<open>
  V-reflink: reflinks (copy-on-write clones) for guests of a virtual machine.

  A guest mounts a host directory over virtiofs, which cannot clone files.  The command
  \<open>vreflink SRC DST\<close> in the guest (cmd/vreflink) turns its arguments into paths relative to the
  mount root, sends one request over vsock and waits for one response.  The daemon \<open>vreflinkd\<close> on
  the host (cmd/vreflinkd) validates the request, authenticates its token, resolves both paths
  below the share root without following links and clones the file or the tree, if necessary in
  a worker process under the identity of the token.

  The theories, in the order of their dependencies:

  \<^item> Prelude: the shared types (byte strings, \<open>uint32\<close> as 32-bit words), splitting and joining,
    decimal numbers, and the simplification rule collections.
  \<^item> Go_Strings, Go_Path, Go_Error, Go_Numbers: what the program uses of Go's \<open>strings\<close>,
    \<open>encoding/binary\<close>, \<open>path/filepath\<close>, \<open>errors\<close>, \<open>strconv\<close> and \<open>time\<close>.  Paths are cleaned
    component by component; the lemmas give the components of a cleaned, joined or relative path.
  \<^item> File_System: the host state (nodes with type, mode, data and link count), path resolution
    with symbolic links, and the calls of package \<open>os\<close>, each of which may fail.
  \<^item> Protocol, Auth, Validate (internal/protocol, auth, validate): the request and response
    records, the mapping of errors to protocol codes, the token table, and the path checks of
    both sides.
  \<^item> Reflink (internal/service): the interface \<open>Reflinker\<close> as the locales \<open>reflinker\<close> and
    \<open>exclusive_reflinker\<close>, and the implementations \<open>FileReflinker\<close> (the daemon's) and
    \<open>CopyReflinker\<close> (internal/testsupport) with their interpretations.
  \<^item> Tree_Walk, Tree_Nesting (internal/tree): \<open>ReflinkTree\<close> over \<open>filepath.WalkDir\<close>; that a
    successful walk mirrors its source, that every walk ends, and what happens when the
    destination lies inside the source.
  \<^item> Service, Example, Service_Properties (internal/service): \<open>Execute\<close>, its contract \<open>effect\<close>,
    and the theorems about it with a concrete host as their witness.
  \<^item> Tree_Success, Service_Success: the requests that must succeed, where no call fails and the
    file system clones (locale \<open>sure_reflinker\<close>).
  \<^item> Concurrent_Reflink (internal/service): the system calls of \<open>FileReflinker.Reflink\<close> as the steps of a state
    machine, and all interleavings of many calls; that no call touches what another made, and that of
    the calls for one destination one wins.
  \<^item> Temp_File: \<open>os.CreateTemp\<close>, \<open>os.Rename\<close>, \<open>os.MkdirAll\<close>, and states that differ in temporary
    files only.
  \<^item> Share_Probe (internal/service): \<open>ValidateShareRoot\<close>, the probe at start-up.
  \<^item> Json, Framing, Wire (internal/framing): JSON as \<open>encoding/json\<close> reads and writes the two
    records, the 4-byte length header, and the round trips.
  \<^item> Server, Client (internal/server, client): one connection, the accept loop, \<open>Do\<close>.
  \<^item> Server_Steps (internal/server): the accept loop, the closing of the listener and all
    connections as one step relation; every run is equivalent to handling the requests in order.
  \<^item> Config, Config_Properties (internal/config, logutil): defaults, TOML files, the legacy env
    file, the environment; that accepted timeouts fit 64 bits and that settings read back.
  \<^item> Daemon_Runtime (cmd/vreflinkd): the executor, credentials, the worker process, start-up.
  \<^item> Startup (cmd/vreflinkd): \<open>runDaemon\<close> with the probe, the service and the worker on a host.
  \<^item> Cli (cmd/vreflink): requests and error messages of the command.
  \<^item> Install (internal/install, cmd/vreflink): \<open>WriteTemplate\<close> and \<open>config init\<close>.
  \<^item> Sha256, Dev_Support (internal/devsupport): SHA-256 on 32-bit words; commands, executables in
    PATH, temporary directories and the removal of trees.
  \<^item> Release, Release_Build, Release_Properties, Release_Tarball (internal/releasebuild): the tar
    writer and \<open>createTarGz\<close>, \<open>Build\<close>, checksums; that published checksums verify, that a tarball holds
    the packed tree, and that errors of its deferred closes are lost.
  \<^item> Fixtures, Dev_Runner, Fixture_Properties (internal/testsupport, cmd/vreflink-dev): probing a
    directory, the prerequisites and the loopback file system of a test suite, the commands of the
    development runner; that a probe leaves no trace, what environment a suite gets, and that every
    suite that was prepared is cleaned up.
  \<^item> Test_Helpers (internal/testsupport): the helpers of a running test, its cleanups and its list of tracked
    files.
  \<^item> Packaging (packaging): the embedded templates, and that the Debian package they make is consistent.
  \<^item> Commands (cmd): the command trees, \<open>main\<close> of the three programs, and that the worker understands the
    command line the daemon starts it with.
  \<^item> This theory: the parts composed, from the client's call to the host's files and back.

  Bounds.  The recursion of \<open>walkDir\<close> takes fuel for the depth of the walk; \<open>PATH_MAX\<close> (4096) is
  enough on every state, since every level makes the path longer and the kernel refuses longer
  ones (\<open>execute_ends\<close>).  \<open>read_json\<close> takes fuel from the length of its input, which bounds the
  depth of a value.

  Third-party code is a parameter: \<open>sj\<close> (securejoin.SecureJoin, with \<open>securejoin_contract\<close>),
  \<open>clone\<close> (reflink.Reflink, with \<open>clone_contract\<close>, which \<open>ficlone\<close> satisfies), the TOML decoder,
  \<open>cobra\<close> (the parser of command lines, with \<open>cobra_contract\<close>, which \<open>ex_cobra\<close> satisfies),
  \<open>vsock.Dial\<close> and \<open>vsock.Listen\<close>, the bytes of gzip and tar (\<open>enc\<close> and \<open>untar\<close>, with
  \<open>tar_encoder\<close> and \<open>tar_decoder\<close>, which an example satisfies), and the programs that are started
  (\<open>run\<close>: go, git, dpkg-deb, mkfs.btrfs, mount, sudo).

  Not modelled: interleavings of tree walks and of path checks with other requests, and changes to the
  share by other processes (in Server_Steps one call of the handler is one step; only the calls of
  \<open>FileReflinker.Reflink\<close> are interleaved by system call); the text of JSON syntax errors; logging;
  the cancellation of commands; the constructors of the guest's command that only tests use.
\<close>

subsection \<open>The daemon around the service\<close>

definition authorised :: "Config.Daemon \<Rightarrow> Request \<Rightarrow> bool" where
  "authorised cfg req \<longleftrightarrow>
     (if Tokens cfg = [] then AllowV1Fallback cfg \<and> Version req = Version1
      else Version req = Version2 \<and> Token req \<in> entry_key ` set (Tokens cfg))"

text \<open>An authorised request is answered as the service answers it, in this process or in a worker.\<close>

lemma daemon_answers:
  assumes "loadRuntimeTokenMap cfg = Inr tm"
    and "newDaemonExecutor newService exec exe ident cfg tm = Inr e"
    and "\<And>cw. runs_worker newService (shareRoot cw) (exec (worker_argv cw))"
    and "authorised cfg req" "Request_Validate req = None"
    and "wire_Request req" "length (marshal_Request req) \<le> MaxPayloadSize"
    and "newService (ShareRoot cfg) w req = Some (w', r)"
    and "wire_Response (ResponseFromError r)"
      "length (marshal_Response (ResponseFromError r)) \<le> MaxPayloadSize"
  shows "daemon_handler e w req peer = Some (w', ResponseFromError r)"
proof (cases "Tokens cfg = []")
  case True
  with assms(1,4) have "tm = None" "Version req = Version1"
    by (auto simp: loadRuntimeTokenMap_def NewTokenMapFromEntries_def authorised_def split: if_splits)
  with assms(2,8) show ?thesis
    by (auto simp: newDaemonExecutor_def daemon_handler_def daemonExecutor_Execute_def)
next
  case False
  let ?m = "map_of (map (\<lambda>e. (entry_key e, entry_identity e)) (Tokens cfg))"
  obtain tm' where "NewTokenMapFromEntries ''daemon config'' (Tokens cfg) = Inr tm'"
    using assms(1) by (auto simp: loadRuntimeTokenMap_def split: sum.splits)
  with False have "NewTokenMapFromEntries ''daemon config'' (Tokens cfg) = Inr (Some ?m)"
    by (auto simp: NewTokenMapFromEntries_Inr)
  with assms(1) have tm: "tm = Some ?m" by (simp add: loadRuntimeTokenMap_def)
  with assms(2) obtain path self where e: "tokenMap e = Some ?m"
      "worker e = Some (commandWorker_Execute exec
         \<lparr>executablePath = path, shareRoot = ShareRoot cfg, currentIdentity = self\<rparr>)"
    by (auto simp: newDaemonExecutor_def newCommandWorker_def Let_def split: sum.splits)
  define cw where "cw = \<lparr>executablePath = path, shareRoot = ShareRoot cfg, currentIdentity = self\<rparr>"
  from assms(4) False have v2: "Version req = Version2" "Token req \<in> dom ?m"
    by (auto simp: authorised_def dom_map_of_conv_image_fst image_image)
  then obtain i where i: "?m (Token req) = Some i" by blast
  have "newService (shareRoot cw) w req = Some (w', r)" using assms(8) by (simp add: cw_def)
  from worker_transparent [where newService = newService and exec = exec and cw = cw,
      OF assms(3,6,7) this assms(9,10)] obtain r' where
      "commandWorker_Execute exec cw w req i = Some (w', r')" "ResponseFromError r' = ResponseFromError r"
    by blast
  with e(2) v2(1) i show ?thesis
    by (simp add: daemon_handler_def executor_admits [OF e(1)] assms(5) cw_def)
qed

text \<open>One request to a serving daemon, for the properties below.\<close>

lemma served_end_to_end:
  assumes "clone_contract clone" "securejoin_contract sj" "wf_fs w"
    and "loadRuntimeTokenMap cfg = Inr tm"
    and "newDaemonExecutor (newWorkerService fuel clone sj) exec exe ident cfg tm = Inr e"
    and "\<And>cw. runs_worker (newWorkerService fuel clone sj) (shareRoot cw) (exec (worker_argv cw))"
    and "authorised cfg req" "Request_Validate req = None"
    and "wire_Request req" "length (marshal_Request req) \<le> MaxPayloadSize"
    and "Execute fuel clone sj (New (ShareRoot cfg) clone) w req = Some (w', r)"
    and "wire_Response (ResponseFromError r)"
      "length (marshal_Response (ResponseFromError r)) \<le> MaxPayloadSize"
    and "event (dial_deadline c ctxDeadline) = DialReturned"
    and "Dial c = Some d" "d (HostCID c) (Port c) = Inr (served_by s (daemon_handler e) w peer)"
  shows "Do defaultDial c event ctxDeadline req = Inr (ResponseFromError r) \<and>
    effect w (ShareRoot cfg) req w' r \<and>
    (\<exists>c' logs. handleConn s (daemon_handler e) w (server_conn peer (frame (marshal_Request req))) =
       Some (w', c', logs))"
proof -
  have "daemon_handler e w req p = Some (w', ResponseFromError r)" for p
    using daemon_answers [OF assms(4-10) _ assms(12,13), of w w'] assms(11)
    by (simp add: newWorkerService_def)
  note h = this
  have "Do defaultDial c event ctxDeadline req = Inr (ResponseFromError r)"
    by (rule client_server [where event = event and d = d and handler = "daemon_handler e",
          OF assms(8,9,10,14-16) h assms(12,13)])
  moreover have "effect w (ShareRoot cfg) req w' r"
    by (rule Execute_effect [OF assms(1-3,11)])
  moreover have "Read decode_Request (rd (server_conn peer (frame (marshal_Request req)))) =
      (\<lparr>arriving = [], ending = Sentinel IoEOF\<rparr>, Inr req)"
    using Read_Request_frame [OF assms(9,10), of "[]"] by (simp add: server_conn_def)
  from handleConn_returns [OF this, where handler = "daemon_handler e", OF h]
  have "\<exists>c' logs. handleConn s (daemon_handler e) w (server_conn peer (frame (marshal_Request req))) =
      Some (w', c', logs)" .
  ultimately show ?thesis by blast
qed

text \<open>C2: From the guest's call to the host's files and back.  A valid, authorised request that
  the client sends to a daemon serving a share root returns, over the wire and through the
  worker if tokens are configured, exactly the response to what \<open>Execute\<close> did to the host, and
  what it did satisfies the service's contract.\<close>

theorem end_to_end:
  assumes "clone_contract clone" "securejoin_contract sj" "wf_fs w"
    and "loadRuntimeTokenMap cfg = Inr tm"
    and "newDaemonExecutor (newWorkerService fuel clone sj) exec exe ident cfg tm = Inr e"
    and "\<And>cw. runs_worker (newWorkerService fuel clone sj) (shareRoot cw) (exec (worker_argv cw))"
    and "authorised cfg req" "Request_Validate req = None"
    and "wire_Request req" "length (marshal_Request req) \<le> MaxPayloadSize"
    and "Execute fuel clone sj (New (ShareRoot cfg) clone) w req = Some (w', r)"
    and "wire_Response (ResponseFromError r)"
      "length (marshal_Response (ResponseFromError r)) \<le> MaxPayloadSize"
    and "event (dial_deadline c ctxDeadline) = DialReturned"
    and "Dial c = Some d" "d (HostCID c) (Port c) = Inr (served_by s (daemon_handler e) w peer)"
  shows "Do defaultDial c event ctxDeadline req = Inr (ResponseFromError r) \<and>
    effect w (ShareRoot cfg) req w' r \<and>
    (\<exists>c' logs. handleConn s (daemon_handler e) w (server_conn peer (frame (marshal_Request req))) =
       Some (w', c', logs))"
  using served_end_to_end [where exec = exec and event = event and d = d and c = c, OF assms] .

definition ex_token_request :: Request where
  "ex_token_request = (ex_request False ''a'' ''b'')\<lparr>Version := 2, Token := ''s3cret''\<rparr>"

lemma ex_token_request_ok:
  "authorised ex_share ex_token_request" "Request_Validate ex_token_request = None"
  "wire_Request ex_token_request" "length (marshal_Request ex_token_request) \<le> MaxPayloadSize"
proof -
  show "authorised ex_share ex_token_request" by code_simp
  show "Request_Validate ex_token_request = None" by code_simp
  show "wire_Request ex_token_request"
    by (simp add: wire_Request_def ex_token_request_def ex_request_def) code_simp
  have "length (marshal_Request ex_token_request) \<le> 500" by code_simp
  then show "length (marshal_Request ex_token_request) \<le> MaxPayloadSize" by (simp add: MaxPayloadSize_def)
qed

theorem end_to_end_witness:
  "\<exists>w' d. Do (\<lambda>_ _. Inl (Errno EIO)) (New_client d 2 19090 5) (\<lambda>_. DialReturned) None ex_token_request =
      Inr SuccessResponse \<and> effect ex_fs ''/s'' ex_token_request w' None"
proof -
  obtain tm e where e: "loadRuntimeTokenMap ex_share = Inr tm"
     "newDaemonExecutor (newWorkerService PATH_MAX ex_clone ex_sj) ex_system (Inr ''/bin/d'')
       (Inr ex_identity) ex_share tm = Inr e" using ex_share_started by blast
  have root: "ShareRoot ex_share = ''/s''" by (simp add: ex_share_def)
  have "map_option snd (Execute PATH_MAX ex_clone ex_sj (New ''/s'' ex_clone) ex_fs ex_token_request) =
      Some None" by code_simp
  then obtain w' where
      r: "Execute PATH_MAX ex_clone ex_sj (New ''/s'' ex_clone) ex_fs ex_token_request = Some (w', None)"
    by auto
  let ?s = "\<lparr>Listener = True, Handler = Some (daemon_handler e), ReadTimeout = 5, WriteTimeout = 5\<rparr>"
  let ?d = "\<lambda>_ _. Inr (served_by ?s (daemon_handler e) ex_fs (VsockAddr 3 1))"
  have s: "ResponseFromError None = SuccessResponse" by (simp add: ResponseFromError_def)
  have "Do (\<lambda>_ _. Inl (Errno EIO)) (New_client ?d 2 19090 5) (\<lambda>_. DialReturned) None ex_token_request =
      Inr (ResponseFromError None) \<and> effect ex_fs (ShareRoot ex_share) ex_token_request w' None \<and>
    (\<exists>c' logs. handleConn ?s (daemon_handler e) ex_fs
       (server_conn (VsockAddr 3 1) (frame (marshal_Request ex_token_request))) = Some (w', c', logs))"
    by (rule end_to_end [where d = ?d and exec = ex_system, OF ex_hyps e ex_system_runs ex_token_request_ok])
      (simp_all add: root r s wire_Response_def SuccessResponse_def [symmetric] success_small New_client_def,
       simp add: SuccessResponse_def)
  then show ?thesis unfolding s root by blast
qed

text \<open>C3: The two programs together.  In the guest, \<open>vreflink SRC DST\<close> with a configuration that
  loads ends as the daemon's \<open>Execute\<close> does on the host: with status 0 and no output exactly if it
  succeeded, and otherwise with its error's message; the daemon's worker, where tokens are
  configured, is the daemon's own program on the command line it is started with.\<close>

theorem cli_end_to_end:
  assumes "clone_contract clone" "securejoin_contract sj" "wf_fs w" "cobra_contract cobra"
    and "loadRuntimeTokenMap cfg = Inr tm"
    and "newDaemonExecutor (newWorkerService fuel clone sj) exec exe ident cfg tm = Inr e"
    and "\<And>cw. runs_program cobra (newWorkerService fuel clone sj) serve put (worker_argv cw) (exec (worker_argv cw))"
    and "plain_arg src" "plain_arg dst" "src \<notin> set (''config'' # builtin_commands)"
    and "LoadCLI toml g dirs env = Inr gcfg" "buildRequest (Inr wd) gcfg wd src dst False = Inr req"
    and "authorised cfg req" "Request_Validate req = None"
    and "wire_Request req" "length (marshal_Request req) \<le> MaxPayloadSize"
    and "Execute fuel clone sj (New (ShareRoot cfg) clone) w req = Some (w', r)"
    and "wire_Response (ResponseFromError r)"
      "length (marshal_Response (ResponseFromError r)) \<le> MaxPayloadSize"
    and "\<And>dl. event dl = DialReturned"
    and "vsock_Dial (CLIHostCID gcfg) (VsockPort gcfg) = Inr (served_by s (daemon_handler e) w peer)"
  shows "vreflink_program cobra toml dirs env (Inr wd) vsock_Dial event rnd [src, dst] g =
      (g, exit_for req (ResponseFromError r)) \<and>
    (if r = None then exit_for req (ResponseFromError r) = succeeded []
     else exStatus (exit_for req (ResponseFromError r)) = 1) \<and>
    effect w (ShareRoot cfg) req w' r"
proof -
  let ?c = "New_client vsock_Dial (CLIHostCID gcfg) (VsockPort gcfg) (CLITimeout gcfg)"
  have worker: "runs_worker (newWorkerService fuel clone sj) (shareRoot cw) (exec (worker_argv cw))" for cw
    by (rule runs_program_worker [OF assms(4,7)])
  have dial: "Dial ?c = Some vsock_Dial" "vsock_Dial (HostCID ?c) (Port ?c) = Inr (served_by s (daemon_handler e) w peer)"
    using assms(21) by (simp_all add: New_client_def)
  note served = served_end_to_end [where exec = exec and event = event and c = ?c and d = vsock_Dial and defaultDial = vsock_Dial and ctxDeadline = None,
      OF assms(1-3,5,6) worker assms(13-20) dial]
  then have "executeRequest vsock_Dial event None gcfg req = Inr (ResponseFromError r)"
    by (simp add: executeRequest_def)
  from vreflink_program_response [where vsock_Dial = vsock_Dial and event = event, OF assms(4,8-12) this] served ResponseFromError_cases [of r]
  show ?thesis
    by (auto simp: exit_for_def failed_def succeeded_def SuccessResponse_def FailureResponse_def)
qed

text \<open>A guest without configuration files, and with a token in its environment.\<close>

definition ex_guest_env :: environment where
  "ex_guest_env = [''VREFLINK_GUEST_MOUNT_ROOT'' \<mapsto> ''/shared'', ''VREFLINK_AUTH_TOKEN'' \<mapsto> ''s3cret'']"

definition ex_guest :: CLI where
  "ex_guest = defaultCLIConfig\<lparr>GuestMountRoot := ''/shared'', AuthToken := ''s3cret''\<rparr>"

text \<open>A system whose only program is \<open>vreflinkd\<close>.\<close>

definition ex_program :: "fsys os_exec" where
  "ex_program argv = \<lparr>stdin_pipe = None, stdout_pipe = None, start = None, stdin_writer = empty_writer, stdin_close = None,
     child = (\<lambda>cred w bs. map_option (\<lambda>(w1, out, status, err).
         (w1, written out, if status = 0 then None else Some (ErrorString (''exit status '' @ show_nat status)), err))
       (vreflinkd_main ex_cobra (newWorkerService PATH_MAX ex_clone ex_sj) (\<lambda>_ _. None) (\<lambda>o1 _. (o1, None)) (tl argv) w
          \<lparr>arriving = bs, ending = Sentinel IoEOF\<rparr> empty_writer))\<rparr>"

lemma ex_program_runs:
  "runs_program ex_cobra (newWorkerService PATH_MAX ex_clone ex_sj) (\<lambda>_ _. None) (\<lambda>o1 _. (o1, None)) (worker_argv cw)
     (ex_program (worker_argv cw))"
  by (simp add: runs_program_def ex_program_def empty_writer_def)

theorem cli_end_to_end_witness:
  "\<exists>w' d. vreflink_program ex_cobra (ex_toml ''5s'') (Inr ''/u'') ex_guest_env (Inr ''/shared'') d (\<lambda>_. DialReturned) (\<lambda>_. 0)
      [''a'', ''b''] ex_fs = (ex_fs, succeeded []) \<and> effect ex_fs ''/s'' ex_token_request w' None"
proof -
  obtain tm e where e: "loadRuntimeTokenMap ex_share = Inr tm"
     "newDaemonExecutor (newWorkerService PATH_MAX ex_clone ex_sj) ex_program (Inr ''/bin/d'')
       (Inr ex_identity) ex_share tm = Inr e" using ex_share_started by blast
  have root: "ShareRoot ex_share = ''/s''" by (simp add: ex_share_def)
  have "map_option snd (Execute PATH_MAX ex_clone ex_sj (New ''/s'' ex_clone) ex_fs ex_token_request) =
      Some None" by code_simp
  then obtain w' where
      r: "Execute PATH_MAX ex_clone ex_sj (New ''/s'' ex_clone) ex_fs ex_token_request = Some (w', None)"
    by auto
  let ?s = "\<lparr>Listener = True, Handler = Some (daemon_handler e), ReadTimeout = 5, WriteTimeout = 5\<rparr>"
  let ?d = "\<lambda>_ _. Inr (served_by ?s (daemon_handler e) ex_fs (VsockAddr 3 1))"
  have args: "plain_arg ''a''" "plain_arg ''b''" "''a'' \<notin> set (''config'' # builtin_commands)"
    "LoadCLI (ex_toml ''5s'') ex_fs (Inr ''/u'') ex_guest_env = Inr ex_guest"
    "buildRequest (Inr ''/shared'') ex_guest ''/shared'' ''a'' ''b'' False = Inr ex_token_request" by code_simp+
  have s: "ResponseFromError None = SuccessResponse" by (simp add: ResponseFromError_def)
  have "vreflink_program ex_cobra (ex_toml ''5s'') (Inr ''/u'') ex_guest_env (Inr ''/shared'') ?d (\<lambda>_. DialReturned) (\<lambda>_. 0)
      [''a'', ''b''] ex_fs = (ex_fs, exit_for ex_token_request (ResponseFromError None)) \<and>
    (if None = (None :: go_error option) then exit_for ex_token_request (ResponseFromError None) = succeeded []
     else exStatus (exit_for ex_token_request (ResponseFromError None)) = 1) \<and>
    effect ex_fs (ShareRoot ex_share) ex_token_request w' None"
    by (rule cli_end_to_end [where vsock_Dial = ?d and exec = ex_program and s = ?s and peer = "VsockAddr 3 1",
          OF ex_hyps ex_cobra_ok e ex_program_runs args ex_token_request_ok])
      (simp_all add: root r s wire_Response_def SuccessResponse_def [symmetric] success_small,
       simp add: SuccessResponse_def)
  then show ?thesis unfolding root by auto
qed

end
